(* ===== verification/Prelude.thy ===== *)
theory Prelude
  imports Main "HOL-Library.Word"
begin

text \<open>
  What every component shares: the names of the basic types, the errors of the program with their
  texts, the hint collections, generic lemmas on lists, sums and maps, and the interface of a
  state machine with an invariant.
\<close>

section \<open>Types and collections\<close>

type_synonym byte = "8 word"

text \<open>
  \<open>go_defs\<close> collects the definitions of the small total helpers that component proofs unfold;
  \<open>go_splits\<close> is used as \<open>split: go_splits\<close>.
\<close>

named_theorems go_defs \<open>definitions that the component proofs unfold\<close>

lemmas go_splits = option.splits sum.splits prod.splits if_splits list.splits


section \<open>Errors\<close>

text \<open>
  A Go \<open>error\<close> is an interface value. The four sentinel errors of \<open>errors.go\<close> are compared by
  identity; every other error of the program is built by \<open>errors.New\<close> or \<open>fmt.Errorf\<close> and only its
  text matters. An error that comes from outside the program (the network, TLS, JSON, YAML) is
  \<open>Extern\<close> with its text. A panic of the program, which no caller recovers, is \<open>Panic\<close>.
\<close>

datatype go_error =
    ErrClientNotSubscribed
  | ErrClientNotConnected
  | ErrClientAlreadyConnected
  | ErrUnauthorised
  | Errorf string
  | Extern string
  | Panic string

fun error_text :: "go_error \<Rightarrow> string" where
  "error_text ErrClientNotSubscribed = ''client not subscribed''"
| "error_text ErrClientNotConnected = ''client not connected''"
| "error_text ErrClientAlreadyConnected = ''client already connected''"
| "error_text ErrUnauthorised = ''unauthorised''"
| "error_text (Errorf s) = s"
| "error_text (Extern s) = s"
| "error_text (Panic s) = s"

lemma isl_map_sum [simp]: "isl (map_sum f g x) = isl x"
  by (cases x) simp_all


section \<open>Lists\<close>

text \<open>Cutting a list into consecutive pieces of length \<open>k\<close>; the last piece may be shorter.\<close>

function chunks :: "nat \<Rightarrow> 'a list \<Rightarrow> 'a list list" where
  "chunks k xs = (if k = 0 \<or> xs = [] then [] else take k xs # chunks k (drop k xs))"
  by pat_completeness auto
termination
  by (relation "measure (\<lambda>(k, xs). length xs)") auto

declare chunks.simps [simp del]

lemma chunks_Nil [simp]: "chunks k [] = []"
  by (simp add: chunks.simps)

lemma chunks_append:
  "0 < k \<Longrightarrow> length xs = k \<Longrightarrow> chunks k (xs @ ys) = xs # chunks k ys"
  by (subst chunks.simps) auto

lemma concat_chunks [simp]: "0 < k \<Longrightarrow> concat (chunks k xs) = xs"
proof (induction k xs rule: chunks.induct)
  case (1 k xs)
  then show ?case by (cases "xs = []") (simp_all add: chunks.simps [of k xs])
qed

lemma chunks_concat:
  "0 < k \<Longrightarrow> \<forall>x \<in> set xss. length x = k \<Longrightarrow> chunks k (concat xss) = xss"
  by (induction xss) (simp_all add: chunks_append)

lemma chunks_append_dvd:
  "0 < k \<Longrightarrow> k dvd length xs \<Longrightarrow> chunks k (xs @ ys) = chunks k xs @ chunks k ys"
proof (induction k xs rule: chunks.induct)
  case (1 k xs)
  show ?case
  proof (cases "xs = []")
    case True
    then show ?thesis by simp
  next
    case False
    with "1.prems" have le: "k \<le> length xs" by (auto dest: dvd_imp_le)
    with False 1 have "chunks k (drop k xs @ ys) = chunks k (drop k xs) @ chunks k ys" by simp
    with False le "1.prems" show ?thesis
      by (simp add: chunks.simps [of k xs] chunks.simps [of k "xs @ ys"])
  qed
qed

lemma chunks_all_length:
  "0 < k \<Longrightarrow> k dvd length xs \<Longrightarrow> x \<in> set (chunks k xs) \<Longrightarrow> length x = k"
proof (induction k xs rule: chunks.induct)
  case (1 k xs)
  show ?case
  proof (cases "xs = []")
    case True
    with "1.prems" show ?thesis by simp
  next
    case False
    with "1.prems" have "k \<le> length xs" by (auto dest: dvd_imp_le)
    with False 1 show ?thesis
      by (auto simp: chunks.simps [of k xs])
  qed
qed

lemma length_chunks:
  "0 < k \<Longrightarrow> length xs = k * n \<Longrightarrow> length (chunks k xs) = n"
proof (induction n arbitrary: xs)
  case 0
  then show ?case by simp
next
  case (Suc n)
  then have "xs \<noteq> []" by auto
  with Suc show ?case by (simp add: chunks.simps [of k xs])
qed

lemma chunks_nth:
  "0 < k \<Longrightarrow> j * k < length xs \<Longrightarrow>
   j < length (chunks k xs) \<and> chunks k xs ! j = take k (drop (j * k) xs)"
proof (induction j arbitrary: xs)
  case 0
  then show ?case by (cases "xs = []") (simp_all add: chunks.simps [of k xs])
next
  case (Suc j)
  then have ne: "xs \<noteq> []" and len: "j * k < length (drop k xs)" by auto
  from Suc.IH [OF Suc.prems(1) len] ne Suc.prems(1) show ?case
    by (simp add: chunks.simps [of k xs] add.commute)
qed

lemma concat_map_length:
  "(\<And>x. x \<in> set xs \<Longrightarrow> length (f x) = k) \<Longrightarrow> length (concat (map f xs)) = k * length xs"
  by (induction xs) simp_all

lemma filter_id_conv_all: "(\<And>x. x \<in> set xs \<Longrightarrow> P x) \<Longrightarrow> filter P xs = xs"
  by (simp add: filter_id_conv)

lemma map_id_on: "(\<And>x. x \<in> set xs \<Longrightarrow> f x = x) \<Longrightarrow> map f xs = xs"
  by (simp add: map_idI)


section \<open>Maps as lists of entries\<close>

text \<open>A Go map kept as the list of its entries in some order, each key once.\<close>

definition map_put :: "'k \<Rightarrow> 'v \<Rightarrow> ('k \<times> 'v) list \<Rightarrow> ('k \<times> 'v) list" where
  "map_put k v m = (k, v) # filter (\<lambda>e. fst e \<noteq> k) m"

lemma map_of_map_put [simp]: "map_of (map_put k v m) = (map_of m)(k \<mapsto> v)"
proof
  fix j show "map_of (map_put k v m) j = ((map_of m)(k \<mapsto> v)) j"
    by (induction m) (auto simp: map_put_def)
qed

lemma distinct_map_put [intro]: "distinct (map fst m) \<Longrightarrow> distinct (map fst (map_put k v m))"
  by (auto simp: map_put_def distinct_map inj_on_def)


section \<open>State machines\<close>

text \<open>
  The interface between a transition relation and the safety properties of its component: an
  initial predicate, a labelled step and an invariant that holds at the start and is kept by every
  step. What the clients get is that the invariant holds in every state a sequence of labelled
  steps reaches.
\<close>

inductive run :: "('s \<Rightarrow> 'e \<Rightarrow> 's \<Rightarrow> bool) \<Rightarrow> 's \<Rightarrow> 'e list \<Rightarrow> 's \<Rightarrow> bool"
  for step :: "'s \<Rightarrow> 'e \<Rightarrow> 's \<Rightarrow> bool" where
  run_Nil: "run step s [] s"
| run_Cons: "step s e t \<Longrightarrow> run step t es u \<Longrightarrow> run step s (e # es) u"

inductive_simps run_Nil_iff [simp]: "run step s [] t"
inductive_simps run_Cons_iff: "run step s (e # es) u"

lemma run_append: "run step s es t \<Longrightarrow> run step t fs u \<Longrightarrow> run step s (es @ fs) u"
  by (induction rule: run.induct) (auto intro: run.intros)

lemma run_one: "step s e t \<Longrightarrow> run step s [e] t"
  by (simp add: run_Cons_iff)

lemma run_append_iff: "run step s (es @ fs) u \<longleftrightarrow> (\<exists>t. run step s es t \<and> run step t fs u)"
  by (induction es arbitrary: s) (auto simp: run_Cons_iff)

locale invariant_machine =
  fixes initial :: "'s \<Rightarrow> bool"
    and step :: "'s \<Rightarrow> 'e \<Rightarrow> 's \<Rightarrow> bool"
    and inv :: "'s \<Rightarrow> bool"
  assumes inv_initial: "initial s \<Longrightarrow> inv s"
    and inv_step: "inv s \<Longrightarrow> step s e t \<Longrightarrow> inv t"
begin

lemma inv_run: "run step s es t \<Longrightarrow> inv s \<Longrightarrow> inv t"
  by (induction rule: run.induct) (auto intro: inv_step)

lemma inv_reachable: "initial s \<Longrightarrow> run step s es t \<Longrightarrow> inv t"
  by (blast intro: inv_run inv_initial)

end

text \<open>
  An invariant that speaks of what has happened so far: the set of the events grows with every step,
  and clients get the invariant for the events of the whole run.
\<close>

locale history_machine =
  fixes initial :: "'s \<Rightarrow> bool"
    and step :: "'s \<Rightarrow> 'e \<Rightarrow> 's \<Rightarrow> bool"
    and inv :: "'e set \<Rightarrow> 's \<Rightarrow> bool"
  assumes history_initial: "initial s \<Longrightarrow> inv {} s"
    and history_step: "inv E s \<Longrightarrow> step s e t \<Longrightarrow> inv (insert e E) t"
begin

lemma history_run: "run step s es t \<Longrightarrow> inv E s \<Longrightarrow> inv (set es \<union> E) t"
proof (induction arbitrary: E rule: run.induct)
  case (run_Cons s e t es u)
  from run_Cons.IH [OF history_step [OF run_Cons.prems run_Cons.hyps(1)]] show ?case by simp
qed simp

lemma history_reachable: "initial s \<Longrightarrow> run step s es t \<Longrightarrow> inv (set es) t"
  using history_run [of s es t "{}"] history_initial by simp

end

text \<open>
  A machine that implements a simpler one: in a state of the invariant every step is matched, under an
  abstraction function, by a run of the abstract machine. Clients get that whole runs are matched.
\<close>

locale simulation = invariant_machine initial step inv
  for initial :: "'s \<Rightarrow> bool" and step :: "'s \<Rightarrow> 'e \<Rightarrow> 's \<Rightarrow> bool" and inv :: "'s \<Rightarrow> bool" +
  fixes abs_step :: "'a \<Rightarrow> 'f \<Rightarrow> 'a \<Rightarrow> bool"
    and abs :: "'s \<Rightarrow> 'a"
  assumes step_matched: "inv s \<Longrightarrow> step s e t \<Longrightarrow> \<exists>fs. run abs_step (abs s) fs (abs t)"
begin

lemma run_matched: "run step s es t \<Longrightarrow> inv s \<Longrightarrow> \<exists>fs. run abs_step (abs s) fs (abs t)"
proof (induction rule: run.induct)
  case (run_Nil s)
  then show ?case by (blast intro: run.run_Nil)
next
  case (run_Cons s e t es u)
  then obtain fs gs where "run abs_step (abs s) fs (abs t)" "run abs_step (abs t) gs (abs u)"
    using step_matched inv_step by blast
  then show ?case by (blast intro: run_append)
qed

lemma refines: "initial s \<Longrightarrow> run step s es t \<Longrightarrow> \<exists>fs. run abs_step (abs s) fs (abs t)"
  by (blast intro: run_matched inv_initial)

end

end
