(* ===== verification/GoStd.thy ===== *)
theory GoStd
  imports Prelude
begin

text \<open>
  The part of Go's standard library the program uses, on byte strings: \<open>strings\<close>, \<open>strconv.Atoi\<close>,
  \<open>strconv.Quote\<close>, \<open>net.SplitHostPort\<close>, \<open>path.Clean\<close> and \<open>path.Join\<close>, and the header map of
  \<open>net/http\<close>. A Go string is a \<open>string\<close>, one \<open>char\<close> per byte.
\<close>

section \<open>The package strings\<close>

fun has_prefix :: "string \<Rightarrow> string \<Rightarrow> bool" where
  "has_prefix s [] = True"
| "has_prefix [] (c # cs) = False"
| "has_prefix (d # s) (c # cs) = (d = c \<and> has_prefix s cs)"

definition has_suffix :: "string \<Rightarrow> string \<Rightarrow> bool" where
  "has_suffix s t = has_prefix (rev s) (rev t)"

fun contains :: "string \<Rightarrow> string \<Rightarrow> bool" where
  "contains [] t = (t = [])"
| "contains (c # s) t = (has_prefix (c # s) t \<or> contains s t)"

text \<open>\<open>strings.IndexByte\<close>: the first position of a byte, \<open>None\<close> for Go's \<open>-1\<close>.\<close>

fun index_byte :: "string \<Rightarrow> char \<Rightarrow> nat option" where
  "index_byte [] c = None"
| "index_byte (d # s) c = (if d = c then Some 0 else map_option Suc (index_byte s c))"

definition last_index :: "string \<Rightarrow> char \<Rightarrow> nat option" where
  "last_index s c = map_option (\<lambda>k. length s - Suc k) (index_byte (rev s) c)"

text \<open>\<open>strings.SplitN(s, sep, 2)\<close>: cut at the first occurrence of the separator.\<close>

fun cut :: "string \<Rightarrow> string \<Rightarrow> (string \<times> string) option" where
  "cut [] sep = (if sep = [] then Some ([], []) else None)"
| "cut (c # s) sep =
     (if has_prefix (c # s) sep then Some ([], drop (length sep) (c # s))
      else map_option (\<lambda>(a, b). (c # a, b)) (cut s sep))"

definition splitn2 :: "string \<Rightarrow> string \<Rightarrow> string list" where
  "splitn2 s sep = (case cut s sep of None \<Rightarrow> [s] | Some (a, b) \<Rightarrow> [a, b])"

text \<open>\<open>strings.Split\<close> with a separator of one byte.\<close>

fun split_byte :: "char \<Rightarrow> string \<Rightarrow> string list" where
  "split_byte sep [] = [[]]"
| "split_byte sep (c # s) =
     (if c = sep then [] # split_byte sep s
      else case split_byte sep s of [] \<Rightarrow> [[c]] | w # ws \<Rightarrow> (c # w) # ws)"

fun join :: "string \<Rightarrow> string list \<Rightarrow> string" where
  "join sep [] = []"
| "join sep [w] = w"
| "join sep (w # v # ws) = w @ sep @ join sep (v # ws)"

definition trim_byte :: "char \<Rightarrow> string \<Rightarrow> string" where
  "trim_byte c s = rev (dropWhile (\<lambda>d. d = c) (rev (dropWhile (\<lambda>d. d = c) s)))"

text \<open>
  \<open>strings.Replace(s, old, new, -1)\<close> with an \<open>old\<close> of one byte.
\<close>

definition replace_byte :: "char \<Rightarrow> string \<Rightarrow> string \<Rightarrow> string" where
  "replace_byte old new s = concat (map (\<lambda>c. if c = old then new else [c]) s)"

definition char_code :: "char \<Rightarrow> nat" where
  "char_code c = of_char c"

definition upper_byte :: "char \<Rightarrow> char" where
  "upper_byte c = (if 97 \<le> char_code c \<and> char_code c \<le> 122 then char_of (char_code c - 32) else c)"

definition lower_byte :: "char \<Rightarrow> char" where
  "lower_byte c = (if 65 \<le> char_code c \<and> char_code c \<le> 90 then char_of (char_code c + 32) else c)"

text \<open>
  \<open>strings.ToUpper\<close>. On ASCII it maps the bytes \<open>a\<close> to \<open>z\<close>. Go maps Unicode code points; the only
  two non-ASCII code points with an ASCII upper case are the dotless i (bytes \<open>C4 B1\<close>, upper case
  \<open>I\<close>) and the long s (bytes \<open>C5 BF\<close>, upper case \<open>S\<close>), and both are here. Every other non-ASCII
  code point stays non-ASCII, which is all its caller can see; its bytes are left as they are.
\<close>

fun to_upper :: "string \<Rightarrow> string" where
  "to_upper [] = []"
| "to_upper [c] = [upper_byte c]"
| "to_upper (c # d # s) =
     (if c = CHR 0xC4 \<and> d = CHR 0xB1 then CHR ''I'' # to_upper s
      else if c = CHR 0xC5 \<and> d = CHR 0xBF then CHR ''S'' # to_upper s
      else upper_byte c # to_upper (d # s))"

lemma has_prefix_append [simp]: "has_prefix (s @ t) s"
  by (induction s) auto

lemma has_prefix_iff: "has_prefix s t \<longleftrightarrow> take (length t) s = t"
  by (induction s t rule: has_prefix.induct) auto

lemma contains_prefix: "has_prefix s t \<Longrightarrow> contains s t"
  by (cases s; cases t) auto

lemma contains_append: "contains (a @ t @ b) t"
  by (induction a) (simp_all add: contains_prefix)

lemma index_byte_None: "index_byte s c = None \<longleftrightarrow> c \<notin> set s"
  by (induction s) auto

lemma index_byte_Some_iff:
  "index_byte s c = Some i \<longleftrightarrow> i < length s \<and> s ! i = c \<and> (\<forall>j<i. s ! j \<noteq> c)"
proof (induction s arbitrary: i)
  case Nil
  then show ?case by simp
next
  case (Cons d s)
  show ?case
  proof (cases i)
    case 0
    then show ?thesis by auto
  next
    case (Suc k)
    then show ?thesis using Cons [of k] by (auto simp: less_Suc_eq_0_disj all_conj_distrib)
  qed
qed

lemma index_byte_SomeD: "index_byte s c = Some i \<Longrightarrow> i < length s \<and> s ! i = c"
  by (simp add: index_byte_Some_iff)

lemma index_byte_append_fresh:
  "c \<notin> set s \<Longrightarrow> index_byte (s @ c # t) c = Some (length s)"
  by (induction s) auto

lemma index_byte_nth:
  "distinct s \<Longrightarrow> i < length s \<Longrightarrow> index_byte s (s ! i) = Some i"
  by (auto simp: index_byte_Some_iff nth_eq_iff_index_eq)

lemma last_index_None: "last_index s c = None \<longleftrightarrow> c \<notin> set s"
  by (simp add: last_index_def index_byte_None)

lemma last_index_append_fresh:
  "c \<notin> set t \<Longrightarrow> last_index (s @ c # t) c = Some (length s)"
  by (simp add: last_index_def index_byte_append_fresh)

lemma cut_byte_fresh: "c \<notin> set a \<Longrightarrow> cut (a @ c # b) [c] = Some (a, b)"
  by (induction a) auto

lemma cut_byte_None: "cut s [c] = None \<longleftrightarrow> c \<notin> set s"
  by (induction s) auto

lemma cut_byte_Some: "cut s [c] = Some (a, b) \<Longrightarrow> s = a @ c # b \<and> c \<notin> set a"
  by (induction s arbitrary: a b) (auto split: if_splits)

lemma split_byte_not_Nil [simp]: "split_byte c s \<noteq> []"
  by (induction s) (auto split: list.splits)

lemma join_split_byte: "join [c] (split_byte c s) = s"
proof (induction s)
  case Nil
  then show ?case by simp
next
  case (Cons d s)
  then show ?case
    by (cases "split_byte c s"; cases "tl (split_byte c s)") auto
qed

lemma split_byte_fresh: "w \<in> set (split_byte c s) \<Longrightarrow> c \<notin> set w"
  by (induction s arbitrary: w) (auto split: if_splits list.splits)

lemma split_byte_append: "split_byte c (s @ c # t) = split_byte c s @ split_byte c t"
proof (induction s)
  case Nil
  then show ?case by simp
next
  case (Cons d s)
  then show ?case by (cases "split_byte c s") auto
qed

lemma split_byte_one: "c \<notin> set s \<Longrightarrow> split_byte c s = [s]"
  by (induction s) auto

lemma split_byte_join:
  "ws \<noteq> [] \<Longrightarrow> \<forall>w \<in> set ws. c \<notin> set w \<Longrightarrow> split_byte c (join [c] ws) = ws"
proof (induction "[c]" ws rule: join.induct)
  case 1
  then show ?case by simp
next
  case (2 w)
  then show ?case by (simp add: split_byte_one)
next
  case (3 w v ws)
  then have "split_byte c (join [c] (v # ws)) = v # ws" by simp
  moreover have "c \<notin> set w" using "3.prems" by simp
  ultimately show ?case using split_byte_append [of c w "join [c] (v # ws)"] by (simp add: split_byte_one)
qed

lemma trim_byte_id: "c \<notin> set s \<Longrightarrow> trim_byte c s = s"
proof -
  assume "c \<notin> set s"
  then have "c \<notin> set (rev s)" by simp
  have drop: "dropWhile (\<lambda>d. d = c) t = t" if "c \<notin> set t" for t :: string
    using that by (cases t) auto
  show ?thesis
    using \<open>c \<notin> set s\<close> \<open>c \<notin> set (rev s)\<close> by (simp add: trim_byte_def drop)
qed

lemma trim_byte_append_replicate:
  assumes "c \<notin> set s"
  shows "trim_byte c (s @ replicate n c) = s"
proof (cases "s = []")
  case True
  then show ?thesis by (simp add: trim_byte_def dropWhile_eq_Nil_conv)
next
  case False
  with assms have "hd s \<noteq> c" and "last s \<noteq> c" by auto
  with False have "dropWhile (\<lambda>d. d = c) (s @ replicate n c) = s @ replicate n c"
    by (cases s) auto
  moreover have "dropWhile (\<lambda>d. d = c) (replicate n c @ rev s) = rev s"
    using \<open>last s \<noteq> c\<close> False by (induction n) (auto simp: dropWhile_eq_self_iff hd_rev)
  ultimately show ?thesis by (simp add: trim_byte_def)
qed

lemma replace_byte_id: "c \<notin> set s \<Longrightarrow> replace_byte c new s = s"
  by (induction s) (auto simp: replace_byte_def)

lemma replace_byte_delete: "replace_byte c [] s = filter (\<lambda>d. d \<noteq> c) s"
  by (induction s) (auto simp: replace_byte_def)

lemma replace_byte_single:
  "replace_byte c [d] s = map (\<lambda>x. if x = c then d else x) s"
  by (induction s) (auto simp: replace_byte_def)


section \<open>The package unicode/utf8\<close>

text \<open>
  \<open>utf8.ValidString\<close>: how many bytes the UTF-8 sequence at the beginning takes, 0 where there is none,
  and whether a string consists of such sequences.
\<close>

definition byte_in :: "nat \<Rightarrow> nat \<Rightarrow> char \<Rightarrow> bool" where
  "byte_in lo hi c \<longleftrightarrow> lo \<le> char_code c \<and> char_code c \<le> hi"

definition rune_bytes :: "string \<Rightarrow> nat" where
  "rune_bytes s = (case s of
       [] \<Rightarrow> 0
     | a # s' \<Rightarrow>
         if byte_in 0 0x7F a then 1
         else if byte_in 0xC2 0xDF a then (case s' of b # _ \<Rightarrow> if byte_in 0x80 0xBF b then 2 else 0 | _ \<Rightarrow> 0)
         else if byte_in 0xE0 0xEF a then
           (case s' of
              b # c # _ \<Rightarrow>
                if byte_in (if char_code a = 0xE0 then 0xA0 else 0x80) (if char_code a = 0xED then 0x9F else 0xBF) b \<and>
                   byte_in 0x80 0xBF c
                then 3 else 0
            | _ \<Rightarrow> 0)
         else if byte_in 0xF0 0xF4 a then
           (case s' of
              b # c # d # _ \<Rightarrow>
                if byte_in (if char_code a = 0xF0 then 0x90 else 0x80) (if char_code a = 0xF4 then 0x8F else 0xBF) b \<and>
                   byte_in 0x80 0xBF c \<and> byte_in 0x80 0xBF d
                then 4 else 0
            | _ \<Rightarrow> 0)
         else 0)"

fun valid_utf8 :: "string \<Rightarrow> bool" where
  "valid_utf8 [] = True"
| "valid_utf8 (a # s) = (case rune_bytes (a # s) of 0 \<Rightarrow> False | Suc n \<Rightarrow> valid_utf8 (drop n s))"

lemma valid_utf8_ascii: "list_all (\<lambda>c. char_code c < 128) s \<Longrightarrow> valid_utf8 s"
  by (induction s) (simp_all add: rune_bytes_def byte_in_def)


section \<open>The package strconv\<close>

definition is_digit :: "char \<Rightarrow> bool" where
  "is_digit c = (48 \<le> char_code c \<and> char_code c \<le> 57)"

definition decimal :: "string \<Rightarrow> int" where
  "decimal ds = foldl (\<lambda>n c. 10 * n + (int (char_code c) - 48)) 0 ds"

text \<open>\<open>strconv.Quote\<close>, which is also the verb \<open>%q\<close>; bytes from 128 on are left as they are.\<close>

definition hex_digit :: "nat \<Rightarrow> char" where
  "hex_digit n = ''0123456789abcdef'' ! n"

definition quote_byte :: "char \<Rightarrow> string" where
  "quote_byte c =
     (let n = char_code c in
      if n = 34 \<or> n = 92 then [CHR 0x5C, c]
      else if 7 \<le> n \<and> n \<le> 13 then [CHR 0x5C, ''abtnvfr'' ! (n - 7)]
      else if n < 32 \<or> n = 127 then [CHR 0x5C, CHR ''x'', hex_digit (n div 16), hex_digit (n mod 16)]
      else [c])"

definition go_quote :: "string \<Rightarrow> string" where
  "go_quote s = CHR 0x22 # concat (map quote_byte s) @ [CHR 0x22]"

text \<open>\<open>strconv.QuoteRune\<close> of a byte taken as a code point, which is the verb \<open>%q\<close> on a byte.\<close>

definition quote_rune :: "char \<Rightarrow> string" where
  "quote_rune c =
     (let n = char_code c in
      [CHR 0x27] @
      (if n = 39 then [CHR 0x5C, c]
       else if n = 34 then [c]
       else if n < 128 then quote_byte c
       else if n < 161 \<or> n = 173
       then CHR 0x5C # ''u00'' @ [hex_digit (n div 16), hex_digit (n mod 16)]
       else [char_of (192 + n div 64), char_of (128 + n mod 64)]) @
      [CHR 0x27])"

text \<open>\<open>strconv.Atoi\<close> for the 64-bit \<open>int\<close>: an optional sign, at least one digit, in range.\<close>

definition split_sign :: "string \<Rightarrow> bool \<times> string" where
  "split_sign s =
     (case s of
        [] \<Rightarrow> (False, [])
      | c # cs \<Rightarrow> if c = CHR ''-'' then (True, cs) else if c = CHR ''+'' then (False, cs) else (False, s))"

definition atoi :: "string \<Rightarrow> go_error + int" where
  "atoi s =
     (let (neg, ds) = split_sign s;
          n = (if neg then - decimal ds else decimal ds)
      in if ds = [] \<or> \<not> list_all is_digit ds
         then Inl (Errorf (''strconv.Atoi: parsing '' @ go_quote s @ '': invalid syntax''))
         else if n < - (2 ^ 63) \<or> 2 ^ 63 \<le> n
         then Inl (Errorf (''strconv.Atoi: parsing '' @ go_quote s @ '': value out of range''))
         else Inr n)"


section \<open>Host and port\<close>

text \<open>
  \<open>net.SplitHostPort\<close>, branch by branch. \<open>shp_tail\<close> is its end, after the host is known: no
  bracket may remain from positions \<open>j\<close> and \<open>k\<close> on.
\<close>

definition addr_error :: "string \<Rightarrow> string \<Rightarrow> go_error" where
  "addr_error addr why = Errorf (if addr = [] then why else ''address '' @ addr @ '': '' @ why)"

definition shp_tail :: "string \<Rightarrow> nat \<Rightarrow> string \<Rightarrow> nat \<Rightarrow> nat \<Rightarrow> go_error + (string \<times> string)" where
  "shp_tail hp i host j k =
     (if CHR ''['' \<in> set (drop j hp) then Inl (addr_error hp ''unexpected '[' in address'')
      else if CHR '']'' \<in> set (drop k hp) then Inl (addr_error hp ''unexpected ']' in address'')
      else Inr (host, drop (Suc i) hp))"

definition split_host_port :: "string \<Rightarrow> go_error + (string \<times> string)" where
  "split_host_port hp =
     (case last_index hp CHR '':'' of
        None \<Rightarrow> Inl (addr_error hp ''missing port in address'')
      | Some i \<Rightarrow>
          if hp ! 0 = CHR ''['' then
            (case index_byte hp CHR '']'' of
               None \<Rightarrow> Inl (addr_error hp ''missing ']' in address'')
             | Some e \<Rightarrow>
                 if e + 1 = length hp then Inl (addr_error hp ''missing port in address'')
                 else if e + 1 = i then shp_tail hp i (take (e - 1) (drop 1 hp)) 1 (e + 1)
                 else if hp ! (e + 1) = CHR '':'' then Inl (addr_error hp ''too many colons in address'')
                 else Inl (addr_error hp ''missing port in address''))
          else if CHR '':'' \<in> set (take i hp) then Inl (addr_error hp ''too many colons in address'')
          else shp_tail hp i (take i hp) 0 0)"

text \<open>What a caller that drops the error sees: empty strings.\<close>

definition host_part :: "string \<Rightarrow> string" where
  "host_part hp = (case split_host_port hp of Inl _ \<Rightarrow> [] | Inr (h, p) \<Rightarrow> h)"

definition port_part :: "string \<Rightarrow> string" where
  "port_part hp = (case split_host_port hp of Inl _ \<Rightarrow> [] | Inr (h, p) \<Rightarrow> p)"

text \<open>A host as DNS and IPv4 write it: no colon and no bracket.\<close>

definition plain :: "string \<Rightarrow> bool" where
  "plain s \<longleftrightarrow> CHR '':'' \<notin> set s \<and> CHR ''['' \<notin> set s \<and> CHR '']'' \<notin> set s"

lemma plainD [dest]:
  "plain s \<Longrightarrow> CHR '':'' \<notin> set s" "plain s \<Longrightarrow> CHR ''['' \<notin> set s" "plain s \<Longrightarrow> CHR '']'' \<notin> set s"
  by (simp_all add: plain_def)

lemma split_host_port_no_colon:
  "CHR '':'' \<notin> set hp \<Longrightarrow> split_host_port hp = Inl (addr_error hp ''missing port in address'')"
  by (simp add: split_host_port_def last_index_None [THEN iffD2])

lemma split_host_port_plain:
  assumes "plain host" and "plain port"
  shows "split_host_port (host @ CHR '':'' # port) = Inr (host, port)"
proof -
  have "last_index (host @ CHR '':'' # port) CHR '':'' = Some (length host)"
    using assms by (intro last_index_append_fresh) auto
  moreover have "(host @ CHR '':'' # port) ! 0 \<noteq> CHR ''[''"
    using assms by (cases host) (auto simp: plain_def)
  ultimately show ?thesis
    using assms by (auto simp: split_host_port_def shp_tail_def)
qed

lemma split_host_port_bracket:
  assumes "CHR ''['' \<notin> set host" and "CHR '']'' \<notin> set host" and "plain port"
  shows "split_host_port (CHR ''['' # host @ CHR '']'' # CHR '':'' # port) = Inr (host, port)"
proof -
  let ?hp = "CHR ''['' # host @ CHR '']'' # CHR '':'' # port"
  have "?hp = (CHR ''['' # host @ [CHR '']'']) @ CHR '':'' # port" by simp
  then have "last_index ?hp CHR '':'' = Some (length host + 2)"
    using assms last_index_append_fresh [of "CHR '':''" port "CHR ''['' # host @ [CHR '']'']"] by auto
  moreover have "index_byte ?hp CHR '']'' = Some (Suc (length host))"
    using assms index_byte_append_fresh [of "CHR '']''" "CHR ''['' # host" "CHR '':'' # port"] by auto
  ultimately show ?thesis
    using assms by (auto simp: split_host_port_def shp_tail_def)
qed


section \<open>The package path\<close>

text \<open>
  \<open>path.Clean\<close> by its documented rules on the elements between slashes: empty elements and \<open>.\<close>
  disappear, \<open>..\<close> removes the element before it, and a \<open>..\<close> at the start of a rooted path
  disappears. The stack holds the elements kept so far, the last one first.
\<close>

definition clean_step :: "bool \<Rightarrow> string list \<Rightarrow> string \<Rightarrow> string list" where
  "clean_step rooted st e =
     (if e = [] \<or> e = ''.'' then st
      else if e = ''..'' then
        (case st of
           [] \<Rightarrow> if rooted then [] else [e]
         | t # ts \<Rightarrow> if t = ''..'' then e # st else ts)
      else e # st)"

definition path_clean :: "string \<Rightarrow> string" where
  "path_clean p =
     (if p = [] then ''.''
      else
        let rooted = (hd p = CHR ''/'');
            body = join ''/'' (rev (foldl (clean_step rooted) [] (split_byte CHR ''/'' p)))
        in if rooted then CHR ''/'' # body else if body = [] then ''.'' else body)"

definition path_join :: "string \<Rightarrow> string \<Rightarrow> string" where
  "path_join a b =
     (let es = filter (\<lambda>e. e \<noteq> []) [a, b]
      in if es = [] then [] else path_clean (join ''/'' es))"


section \<open>HTTP headers\<close>

text \<open>
  \<open>http.Header\<close>: a map from keys to value lists. \<open>Get\<close>, \<open>Set\<close> and \<open>Del\<close> put the key into its
  canonical form first; the program also indexes the map directly with canonical keys.
\<close>

type_synonym header = "string \<rightharpoonup> string list"

definition header_byte :: "char \<Rightarrow> bool" where
  "header_byte c =
     (let n = char_code c in
      (48 \<le> n \<and> n \<le> 57) \<or> (65 \<le> n \<and> n \<le> 90) \<or> (97 \<le> n \<and> n \<le> 122) \<or>
      n \<in> set [33, 35, 36, 37, 38, 39, 42, 43, 45, 46, 94, 95, 96, 124, 126])"

fun canonical_from :: "bool \<Rightarrow> string \<Rightarrow> string" where
  "canonical_from up [] = []"
| "canonical_from up (c # s) =
     (if up then upper_byte c else lower_byte c) # canonical_from (c = CHR ''-'') s"

definition canonical_key :: "string \<Rightarrow> string" where
  "canonical_key s = (if list_all header_byte s then canonical_from True s else s)"

definition header_get :: "header \<Rightarrow> string \<Rightarrow> string" where
  "header_get h k = (case h (canonical_key k) of None \<Rightarrow> [] | Some vs \<Rightarrow> (case vs of [] \<Rightarrow> [] | v # _ \<Rightarrow> v))"

definition header_set :: "header \<Rightarrow> string \<Rightarrow> string \<Rightarrow> header" where
  "header_set h k v = h(canonical_key k \<mapsto> [v])"

definition header_del :: "header \<Rightarrow> string \<Rightarrow> header" where
  "header_del h k = h(canonical_key k := None)"

text \<open>The keys the program uses are canonical already.\<close>

lemma canonical_keys [simp]:
  "canonical_key ''X-Error'' = ''X-Error''"
  "canonical_key ''X-Action'' = ''X-Action''"
  "canonical_key ''X-Forwarded-Host'' = ''X-Forwarded-Host''"
  "canonical_key ''X-Forwarded-Proto'' = ''X-Forwarded-Proto''"
  "canonical_key ''X-Forwarded-For'' = ''X-Forwarded-For''"
  "canonical_key ''Authorization'' = ''Authorization''"
  "canonical_key ''User-Agent'' = ''User-Agent''"
  "canonical_key ''WWW-Authenticate'' = ''Www-Authenticate''"
  by code_simp+

lemma header_get_set [simp]:
  "header_get (header_set h k v) k' = (if canonical_key k = canonical_key k' then v else header_get h k')"
  by (simp add: header_get_def header_set_def)

lemma header_get_del [simp]:
  "header_get (header_del h k) k' = (if canonical_key k = canonical_key k' then [] else header_get h k')"
  by (simp add: header_get_def header_del_def)

end
