(* ===== verification/Base_Codec.thy ===== *)
theory Base_Codec
  imports GoStd
begin

text \<open>
  The packages \<open>encoding/base32\<close> and \<open>encoding/base64\<close> with their standard alphabets, as bit
  strings: a byte is its eight bits, the most significant first, and a digit of the encoding is a
  group of \<open>k\<close> bits (five or six), read as an index into the alphabet.
\<close>

section \<open>Bits\<close>

text \<open>The \<open>k\<close> lowest bits of a number, the most significant first, and back.\<close>

fun bits_of :: "nat \<Rightarrow> nat \<Rightarrow> bool list" where
  "bits_of 0 n = []"
| "bits_of (Suc k) n = bits_of k (n div 2) @ [odd n]"

definition of_bits :: "bool list \<Rightarrow> nat" where
  "of_bits bs = foldl (\<lambda>n b. 2 * n + of_bool b) 0 bs"

lemma length_bits_of [simp]: "length (bits_of k n) = k"
  by (induction k arbitrary: n) auto

lemma of_bits_snoc [simp]: "of_bits (bs @ [b]) = 2 * of_bits bs + of_bool b"
  by (simp add: of_bits_def)

lemma of_bits_Nil [simp]: "of_bits [] = 0"
  by (simp add: of_bits_def)

lemma of_bits_bits_of: "n < 2 ^ k \<Longrightarrow> of_bits (bits_of k n) = n"
  by (induction k arbitrary: n) (auto simp: of_bool_def elim: oddE)

lemma bits_of_of_bits: "bits_of (length bs) (of_bits bs) = bs"
  by (induction bs rule: rev_induct) (auto simp: of_bool_def)

lemma of_bits_less: "of_bits bs < 2 ^ length bs"
  by (induction bs rule: rev_induct) (auto simp: of_bool_def)

definition byte_bits :: "byte list \<Rightarrow> bool list" where
  "byte_bits bs = concat (map (\<lambda>b. bits_of 8 (unat b)) bs)"

definition bits_bytes :: "bool list \<Rightarrow> byte list" where
  "bits_bytes xs = map (\<lambda>c. of_nat (of_bits c)) (chunks 8 xs)"

lemma length_byte_bits [simp]: "length (byte_bits bs) = 8 * length bs"
  by (simp add: byte_bits_def concat_map_length)

lemma bits_bytes_byte_bits [simp]: "bits_bytes (byte_bits bs) = bs"
proof -
  have "chunks 8 (byte_bits bs) = map (\<lambda>b. bits_of 8 (unat b)) bs"
    unfolding byte_bits_def by (rule chunks_concat) auto
  moreover have "of_bits (bits_of 8 (unat b)) = unat b" for b :: byte
  proof (rule of_bits_bits_of)
    have "unat b < 2 ^ LENGTH(8)" by (rule unsigned_less)
    then show "unat b < 2 ^ 8" by simp
  qed
  ultimately show ?thesis by (simp add: bits_bytes_def comp_def)
qed


section \<open>Encoding without padding\<close>

text \<open>
  The digits of a byte string: its bits, filled up with zeros to a multiple of \<open>k\<close>, in groups of
  \<open>k\<close>. Decoding puts the groups together again and drops the bits that do not fill a byte.
\<close>

definition pad_bits :: "nat \<Rightarrow> bool list \<Rightarrow> bool list" where
  "pad_bits k xs = xs @ replicate ((k - length xs mod k) mod k) False"

definition digits_of :: "nat \<Rightarrow> byte list \<Rightarrow> nat list" where
  "digits_of k bs = map of_bits (chunks k (pad_bits k (byte_bits bs)))"

definition digits_bytes :: "nat \<Rightarrow> nat list \<Rightarrow> byte list" where
  "digits_bytes k ds =
     (let xs = concat (map (bits_of k) ds) in bits_bytes (take (8 * (length xs div 8)) xs))"

lemma dvd_length_pad_bits:
  assumes "0 < k"
  shows "k dvd length (pad_bits k xs)"
proof (cases "length xs mod k = 0")
  case True
  then show ?thesis by (simp add: pad_bits_def mod_eq_0_iff_dvd)
next
  case False
  have "length xs mod k < k" using assms by simp
  with False have "length (pad_bits k xs) = (length xs - length xs mod k) + k"
    by (simp add: pad_bits_def)
  then show ?thesis by (simp add: minus_mod_eq_mult_div)
qed

lemma digits_of_less:
  assumes "0 < k" and "d \<in> set (digits_of k bs)"
  shows "d < 2 ^ k"
proof -
  obtain c where c: "c \<in> set (chunks k (pad_bits k (byte_bits bs)))" "d = of_bits c"
    using assms by (auto simp: digits_of_def)
  then have "length c = k"
    using assms dvd_length_pad_bits by (blast intro: chunks_all_length)
  with c of_bits_less [of c] show ?thesis by simp
qed

lemma concat_bits_digits_of:
  assumes "0 < k"
  shows "concat (map (bits_of k) (digits_of k bs)) = pad_bits k (byte_bits bs)"
proof -
  let ?xs = "pad_bits k (byte_bits bs)"
  have "map (bits_of k) (digits_of k bs) = chunks k ?xs"
    unfolding digits_of_def map_map
  proof (rule map_id_on)
    fix c assume "c \<in> set (chunks k ?xs)"
    then have "length c = k"
      using assms dvd_length_pad_bits by (blast intro: chunks_all_length)
    then show "(bits_of k \<circ> of_bits) c = c"
      using bits_of_of_bits [of c] by simp
  qed
  then show ?thesis using assms by simp
qed

theorem digits_bytes_digits_of:
  assumes "0 < k" and "k \<le> 8"
  shows "digits_bytes k (digits_of k bs) = bs"
proof -
  let ?p = "(k - length (byte_bits bs) mod k) mod k"
  have "?p < k" using assms(1) by simp
  with assms(2) have "8 * ((8 * length bs + ?p) div 8) = 8 * length bs" by simp
  then show ?thesis
    using concat_bits_digits_of [OF assms(1), of bs]
    by (simp add: digits_bytes_def pad_bits_def Let_def)
qed

lemma length_digits_of:
  assumes "0 < k" and "length (pad_bits k (byte_bits bs)) = k * n"
  shows "length (digits_of k bs) = n"
  using assms by (simp add: digits_of_def length_chunks)


section \<open>base32\<close>

definition base32_alphabet :: string where
  "base32_alphabet = ''ABCDEFGHIJKLMNOPQRSTUVWXYZ234567''"

text \<open>\<open>StdEncoding.EncodeToString\<close>: the digits, then \<open>=\<close> up to a multiple of eight.\<close>

definition base32_encode :: "byte list \<Rightarrow> string" where
  "base32_encode bs =
     (let s = map ((!) base32_alphabet) (digits_of 5 bs)
      in s @ replicate ((8 - length s mod 8) mod 8) CHR ''='')"

text \<open>
  \<open>StdEncoding.DecodeString\<close>. \<open>b32_quantum\<close> reads up to eight digits from position \<open>j\<close> of a
  quantum on: it returns the digits, whether the padding ended the input, and what is left.
\<close>

definition base32_corrupt :: go_error where
  "base32_corrupt = Extern ''illegal base32 data''"

fun b32_quantum :: "nat \<Rightarrow> string \<Rightarrow> go_error + (nat list \<times> bool \<times> string)" where
  "b32_quantum j [] = (if 8 \<le> j then Inr ([], False, []) else Inl base32_corrupt)"
| "b32_quantum j (c # src) =
     (if 8 \<le> j then Inr ([], False, c # src)
      else if c = CHR ''='' \<and> 2 \<le> j \<and> length src < 8 then
        (if length src + j < 7 then Inl base32_corrupt
         else if \<not> list_all (\<lambda>d. d = CHR ''='') (take (7 - j) src) then Inl base32_corrupt
         else if j \<in> {1, 3, 6} then Inl base32_corrupt
         else Inr ([], True, src))
      else
        (case index_byte base32_alphabet c of
           None \<Rightarrow> Inl base32_corrupt
         | Some d \<Rightarrow> map_sum (\<lambda>x. x) (\<lambda>(ds, e, r). (d # ds, e, r)) (b32_quantum (Suc j) src)))"

lemma b32_quantum_rest_le:
  "b32_quantum j src = Inr (ds, e, r) \<Longrightarrow> length r \<le> length src"
  by (induction j src arbitrary: ds rule: b32_quantum.induct)
     (fastforce simp: map_sum_def split: if_splits option.splits sum.splits)+

lemma b32_quantum_rest_less:
  "b32_quantum j src = Inr (ds, e, r) \<Longrightarrow> j < 8 \<Longrightarrow> length r < length src"
  by (cases src)
     (auto simp: map_sum_def less_Suc_eq_le dest: b32_quantum_rest_le
       split: if_splits option.splits sum.splits)

function b32_digits :: "string \<Rightarrow> go_error + nat list list" where
  "b32_digits src =
     (if src = [] then Inr []
      else case b32_quantum 0 src of
        Inl e \<Rightarrow> Inl e
      | Inr (ds, end, rest) \<Rightarrow>
          if end then Inr [ds]
          else (case b32_digits rest of Inl e \<Rightarrow> Inl e | Inr dss \<Rightarrow> Inr (ds # dss)))"
  by pat_completeness auto
termination
  by (relation "measure length") (auto dest: b32_quantum_rest_less)

declare b32_digits.simps [simp del]

definition base32_decode :: "string \<Rightarrow> go_error + byte list" where
  "base32_decode s =
     map_sum (\<lambda>e. e) (\<lambda>dss. concat (map (digits_bytes 5) dss))
       (b32_digits (filter (\<lambda>c. c \<noteq> CHR 0x0A \<and> c \<noteq> CHR 0x0D) s))"


text \<open>Decoding what \<open>base32_encode\<close> made.\<close>

lemma length_base32_alphabet [simp]: "length base32_alphabet = 32"
  by (simp add: base32_alphabet_def)

lemma distinct_base32_alphabet: "distinct base32_alphabet"
  by (simp add: base32_alphabet_def)

lemma index_base32 [simp]: "d < 32 \<Longrightarrow> index_byte base32_alphabet (base32_alphabet ! d) = Some d"
  using distinct_base32_alphabet by (rule index_byte_nth) simp

lemma base32_alphabet_excludes:
  "c \<in> set base32_alphabet \<Longrightarrow> c \<notin> {CHR ''='', CHR ''-'', CHR '' '', CHR ''0'', CHR ''1'', CHR ''8'', CHR 0x0A, CHR 0x0D}"
  by (auto simp: base32_alphabet_def)

lemma base32_alphabet_nth_in [simp]: "d < 32 \<Longrightarrow> base32_alphabet ! d \<in> set base32_alphabet"
  by simp

lemma base32_nth_neq [simp]:
  "d < 32 \<Longrightarrow> base32_alphabet ! d \<noteq> CHR ''=''"
  "d < 32 \<Longrightarrow> base32_alphabet ! d \<noteq> CHR 0x0A"
  "d < 32 \<Longrightarrow> base32_alphabet ! d \<noteq> CHR 0x0D"
  using base32_alphabet_excludes [OF base32_alphabet_nth_in] by auto

lemma b32_quantum_digits:
  "\<forall>d \<in> set ds. d < 32 \<Longrightarrow> j + length ds = 8 \<Longrightarrow>
   b32_quantum j (map ((!) base32_alphabet) ds @ rest) = Inr (ds, False, rest)"
proof (induction ds arbitrary: j)
  case Nil
  then show ?case by (cases rest) auto
next
  case (Cons d ds)
  then show ?case by simp
qed

lemma b32_quantum_padded:
  "\<forall>d \<in> set ds. d < 32 \<Longrightarrow> j + length ds \<in> {2, 4, 5, 7} \<Longrightarrow>
   b32_quantum j (map ((!) base32_alphabet) ds @ replicate (8 - (j + length ds)) CHR ''='')
     = Inr (ds, True, replicate (7 - (j + length ds)) CHR ''='')"
proof (induction ds arbitrary: j)
  case Nil
  then have "8 - j = Suc (7 - j)" by auto
  then have "replicate (8 - j) CHR ''='' = CHR ''='' # replicate (7 - j) CHR ''=''"
    by (simp only: replicate_Suc)
  with Nil show ?case by (auto simp: list_all_iff)
next
  case (Cons d ds)
  then have "b32_quantum (Suc j) (map ((!) base32_alphabet) ds @ replicate (8 - (Suc j + length ds)) CHR ''='')
      = Inr (ds, True, replicate (7 - (Suc j + length ds)) CHR ''='')"
    by (intro Cons.IH) auto
  moreover have "j < 8" using Cons.prems by auto
  ultimately show ?case using Cons.prems by simp
qed

lemma b32_digits_encoded:
  assumes "\<forall>d \<in> set ds. d < 32" and "length ds mod 8 \<in> {0, 2, 4, 5, 7}"
  shows "b32_digits (map ((!) base32_alphabet) ds @ replicate ((8 - length ds mod 8) mod 8) CHR ''='')
    = Inr (chunks 8 ds)"
  using assms
proof (induction "length ds" arbitrary: ds rule: less_induct)
  case less
  let ?pad = "replicate ((8 - length ds mod 8) mod 8) CHR ''=''"
  consider "ds = []" | "0 < length ds" "length ds < 8" | "8 \<le> length ds" by fastforce
  then show ?case
  proof cases
    case 1
    then show ?thesis by (simp add: b32_digits.simps)
  next
    case 2
    with less.prems b32_quantum_padded [of ds 0] show ?thesis
      by (auto simp: b32_digits.simps chunks.simps [of 8 ds] chunks.simps [of 8 "[]"])
  next
    case 3
    define as bs where "as = take 8 ds" and "bs = drop 8 ds"
    have ds: "ds = as @ bs" and len: "length as = 8" "length bs < length ds" "length bs mod 8 = length ds mod 8"
      using 3 by (simp_all add: as_def bs_def le_mod_geq)
    have lt: "\<forall>d \<in> set as. d < 32" "\<forall>d \<in> set bs. d < 32"
      using less.prems(1) by (auto simp: as_def bs_def dest: in_set_takeD in_set_dropD)
    have "b32_quantum 0 (map ((!) base32_alphabet) as @ (map ((!) base32_alphabet) bs @ ?pad))
        = Inr (as, False, map ((!) base32_alphabet) bs @ ?pad)"
      using lt(1) len(1) by (intro b32_quantum_digits) simp_all
    moreover have "b32_digits (map ((!) base32_alphabet) bs @ ?pad) = Inr (chunks 8 bs)"
      using less.hyps [OF len(2) lt(2)] less.prems(2) by (simp only: len(3))
    moreover have "chunks 8 ds = as # chunks 8 bs"
      using len(1) by (simp add: ds chunks_append)
    moreover have "map ((!) base32_alphabet) as @ (map ((!) base32_alphabet) bs @ ?pad) \<noteq> []"
      using len(1) by auto
    ultimately have "b32_digits (map ((!) base32_alphabet) as @ (map ((!) base32_alphabet) bs @ ?pad))
        = Inr (chunks 8 ds)"
      by (subst b32_digits.simps) (simp only: if_False sum.case prod.case)
    then show ?thesis by (simp only: ds map_append append_assoc)
  qed
qed

lemma bits_bytes_append:
  "8 dvd length xs \<Longrightarrow> bits_bytes (xs @ ys) = bits_bytes xs @ bits_bytes ys"
  by (simp add: bits_bytes_def chunks_append_dvd)

lemma digits_bytes_append:
  assumes "length as = 8"
  shows "digits_bytes 5 (as @ bs) = digits_bytes 5 as @ digits_bytes 5 bs"
proof -
  let ?bits = "\<lambda>ds. concat (map (bits_of 5) ds)"
  have len: "length (?bits ds) = 5 * length ds" for ds
    by (simp add: concat_map_length)
  have "8 * ((40 + m) div 8) = 40 + 8 * (m div 8)" for m :: nat by presburger
  then show ?thesis
    using assms by (simp add: digits_bytes_def Let_def len bits_bytes_append)
qed

lemma digits_bytes_chunks: "concat (map (digits_bytes 5) (chunks 8 ds)) = digits_bytes 5 ds"
proof (induction "length ds" arbitrary: ds rule: less_induct)
  case less
  show ?case
  proof (cases "length ds < 8")
    case True
    then show ?thesis
      by (cases "ds = []")
         (simp_all add: chunks.simps [of 8 ds] digits_bytes_def bits_bytes_def)
  next
    case False
    then have "digits_bytes 5 ds = digits_bytes 5 (take 8 ds) @ digits_bytes 5 (drop 8 ds)"
      using digits_bytes_append [of "take 8 ds" "drop 8 ds"] by simp
    moreover have "chunks 8 ds = take 8 ds # chunks 8 (drop 8 ds)"
      using False by (subst chunks.simps) auto
    ultimately show ?thesis
      using less [of "drop 8 ds"] False by simp
  qed
qed

lemma length_digits_of_5:
  "length (digits_of 5 bs) = (8 * length bs + 4) div 5"
proof -
  have fill: "m + (5 - m mod 5) mod 5 = 5 * ((m + 4) div 5)" for m :: nat
  proof -
    have "m = 5 * (m div 5) + m mod 5" and "m mod 5 < 5" by simp_all
    then obtain q r where m: "m = 5 * q + r" and "r < 5" by blast
    then have "r \<in> {0, 1, 2, 3, 4}" by auto
    then show ?thesis by (auto simp: m)
  qed
  have "length (pad_bits 5 (byte_bits bs)) = 5 * ((8 * length bs + 4) div 5)"
    by (simp only: pad_bits_def length_append length_replicate length_byte_bits fill)
  then show ?thesis by (rule length_digits_of [rotated]) (rule zero_less_numeral)
qed

lemma length_digits_of_5_mod: "length (digits_of 5 bs) mod 8 \<in> {0, 2, 4, 5, 7}"
proof -
  define q r where "q = length bs div 5" and "r = length bs mod 5"
  have "length bs = 5 * q + r" and "r < 5" by (simp_all add: q_def r_def)
  then have "length (digits_of 5 bs) = 8 * q + (8 * r + 4) div 5"
    by (simp add: length_digits_of_5)
  moreover have "r \<in> {0, 1, 2, 3, 4}" using \<open>r < 5\<close> by auto
  ultimately show ?thesis by auto
qed

theorem base32_decode_encode: "base32_decode (base32_encode bs) = Inr bs"
proof -
  let ?ds = "digits_of 5 bs"
  have lt: "\<forall>d \<in> set ?ds. d < 32"
    using digits_of_less [of 5 _ bs] by auto
  have "b32_digits (base32_encode bs) = Inr (chunks 8 ?ds)"
    using b32_digits_encoded [OF lt length_digits_of_5_mod]
    by (simp only: base32_encode_def Let_def length_map)
  moreover have "filter (\<lambda>c. c \<noteq> CHR 0x0A \<and> c \<noteq> CHR 0x0D) (base32_encode bs) = base32_encode bs"
    using lt by (intro filter_id_conv_all) (auto simp: base32_encode_def Let_def)
  ultimately show ?thesis
    by (simp add: base32_decode_def digits_bytes_chunks digits_bytes_digits_of)
qed



section \<open>base64\<close>

definition base64_alphabet :: string where
  "base64_alphabet = ''ABCDEFGHIJKLMNOPQRSTUVWXYZabcdefghijklmnopqrstuvwxyz0123456789+/''"

definition base64_encode :: "byte list \<Rightarrow> string" where
  "base64_encode bs =
     (let s = map ((!) base64_alphabet) (digits_of 6 bs)
      in s @ replicate ((4 - length s mod 4) mod 4) CHR ''='')"

text \<open>
  \<open>StdEncoding.DecodeString\<close>: groups of four digits; the last group may end in one or two padding
  characters, after which nothing may follow.
\<close>

definition base64_corrupt :: go_error where
  "base64_corrupt = Extern ''illegal base64 data''"

fun b64_group :: "string \<Rightarrow> go_error + nat list" where
  "b64_group [] = Inr []"
| "b64_group (c # s) =
     (case index_byte base64_alphabet c of
        None \<Rightarrow> Inl base64_corrupt
      | Some d \<Rightarrow> map_sum (\<lambda>e. e) (\<lambda>ds. d # ds) (b64_group s))"

fun b64_digits :: "string \<Rightarrow> go_error + nat list list" where
  "b64_digits [] = Inr []"
| "b64_digits (a # b # c # d # rest) =
     (if rest = [] \<and> d = CHR ''='' then
        map_sum (\<lambda>e. e) (\<lambda>ds. [ds]) (b64_group (if c = CHR ''='' then [a, b] else [a, b, c]))
      else
        (case b64_group [a, b, c, d] of
           Inl e \<Rightarrow> Inl e
         | Inr ds \<Rightarrow> map_sum (\<lambda>e. e) (\<lambda>dss. ds # dss) (b64_digits rest)))"
| "b64_digits s = Inl base64_corrupt"

definition base64_decode :: "string \<Rightarrow> go_error + byte list" where
  "base64_decode s =
     map_sum (\<lambda>e. e) (\<lambda>dss. concat (map (digits_bytes 6) dss))
       (b64_digits (filter (\<lambda>c. c \<noteq> CHR 0x0A \<and> c \<noteq> CHR 0x0D) s))"

lemma length_base64_alphabet [simp]: "length base64_alphabet = 64"
  by (simp add: base64_alphabet_def)

lemma index_base64 [simp]: "d < 64 \<Longrightarrow> index_byte base64_alphabet (base64_alphabet ! d) = Some d"
  by (rule index_byte_nth) (simp_all add: base64_alphabet_def)

lemma base64_nth_neq [simp]:
  assumes "d < 64"
  shows "base64_alphabet ! d \<noteq> CHR ''=''" "base64_alphabet ! d \<noteq> CHR 0x0A" "base64_alphabet ! d \<noteq> CHR 0x0D"
proof -
  have "base64_alphabet ! d \<in> set base64_alphabet" using assms by (intro nth_mem) simp
  moreover have "CHR ''='' \<notin> set base64_alphabet \<and> CHR 0x0A \<notin> set base64_alphabet \<and> CHR 0x0D \<notin> set base64_alphabet"
    by (simp add: base64_alphabet_def)
  ultimately show "base64_alphabet ! d \<noteq> CHR ''=''" "base64_alphabet ! d \<noteq> CHR 0x0A"
      "base64_alphabet ! d \<noteq> CHR 0x0D"
    by metis+
qed

lemma b64_group_digits: "\<forall>d \<in> set ds. d < 64 \<Longrightarrow> b64_group (map ((!) base64_alphabet) ds) = Inr ds"
  by (induction ds) simp_all

lemma digits_bytes_6_append:
  assumes "length as = 4"
  shows "digits_bytes 6 (as @ bs) = digits_bytes 6 as @ digits_bytes 6 bs"
proof -
  let ?bits = "\<lambda>ds. concat (map (bits_of 6) ds)"
  have len: "length (?bits ds) = 6 * length ds" for ds
    by (simp add: concat_map_length)
  have "8 * ((24 + m) div 8) = 24 + 8 * (m div 8)" for m :: nat by presburger
  then show ?thesis
    using assms by (simp add: digits_bytes_def Let_def len bits_bytes_append)
qed

lemma quad_cases:
  "ds = [] \<or> (\<exists>a. ds = [a]) \<or> (\<exists>a b. ds = [a, b]) \<or> (\<exists>a b c. ds = [a, b, c])
    \<or> (\<exists>a b c d es. ds = a # b # c # d # es)"
  by (metis list.exhaust)

lemma b64_digits_encoded:
  assumes "\<forall>d \<in> set ds. d < 64" and "length ds mod 4 \<noteq> 1"
  shows "\<exists>dss. b64_digits (map ((!) base64_alphabet) ds @ replicate ((4 - length ds mod 4) mod 4) CHR ''='')
    = Inr dss \<and> concat (map (digits_bytes 6) dss) = digits_bytes 6 ds"
  using assms
proof (induction "length ds" arbitrary: ds rule: less_induct)
  case less
  consider "ds = []" | a b where "ds = [a, b]" | a b c where "ds = [a, b, c]"
    | a b c d es where "ds = a # b # c # d # es"
    using less.prems(2) quad_cases [of ds] by auto
  then show ?case
  proof cases
    case 1
    then show ?thesis by (simp add: digits_bytes_def bits_bytes_def)
  next
    case (2 a b)
    then show ?thesis
      using less.prems(1) b64_group_digits [of "[a, b]"] by (simp add: numeral_2_eq_2)
  next
    case (3 a b c)
    then show ?thesis
      using less.prems(1) b64_group_digits [of "[a, b, c]"] by simp
  next
    case (4 a b c d es)
    let ?tl = "map ((!) base64_alphabet) es @ replicate ((4 - length es mod 4) mod 4) CHR ''=''"
    have "length es mod 4 = length ds mod 4" by (simp add: 4)
    moreover have "length es < length ds" and "\<forall>d \<in> set es. d < 64"
      using less.prems(1) by (simp_all add: 4)
    ultimately obtain dss where dss: "b64_digits ?tl = Inr dss"
        "concat (map (digits_bytes 6) dss) = digits_bytes 6 es"
      using less.hyps [of es] less.prems(2) by auto
    have "b64_group (map ((!) base64_alphabet) [a, b, c, d]) = Inr [a, b, c, d]"
      using less.prems(1) 4 by (intro b64_group_digits) simp
    then have "b64_digits (map ((!) base64_alphabet) [a, b, c, d] @ ?tl) = Inr ([a, b, c, d] # dss)"
      using dss(1) less.prems(1) 4 by simp
    moreover have "digits_bytes 6 ds = digits_bytes 6 [a, b, c, d] @ digits_bytes 6 es"
      using digits_bytes_6_append [of "[a, b, c, d]" es] by (simp add: 4)
    moreover have "map ((!) base64_alphabet) ds @ replicate ((4 - length ds mod 4) mod 4) CHR ''=''
        = map ((!) base64_alphabet) [a, b, c, d] @ ?tl"
      by (simp add: 4)
    ultimately show ?thesis
      using dss(2) by (intro exI [of _ "[a, b, c, d] # dss"]) (simp only: list.map concat.simps)
  qed
qed

lemma length_digits_of_6_mod: "length (digits_of 6 bs) mod 4 \<noteq> 1"
proof -
  define q r where "q = length bs div 3" and "r = length bs mod 3"
  have bs: "length bs = 3 * q + r" and "r < 3" by (simp_all add: q_def r_def)
  have "length (pad_bits 6 (byte_bits bs)) = 6 * (4 * q + (8 * r + 5) div 6)"
  proof -
    have "r \<in> {0, 1, 2}" using \<open>r < 3\<close> by auto
    moreover have "(24 * q + 8) mod 6 = 2" "(24 * q + 16) mod 6 = 4"
      using mod_mult_self2 [of 8 6 "4 * q"] mod_mult_self2 [of 16 6 "4 * q"]
      by (simp_all add: add.commute)
    ultimately show ?thesis
      by (auto simp: pad_bits_def bs)
  qed
  then have "length (digits_of 6 bs) = 4 * q + (8 * r + 5) div 6"
    by (rule length_digits_of [rotated]) simp
  moreover have "r \<in> {0, 1, 2}" using \<open>r < 3\<close> by auto
  ultimately show ?thesis by auto
qed

theorem base64_decode_encode: "base64_decode (base64_encode bs) = Inr bs"
proof -
  let ?ds = "digits_of 6 bs"
  have lt: "\<forall>d \<in> set ?ds. d < 64"
    using digits_of_less [of 6 _ bs] by auto
  then obtain dss where "b64_digits (base64_encode bs) = Inr dss"
      "concat (map (digits_bytes 6) dss) = digits_bytes 6 ?ds"
    using b64_digits_encoded [OF lt length_digits_of_6_mod]
    unfolding base64_encode_def Let_def length_map by blast
  moreover have "filter (\<lambda>c. c \<noteq> CHR 0x0A \<and> c \<noteq> CHR 0x0D) (base64_encode bs) = base64_encode bs"
    using lt by (intro filter_id_conv_all) (auto simp: base64_encode_def Let_def)
  ultimately show ?thesis
    by (simp add: base64_decode_def digits_bytes_digits_of)
qed

end
