(* ===== verification/Luhn.thy ===== *)
theory Luhn
  imports Base_Codec
begin

text \<open>
  The vendored package \<open>github.com/calmh/luhn\<close> (\<open>luhn.go\<close>): the mod-N check digit of a string over
  an alphabet, and the interface \<open>check_digit\<close> it gives the identifiers: a total function on the
  alphabet whose result changes when any one character of its argument changes.
\<close>

section \<open>Generate\<close>

text \<open>
  The loop of \<open>Generate\<close>: the factor alternates between 1 and 2, and the two base-N digits of each
  product are added up. Go ranges over runes and looks at the first byte of each; a byte that is
  not in the alphabet, which every first byte of a longer rune is, ends the loop in both readings.
\<close>

definition luhn_addend :: "nat \<Rightarrow> nat \<Rightarrow> nat \<Rightarrow> nat" where
  "luhn_addend n factor codepoint =
     (let addend = factor * codepoint in addend div n + addend mod n)"

fun luhn_loop :: "string \<Rightarrow> nat \<Rightarrow> nat \<Rightarrow> string \<Rightarrow> go_error + nat" where
  "luhn_loop a factor acc [] = Inr acc"
| "luhn_loop a factor acc (c # s) =
     (case index_byte a c of
        None \<Rightarrow> Inl (Errorf (''Digit '' @ quote_rune c @ '' not valid in alphabet '' @ go_quote a))
      | Some codepoint \<Rightarrow>
          luhn_loop a (if factor = 2 then 1 else 2)
            (acc + luhn_addend (length a) factor codepoint) s)"

definition luhn_generate :: "string \<Rightarrow> string \<Rightarrow> go_error + char" where
  "luhn_generate a s =
     (let factor = (if length s mod 2 = 1 then 2 else 1); n = length a
      in case luhn_loop a factor 0 s of
           Inl e \<Rightarrow> Inl e
         | Inr acc \<Rightarrow> Inr (a ! ((n - acc mod n) mod n)))"


section \<open>The interface\<close>

locale check_digit =
  fixes generate :: "string \<Rightarrow> go_error + char"
    and alphabet :: string
  assumes generate_total: "set s \<subseteq> set alphabet \<Longrightarrow> \<exists>c \<in> set alphabet. generate s = Inr c"
    and generate_domain: "generate s = Inr c \<Longrightarrow> set s \<subseteq> set alphabet"
    and generate_substitution:
      "generate (xs @ c # ys) = Inr l \<Longrightarrow> d \<noteq> c \<Longrightarrow> generate (xs @ d # ys) \<noteq> Inr l"
begin

lemma generate_iff: "(\<exists>c. generate s = Inr c) \<longleftrightarrow> set s \<subseteq> set alphabet"
  using generate_total generate_domain by blast

lemma generate_in_alphabet: "generate s = Inr c \<Longrightarrow> c \<in> set alphabet"
  using generate_total [OF generate_domain] by fastforce

lemma generate_list_update:
  assumes "generate s = Inr l" and "i < length s" and "d \<noteq> s ! i"
  shows "generate (s[i := d]) \<noteq> Inr l"
  using generate_substitution [of "take i s" "s ! i" "drop (Suc i) s" l d] assms
  by (simp add: id_take_nth_drop [symmetric] upd_conv_take_nth_drop)

end


section \<open>Base32 gives the interface\<close>

lemma luhn_loop_sum:
  "luhn_loop a f (m + k) s = map_sum (\<lambda>e. e) (\<lambda>r. m + r) (luhn_loop a f k s)"
  by (induction s arbitrary: f k) (simp_all add: add.assoc split: option.split)

lemma luhn_loop_total: "set s \<subseteq> set a \<Longrightarrow> \<exists>r. luhn_loop a f k s = Inr r"
proof (induction a f k s rule: luhn_loop.induct)
  case (2 a f k c s)
  then obtain p where "index_byte a c = Some p"
    using index_byte_None [of a c] by fastforce
  with 2 show ?case by auto
qed simp

lemma luhn_loop_domain: "luhn_loop a f k s = Inr r \<Longrightarrow> set s \<subseteq> set a"
  by (induction a f k s rule: luhn_loop.induct)
     (auto split: option.splits dest: index_byte_SomeD)

text \<open>For an alphabet of 32 characters both factors permute the 32 code points.\<close>

lemma luhn_addend_1: "p < 32 \<Longrightarrow> luhn_addend 32 1 p = p"
  by (simp add: luhn_addend_def)

lemma luhn_addend_2: "p < 32 \<Longrightarrow> luhn_addend 32 2 p = (if p < 16 then 2 * p else 2 * p - 31)"
proof -
  assume p: "p < 32"
  have "2 * p div 32 = (if p < 16 then 0 else 1)" using p by auto
  moreover have "2 * p mod 32 = (if p < 16 then 2 * p else 2 * p - 32)"
    using p by (simp add: mod_if)
  ultimately have "luhn_addend 32 2 p = (if p < 16 then 0 else 1) + (if p < 16 then 2 * p else 2 * p - 32)"
    by (simp only: luhn_addend_def Let_def)
  then show ?thesis by (cases "p < 16") simp_all
qed

lemma add_mod_32_neq:
  assumes "a < 32" and "b < 32" and "a \<noteq> (b::nat)"
  shows "(a + r) mod 32 \<noteq> (b + r) mod 32"
proof (cases "a < b")
  case True
  then have "\<not> 32 dvd (b + r) - (a + r)" using assms by (auto dest!: dvd_imp_le)
  with True show ?thesis using mod_eq_dvd_iff_nat [of "a + r" "b + r" 32] by auto
next
  case False
  then have "\<not> 32 dvd (a + r) - (b + r)" using assms by (auto dest!: dvd_imp_le)
  with False show ?thesis using mod_eq_dvd_iff_nat [of "b + r" "a + r" 32] by auto
qed

lemma luhn_addend_inj:
  assumes "f = 1 \<or> f = 2" and "p < 32" and "q < 32" and "p \<noteq> q"
  shows "(luhn_addend 32 f p + r) mod 32 \<noteq> (luhn_addend 32 f q + r) mod 32"
proof (rule add_mod_32_neq)
  have "luhn_addend 32 2 p < 32 \<and> luhn_addend 32 2 q < 32 \<and> luhn_addend 32 2 p \<noteq> luhn_addend 32 2 q"
    using assms(2-4) unfolding luhn_addend_2 [OF assms(2)] luhn_addend_2 [OF assms(3)] by presburger
  then show "luhn_addend 32 f p < 32" "luhn_addend 32 f q < 32"
      "luhn_addend 32 f p \<noteq> luhn_addend 32 f q"
    using assms luhn_addend_1 by auto
qed

lemma luhn_loop_substitution:
  assumes "luhn_loop base32_alphabet f k (xs @ c # ys) = Inr r"
    and "luhn_loop base32_alphabet f k (xs @ d # ys) = Inr r'"
    and "f = 1 \<or> f = 2" and "d \<noteq> c"
  shows "r mod 32 \<noteq> r' mod 32"
  using assms
proof (induction xs arbitrary: f k)
  case Nil
  from Nil.prems obtain p q where p: "index_byte base32_alphabet c = Some p"
    and q: "index_byte base32_alphabet d = Some q"
    by (auto split: option.splits)
  let ?f = "if f = 2 then 1 else 2"
  from Nil.prems p q obtain t where t: "luhn_loop base32_alphabet ?f k ys = Inr t"
    using luhn_loop_sum [of base32_alphabet ?f _ k ys]
    by (cases "luhn_loop base32_alphabet ?f k ys") (auto simp: add.commute [of k])
  have "r = luhn_addend 32 f p + t" "r' = luhn_addend 32 f q + t"
    using Nil.prems p q t luhn_loop_sum [of base32_alphabet ?f _ k ys]
    by (auto simp: add.commute [of k])
  moreover have "p < 32" "q < 32" "p \<noteq> q"
    using p q Nil.prems(4) by (auto dest!: index_byte_SomeD)
  ultimately show ?case using Nil.prems(3) luhn_addend_inj by blast
next
  case (Cons x xs)
  from Cons.prems obtain p where "index_byte base32_alphabet x = Some p"
    by (auto split: option.splits)
  with Cons.prems show ?case
    using Cons.IH [of "if f = 2 then 1 else 2" "k + luhn_addend 32 f p"] by auto
qed

interpretation luhn32: check_digit "luhn_generate base32_alphabet" base32_alphabet
proof unfold_locales
  fix s assume "set s \<subseteq> set base32_alphabet"
  then obtain r where "luhn_loop base32_alphabet (if length s mod 2 = 1 then 2 else 1) 0 s = Inr r"
    using luhn_loop_total by blast
  then show "\<exists>c \<in> set base32_alphabet. luhn_generate base32_alphabet s = Inr c"
    by (simp add: luhn_generate_def Let_def)
next
  fix s c assume "luhn_generate base32_alphabet s = Inr c"
  then show "set s \<subseteq> set base32_alphabet"
    by (auto simp: luhn_generate_def Let_def dest: luhn_loop_domain split: sum.splits)
next
  fix xs c ys l d
  assume l: "luhn_generate base32_alphabet (xs @ c # ys) = Inr l" and "d \<noteq> c"
  show "luhn_generate base32_alphabet (xs @ d # ys) \<noteq> Inr l"
  proof
    assume l': "luhn_generate base32_alphabet (xs @ d # ys) = Inr l"
    let ?f = "if length (xs @ c # ys) mod 2 = 1 then 2 else 1 :: nat"
    from l l' obtain r r' where r: "luhn_loop base32_alphabet ?f 0 (xs @ c # ys) = Inr r"
        "luhn_loop base32_alphabet ?f 0 (xs @ d # ys) = Inr r'"
      and eq: "base32_alphabet ! ((32 - r mod 32) mod 32) = base32_alphabet ! ((32 - r' mod 32) mod 32)"
      by (auto simp: luhn_generate_def Let_def split: sum.splits)
    from eq have "(32 - r mod 32) mod 32 = (32 - r' mod 32) mod 32"
      using nth_eq_iff_index_eq [OF distinct_base32_alphabet] by simp
    then have "r mod 32 = r' mod 32"
      by (cases "r mod 32 = 0"; cases "r' mod 32 = 0") (auto simp: mod_less)
    moreover have "?f = 1 \<or> ?f = 2" by simp
    ultimately show False using luhn_loop_substitution [OF r(1) r(2) _ \<open>d \<noteq> c\<close>] by blast
  qed
qed

end
