(* ===== verification/Ident.thy ===== *)
theory Ident
  imports Luhn
begin

text \<open>
  Client identifiers (\<open>id/id.go\<close> and \<open>id/ptls.go\<close>): 32 bytes, their text form with Luhn check
  characters and hyphens, the tolerant parser of that form, comparison and equality, and the
  identifier of a TLS peer. The text form is an instance of the interface \<open>id_text\<close>, on which the
  connection pool rests.
\<close>

section \<open>The type ID\<close>

typedef ident = "{bs :: byte list. length bs = 32}"
  morphisms bytes_of Abs_ident
  by (rule exI [of _ "replicate 32 0"]) simp

lemma length_bytes_of [simp]: "length (bytes_of i) = 32"
  using bytes_of [of i] by simp

lemma ident_eq_iff: "i = j \<longleftrightarrow> bytes_of i = bytes_of j"
  by (simp add: bytes_of_inject)

text \<open>\<open>var id ID\<close>, and \<open>copy(id[:], bs)\<close>: as many bytes as both sides have, the others stay.\<close>

definition zero_ident :: ident where
  "zero_ident = Abs_ident (replicate 32 0)"

definition copy_ident :: "ident \<Rightarrow> byte list \<Rightarrow> ident" where
  "copy_ident old bs = Abs_ident (take 32 bs @ drop (length bs) (bytes_of old))"

lemma bytes_of_zero [simp]: "bytes_of zero_ident = replicate 32 0"
  by (simp add: zero_ident_def Abs_ident_inverse)

lemma bytes_of_copy_ident: "bytes_of (copy_ident i bs) = take 32 bs @ drop (length bs) (bytes_of i)"
  by (simp add: copy_ident_def Abs_ident_inverse)

lemma bytes_of_copy: "length bs = 32 \<Longrightarrow> bytes_of (copy_ident i bs) = bs"
  by (simp add: bytes_of_copy_ident)

lemma copy_bytes_of [simp]: "copy_ident i (bytes_of j) = j"
  by (simp add: ident_eq_iff bytes_of_copy)

text \<open>Identifiers for examples: one byte, then zeros.\<close>

definition short_ident :: "byte \<Rightarrow> ident" where
  "short_ident b = copy_ident zero_ident [b]"

lemma short_ident_inject [simp]: "short_ident a = short_ident b \<longleftrightarrow> a = b"
  by (simp add: short_ident_def ident_eq_iff bytes_of_copy_ident)

text \<open>
  \<open>New\<close>: the SHA-256 digest of the data, summed into \<open>id[:0]\<close>. The hash function is a parameter.
\<close>

definition New :: "(byte list \<Rightarrow> byte list) \<Rightarrow> byte list \<Rightarrow> ident" where
  "New sha256 data = copy_ident zero_ident (sha256 data)"


section \<open>Compare and Equals\<close>

text \<open>\<open>bytes.Compare\<close>, and \<open>subtle.ConstantTimeCompare\<close>, which collects the differing bits.\<close>

fun bytes_compare :: "byte list \<Rightarrow> byte list \<Rightarrow> int" where
  "bytes_compare [] [] = 0"
| "bytes_compare [] (b # bs) = -1"
| "bytes_compare (a # as) [] = 1"
| "bytes_compare (a # as) (b # bs) =
     (if a < b then -1 else if b < a then 1 else bytes_compare as bs)"

definition Compare :: "ident \<Rightarrow> ident \<Rightarrow> int" where
  "Compare i other = bytes_compare (bytes_of i) (bytes_of other)"

definition constant_time_compare :: "byte list \<Rightarrow> byte list \<Rightarrow> nat" where
  "constant_time_compare xs ys =
     (if length xs \<noteq> length ys then 0
      else if foldl (\<lambda>v (x, y). or v (xor x y)) 0 (zip xs ys) = 0 then 1 else 0)"

definition Equals :: "ident \<Rightarrow> ident \<Rightarrow> bool" where
  "Equals i other = (constant_time_compare (bytes_of i) (bytes_of other) = 1)"

lemma or_eq_0_iff_word: "or v w = 0 \<longleftrightarrow> v = 0 \<and> w = (0 :: 'a::len word)"
  by (auto simp: bit_eq_iff bit_or_iff)

lemma xor_eq_0_iff_word: "xor v w = 0 \<longleftrightarrow> v = (w :: 'a::len word)"
  by (auto simp: bit_eq_iff bit_xor_iff)

lemma constant_time_fold:
  "length xs = length ys \<Longrightarrow>
   foldl (\<lambda>v (x, y). or v (xor x y)) v (zip xs ys) = 0 \<longleftrightarrow> v = 0 \<and> xs = (ys :: byte list)"
  by (induction xs ys arbitrary: v rule: list_induct2)
     (auto simp: or_eq_0_iff_word xor_eq_0_iff_word)

lemma Equals_iff: "Equals i other \<longleftrightarrow> i = other"
  by (simp add: Equals_def constant_time_compare_def constant_time_fold ident_eq_iff)

lemma bytes_compare_range: "bytes_compare xs ys \<in> {-1, 0, 1}"
  by (induction xs ys rule: bytes_compare.induct) auto

lemma bytes_compare_eq_0: "bytes_compare xs ys = 0 \<longleftrightarrow> xs = ys"
  by (induction xs ys rule: bytes_compare.induct) auto

lemma bytes_compare_swap: "bytes_compare ys xs = - bytes_compare xs ys"
  by (induction xs ys rule: bytes_compare.induct) auto

lemma bytes_compare_trans:
  "bytes_compare xs ys \<le> 0 \<Longrightarrow> bytes_compare ys zs \<le> 0 \<Longrightarrow> bytes_compare xs zs \<le> 0"
  by (induction xs ys arbitrary: zs rule: bytes_compare.induct)
     (case_tac zs; auto split: if_splits)+

text \<open>The order \<open>Compare\<close> decides makes the identifiers a linear order.\<close>

instantiation ident :: linorder
begin

definition less_eq_ident :: "ident \<Rightarrow> ident \<Rightarrow> bool" where
  "less_eq_ident i j \<longleftrightarrow> Compare i j \<le> 0"

definition less_ident :: "ident \<Rightarrow> ident \<Rightarrow> bool" where
  "less_ident i j \<longleftrightarrow> Compare i j < 0"

instance
proof
  fix i j k :: ident
  have swap: "Compare j i = - Compare i j"
    unfolding Compare_def by (rule bytes_compare_swap)
  then show "(i < j) = (i \<le> j \<and> \<not> j \<le> i)"
    unfolding less_eq_ident_def less_ident_def by linarith
  show "i \<le> i"
    by (simp add: less_eq_ident_def Compare_def bytes_compare_eq_0 [THEN iffD2])
  show "i \<le> k" if "i \<le> j" "j \<le> k"
    using that bytes_compare_trans by (auto simp: less_eq_ident_def Compare_def)
  show "i = j" if "i \<le> j" "j \<le> i"
  proof -
    have "Compare i j = 0"
      using that swap unfolding less_eq_ident_def by linarith
    then show ?thesis by (simp add: Compare_def ident_eq_iff bytes_compare_eq_0)
  qed
  show "i \<le> j \<or> j \<le> i"
    using swap unfolding less_eq_ident_def by linarith
qed

end



section \<open>The text form\<close>

text \<open>
  \<open>luhnify\<close> and \<open>unluhnify\<close> over any check digit generator: chunks of 13 characters, each followed
  by its check character. The program uses the generator of \<open>luhn.Base32\<close>.
\<close>

fun luhnify_chunks :: "(string \<Rightarrow> go_error + char) \<Rightarrow> string list \<Rightarrow> go_error + string" where
  "luhnify_chunks gen [] = Inr []"
| "luhnify_chunks gen (chunk # cs) =
     (case gen chunk of
        Inl e \<Rightarrow> Inl e
      | Inr l \<Rightarrow> (case luhnify_chunks gen cs of
          Inl e \<Rightarrow> Inl e
        | Inr res \<Rightarrow> Inr (chunk @ [l] @ res)))"

definition luhnify_with :: "(string \<Rightarrow> go_error + char) \<Rightarrow> string \<Rightarrow> go_error + string" where
  "luhnify_with gen s =
     (if length s \<noteq> 52 then Inl (Panic ''unsupported string length'')
      else luhnify_chunks gen (chunks 13 s))"

fun unluhnify_chunks :: "(string \<Rightarrow> go_error + char) \<Rightarrow> string list \<Rightarrow> go_error + string" where
  "unluhnify_chunks gen [] = Inr []"
| "unluhnify_chunks gen (chunk # cs) =
     (case gen (take 13 chunk) of
        Inl e \<Rightarrow> Inl e
      | Inr l \<Rightarrow>
          if [l] \<noteq> drop 13 chunk then Inl (Errorf ''check digit incorrect'')
          else (case unluhnify_chunks gen cs of
            Inl e \<Rightarrow> Inl e
          | Inr res \<Rightarrow> Inr (take 13 chunk @ res)))"

text \<open>\<open>%d\<close> of a length.\<close>

fun nat_digits :: "nat \<Rightarrow> string" where
  "nat_digits n =
     (if n < 10 then [char_of (48 + n)] else nat_digits (n div 10) @ [char_of (48 + n mod 10)])"

declare nat_digits.simps [simp del]

definition unluhnify_with :: "(string \<Rightarrow> go_error + char) \<Rightarrow> string \<Rightarrow> go_error + string" where
  "unluhnify_with gen s =
     (if length s \<noteq> 56
      then Inl (Errorf (''unsupported string length '' @ nat_digits (length s)))
      else unluhnify_chunks gen (chunks 14 s))"

abbreviation base32_check :: "string \<Rightarrow> go_error + char" where
  "base32_check \<equiv> luhn_generate base32_alphabet"

definition luhnify :: "string \<Rightarrow> go_error + string" where
  "luhnify = luhnify_with base32_check"

definition unluhnify :: "string \<Rightarrow> go_error + string" where
  "unluhnify = unluhnify_with base32_check"

text \<open>
  \<open>chunkify\<close>: the regular expression replaces each seven characters by themselves and a hyphen
  (the dot of the expression does not match a newline); hyphens at both ends go.
\<close>

function insert_hyphens :: "string \<Rightarrow> string" where
  "insert_hyphens s =
     (if s = [] then []
      else if 7 \<le> length s \<and> CHR 0x0A \<notin> set (take 7 s)
      then take 7 s @ CHR ''-'' # insert_hyphens (drop 7 s)
      else hd s # insert_hyphens (tl s))"
  by pat_completeness auto
termination
  by (relation "measure length") auto

declare insert_hyphens.simps [simp del]

definition chunkify :: "string \<Rightarrow> string" where
  "chunkify s = trim_byte CHR ''-'' (insert_hyphens s)"

definition unchunkify :: "string \<Rightarrow> string" where
  "unchunkify s = replace_byte CHR '' '' [] (replace_byte CHR ''-'' [] s)"

definition untypeoify :: "string \<Rightarrow> string" where
  "untypeoify s =
     replace_byte CHR ''8'' ''B'' (replace_byte CHR ''1'' ''I'' (replace_byte CHR ''0'' ''O'' s))"

text \<open>\<open>String\<close>, which panics when \<open>luhnify\<close> fails, and the text it gives otherwise.\<close>

definition String :: "ident \<Rightarrow> go_error + string" where
  "String i =
     (case luhnify (trim_byte CHR ''='' (base32_encode (bytes_of i))) of
        Inl err \<Rightarrow> Inl (Panic (error_text err))
      | Inr ss \<Rightarrow> Inr (chunkify ss))"

definition ident_text :: "ident \<Rightarrow> string" where
  "ident_text i = (case String i of Inl err \<Rightarrow> [] | Inr ss \<Rightarrow> ss)"

definition MarshalText :: "ident \<Rightarrow> go_error + string" where
  "MarshalText i = String i"

text \<open>\<open>UnmarshalText\<close> on the receiver \<open>i\<close>; on an error the receiver is left as it was.\<close>

definition canonical :: "string \<Rightarrow> string" where
  "canonical bs = unchunkify (untypeoify (to_upper (trim_byte CHR ''='' bs)))"

definition UnmarshalText :: "ident \<Rightarrow> string \<Rightarrow> go_error + ident" where
  "UnmarshalText i bs =
     (let id1 = canonical bs in
      if length id1 \<noteq> 56 then Inl (Errorf ''device ID invalid: incorrect length'')
      else case unluhnify id1 of
        Inl err \<Rightarrow> Inl err
      | Inr id2 \<Rightarrow>
          (case base32_decode (id2 @ ''===='') of
             Inl err \<Rightarrow> Inl err
           | Inr dec \<Rightarrow> Inr (copy_ident i dec)))"


section \<open>The identifier of a TLS peer\<close>

text \<open>
  \<open>PeerID\<close>: the outcome of the handshake and the raw certificates of the peer come from
  \<open>crypto/tls\<close> and are arguments.
\<close>

definition emptyID :: ident where
  "emptyID = zero_ident"

definition improper_certs_error :: "nat \<Rightarrow> go_error" where
  "improper_certs_error n = Errorf (''ptls: expecting 1 peer certificate, got '' @ nat_digits n)"

definition PeerID :: "(byte list \<Rightarrow> byte list) \<Rightarrow> go_error option \<Rightarrow> byte list list \<Rightarrow> go_error + ident" where
  "PeerID sha256 handshake certs =
     (case handshake of
        Some err \<Rightarrow> Inl err
      | None \<Rightarrow>
          if length certs \<noteq> 1 then Inl (improper_certs_error (length certs))
          else Inr (New sha256 (certs ! 0)))"



section \<open>Check characters: round trip and error detection\<close>

text \<open>
  What follows from the interface of the generator alone: adding check characters never fails on
  the alphabet, removing them undoes it, an accepted string is the one that \<open>luhnify\<close> makes of its
  data, and no string that differs from an accepted one in exactly one place is accepted.
\<close>

lemma chunks_13:
  "length s = 52 \<Longrightarrow> length (chunks 13 s) = 4 \<and> (\<forall>c \<in> set (chunks 13 s). length c = 13)"
  using chunks_all_length [of 13 s] length_chunks [of 13 s 4] by auto

lemma chunks_14:
  "length s = 56 \<Longrightarrow> length (chunks 14 s) = 4 \<and> (\<forall>c \<in> set (chunks 14 s). length c = 14)"
  using chunks_all_length [of 14 s] length_chunks [of 14 s 4] by auto

lemma set_chunks_subset: "0 < k \<Longrightarrow> c \<in> set (chunks k s) \<Longrightarrow> set c \<subseteq> set s"
  using concat_chunks [of k s] by (metis UN_upper set_concat)

context check_digit
begin

definition block_ok :: "string \<Rightarrow> bool" where
  "block_ok b \<longleftrightarrow> length b = 14 \<and> generate (take 13 b) = Inr (b ! 13)"

lemma luhnify_chunks_total:
  "\<forall>c \<in> set cs. set c \<subseteq> set alphabet \<Longrightarrow>
   \<exists>t. luhnify_chunks generate cs = Inr t \<and> set t \<subseteq> set alphabet"
proof (induction cs)
  case (Cons c cs)
  then obtain t where "luhnify_chunks generate cs = Inr t" "set t \<subseteq> set alphabet" by auto
  moreover obtain l where "generate c = Inr l" "l \<in> set alphabet"
    using generate_total [of c] Cons.prems by auto
  ultimately show ?case using Cons.prems by auto
qed simp

lemma luhnify_chunks_blocks:
  assumes "\<forall>c \<in> set cs. length c = 13" and "luhnify_chunks generate cs = Inr t"
  shows "\<exists>bs. t = concat bs \<and> map (take 13) bs = cs \<and> list_all block_ok bs"
  using assms
proof (induction cs arbitrary: t)
  case (Cons c cs)
  then obtain l t' where l: "generate c = Inr l" "luhnify_chunks generate cs = Inr t'"
      and t: "t = c @ [l] @ t'"
    by (auto split: sum.splits)
  with Cons obtain bs where bs: "t' = concat bs" "map (take 13) bs = cs" "list_all block_ok bs" by auto
  have "length c = 13" using Cons.prems(1) by simp
  then have "(c @ [l]) ! 13 = l" "take 13 (c @ [l]) = c"
    by (simp_all add: nth_append)
  then have "block_ok (c @ [l])" "take 13 (c @ [l]) = c"
    using l(1) \<open>length c = 13\<close> by (simp_all only: block_ok_def length_append, simp)
  with t bs show ?case by (intro exI [of _ "(c @ [l]) # bs"]) simp
qed (simp add: exI [of _ "[]"])

lemma unluhnify_chunks_iff:
  assumes "\<forall>b \<in> set bs. length b = 14"
  shows "unluhnify_chunks generate bs = Inr s \<longleftrightarrow> list_all block_ok bs \<and> s = concat (map (take 13) bs)"
  using assms
proof (induction bs arbitrary: s)
  case (Cons b bs)
  have "drop 13 b = [b ! 13]"
    using Cons.prems Cons_nth_drop_Suc [of 13 b] by simp
  moreover have "\<forall>b \<in> set bs. length b = 14" using Cons.prems by simp
  note IH = Cons.IH [OF this]
  ultimately show ?case
    using Cons.prems IH [of "concat (map (take 13) bs)"] IH
    by (cases "unluhnify_chunks generate bs") (auto simp: block_ok_def split: sum.splits)
qed auto

lemma luhnify_chunks_of_blocks:
  "list_all block_ok bs \<Longrightarrow> luhnify_chunks generate (map (take 13) bs) = Inr (concat bs)"
proof (induction bs)
  case (Cons b bs)
  then have "b = take 13 b @ [b ! 13]"
    using append_take_drop_id [of 13 b] Cons_nth_drop_Suc [of 13 b] by (simp add: block_ok_def)
  with Cons show ?case by (simp add: block_ok_def)
qed simp

lemma blocks_length: "list_all block_ok bs \<Longrightarrow> \<forall>b \<in> set bs. length b = 14"
  by (auto simp: list_all_iff block_ok_def)

lemma unluhnify_iff_luhnify:
  "unluhnify_with generate t = Inr s \<longleftrightarrow> luhnify_with generate s = Inr t"
proof
  assume "unluhnify_with generate t = Inr s"
  then have len: "length t = 56" and "unluhnify_chunks generate (chunks 14 t) = Inr s"
    by (simp_all add: unluhnify_with_def split: if_splits)
  then have ok: "list_all block_ok (chunks 14 t)" and s: "s = concat (map (take 13) (chunks 14 t))"
    using chunks_14 [OF len] by (simp_all add: unluhnify_chunks_iff)
  have all13: "\<forall>c \<in> set (map (take 13) (chunks 14 t)). length c = 13"
    using chunks_14 [OF len] by simp
  then have "length s = 52"
    using chunks_14 [OF len] by (simp add: s concat_map_length [where k = 13])
  then show "luhnify_with generate s = Inr t"
    using luhnify_chunks_of_blocks [OF ok] chunks_concat [OF _ all13]
    by (simp add: luhnify_with_def s)
next
  assume "luhnify_with generate s = Inr t"
  then have len: "length s = 52" and "luhnify_chunks generate (chunks 13 s) = Inr t"
    by (simp_all add: luhnify_with_def split: if_splits)
  then obtain bs where t: "t = concat bs" and bs: "map (take 13) bs = chunks 13 s" "list_all block_ok bs"
    using luhnify_chunks_blocks chunks_13 [OF len] by blast
  have "length bs = 4"
    using arg_cong [OF bs(1), of length] chunks_13 [OF len] by simp
  moreover note blocks_length [OF bs(2)]
  ultimately have "length t = 56" "chunks 14 t = bs"
    using concat_map_length [of bs "\<lambda>b. b" 14] by (simp_all add: t chunks_concat)
  then show "unluhnify_with generate t = Inr s"
    using bs blocks_length [OF bs(2)] concat_chunks [of 13 s]
    by (simp add: unluhnify_with_def unluhnify_chunks_iff)
qed

lemma luhnify_total:
  assumes "length s = 52" and "set s \<subseteq> set alphabet"
  shows "\<exists>t. luhnify_with generate s = Inr t \<and> length t = 56 \<and> set t \<subseteq> set alphabet"
proof -
  have "\<forall>c \<in> set (chunks 13 s). set c \<subseteq> set alphabet"
    using assms(2) set_chunks_subset [of 13 _ s] by fastforce
  from luhnify_chunks_total [OF this]
  obtain t where t: "luhnify_with generate s = Inr t" "set t \<subseteq> set alphabet"
    using assms(1) by (auto simp: luhnify_with_def)
  then have "unluhnify_with generate t = Inr s" by (simp add: unluhnify_iff_luhnify)
  then have "length t = 56" by (simp add: unluhnify_with_def split: if_splits)
  with t show ?thesis by blast
qed

lemma block_substitution:
  assumes "block_ok b" and "i < 14" and "d \<noteq> b ! i"
  shows "\<not> block_ok (b[i := d])"
proof (cases "i < 13")
  case True
  then have "take 13 (b[i := d]) = (take 13 b)[i := d]" "take 13 b ! i = b ! i"
    by (simp_all add: take_update_swap)
  with True assms show ?thesis
    using generate_list_update [of "take 13 b" "b ! 13" i d] by (auto simp: block_ok_def)
next
  case False
  with assms(2) have "i = 13" by simp
  with assms show ?thesis by (auto simp: block_ok_def)
qed

lemma unluhnify_substitution:
  assumes "unluhnify_with generate t = Inr s" and "i < 56" and "d \<noteq> t ! i"
  shows "unluhnify_with generate (t[i := d]) \<noteq> Inr s'"
proof
  let ?u = "t[i := d]"
  let ?j = "i div 14" and ?m = "i mod 14"
  let ?blk = "\<lambda>x. take 14 (drop (?j * 14) x)"
  assume "unluhnify_with generate ?u = Inr s'"
  then have u: "list_all block_ok (chunks 14 ?u)" "length ?u = 56"
    using chunks_14 [of ?u] by (auto simp: unluhnify_with_def unluhnify_chunks_iff split: if_splits)
  have t: "list_all block_ok (chunks 14 t)" "length t = 56"
    using assms(1) by (auto simp: unluhnify_with_def unluhnify_chunks_iff chunks_14 split: if_splits)
  have j: "?j * 14 < 56" "i = ?j * 14 + ?m" "?m < 14" using assms(2) by auto
  have ok: "block_ok (?blk x)" if "list_all block_ok (chunks 14 x)" "length x = 56" for x
    using chunks_nth [of 14 ?j x] that j(1) by (metis list_all_length zero_less_numeral)
  have "?blk ?u = (?blk t)[?m := d]"
    using j(1,3) t(2)
    by (simp add: drop_update_swap take_update_swap minus_div_mult_eq_mod)
  moreover have "?blk t ! ?m = t ! i"
    using j t(2) by simp
  ultimately show False
    using block_substitution [OF ok [OF t] j(3), of d] ok [OF u] assms(3) by simp
qed

end



section \<open>The text form of an identifier\<close>

text \<open>The 52 digits of an identifier and the 56 characters with check digits.\<close>

definition ident_digits :: "ident \<Rightarrow> string" where
  "ident_digits i = map ((!) base32_alphabet) (digits_of 5 (bytes_of i))"

lemma set_digits_lt: "d \<in> set (digits_of 5 bs) \<Longrightarrow> d < 32"
  using digits_of_less [of 5 d bs] by simp

lemma set_ident_digits: "set (ident_digits i) \<subseteq> set base32_alphabet"
  by (auto simp: ident_digits_def dest: set_digits_lt)

lemma length_ident_digits [simp]: "length (ident_digits i) = 52"
  by (simp add: ident_digits_def length_digits_of_5)

lemma replicate_4: "replicate 4 c = [c, c, c, c]"
  by (simp add: numeral_eq_Suc)

lemma base32_encode_ident: "base32_encode (bytes_of i) = ident_digits i @ ''===='' "
  by (simp add: base32_encode_def ident_digits_def Let_def length_digits_of_5 replicate_4)

lemma trim_base32_ident: "trim_byte CHR ''='' (base32_encode (bytes_of i)) = ident_digits i"
proof -
  have "CHR ''='' \<notin> set (ident_digits i)"
    using set_ident_digits base32_alphabet_excludes by blast
  then show ?thesis
    using trim_byte_append_replicate [of "CHR ''=''" "ident_digits i" 4]
    by (simp add: base32_encode_ident replicate_4)
qed

lemma base32_decode_ident: "base32_decode (ident_digits i @ ''===='') = Inr (bytes_of i)"
  using base32_decode_encode [of "bytes_of i"] by (simp add: base32_encode_ident)

definition ident_checked :: "ident \<Rightarrow> string" where
  "ident_checked i = (case luhnify (ident_digits i) of Inl e \<Rightarrow> [] | Inr s \<Rightarrow> s)"

lemma luhnify_ident: "luhnify (ident_digits i) = Inr (ident_checked i)"
  using luhn32.luhnify_total [OF length_ident_digits set_ident_digits, of i]
  by (auto simp: ident_checked_def luhnify_def)

lemma length_ident_checked [simp]: "length (ident_checked i) = 56"
  and set_ident_checked: "set (ident_checked i) \<subseteq> set base32_alphabet"
  using luhn32.luhnify_total [OF length_ident_digits set_ident_digits, of i] luhnify_ident [of i]
  by (auto simp: luhnify_def)

lemma unluhnify_ident: "unluhnify (ident_checked i) = Inr (ident_digits i)"
  using luhnify_ident [of i] by (simp add: unluhnify_def luhnify_def luhn32.unluhnify_iff_luhnify)

lemma String_eq: "String i = Inr (chunkify (ident_checked i))"
  by (simp add: String_def trim_base32_ident luhnify_ident)

lemma ident_text_eq: "ident_text i = chunkify (ident_checked i)"
  by (simp add: ident_text_def String_eq)

text \<open>Hyphens: inserting them and taking them out again.\<close>

lemma insert_hyphens_cases:
  obtains "s = []" "insert_hyphens s = []"
  | "s \<noteq> []" "7 \<le> length s" "CHR 0x0A \<notin> set (take 7 s)"
      "insert_hyphens s = take 7 s @ CHR ''-'' # insert_hyphens (drop 7 s)"
  | c t where "s = c # t" "\<not> (7 \<le> length s \<and> CHR 0x0A \<notin> set (take 7 s))"
      "insert_hyphens s = c # insert_hyphens t"
proof (cases s)
  case Nil
  then show thesis by (intro that(1)) (simp_all add: insert_hyphens.simps)
next
  case (Cons c t)
  show thesis
  proof (cases "7 \<le> length s \<and> CHR 0x0A \<notin> set (take 7 s)")
    case True
    moreover have "s \<noteq> []" using Cons by simp
    ultimately have "insert_hyphens s = take 7 s @ CHR ''-'' # insert_hyphens (drop 7 s)"
      by (subst insert_hyphens.simps) simp
    with True Cons show thesis by (intro that(2)) simp_all
  next
    case False
    with Cons have "insert_hyphens s = c # insert_hyphens t"
      by (subst insert_hyphens.simps) (simp only: if_False list.simps list.sel)
    with False Cons show thesis by (intro that(3)) simp_all
  qed
qed

lemma filter_insert_hyphens: "filter (\<lambda>c. c \<noteq> CHR ''-'') (insert_hyphens s) = filter (\<lambda>c. c \<noteq> CHR ''-'') s"
proof (induction s rule: insert_hyphens.induct)
  case (1 s)
  have split7: "filter P (take 7 s) @ filter P (drop 7 s) = filter P s" for P
    by (simp add: filter_append [symmetric])
  from 1 show ?case
    by (cases rule: insert_hyphens_cases [of s]) (auto simp: split7)
qed

lemma filter_trim_byte: "filter (\<lambda>d. d \<noteq> c) (trim_byte c s) = filter (\<lambda>d. d \<noteq> c) s"
proof -
  have drop: "filter (\<lambda>d. d \<noteq> c) (dropWhile (\<lambda>d. d = c) t) = filter (\<lambda>d. d \<noteq> c) t" for t
    by (induction t) auto
  have "filter (\<lambda>d. d \<noteq> c) (rev (dropWhile (\<lambda>d. d = c) t)) = filter (\<lambda>d. d \<noteq> c) (rev t)" for t
    using drop by (simp add: rev_filter [symmetric])
  then show ?thesis using drop by (simp add: trim_byte_def)
qed

lemma unchunkify_eq: "unchunkify s = filter (\<lambda>c. c \<noteq> CHR ''-'' \<and> c \<noteq> CHR '' '') s"
  by (auto simp: unchunkify_def replace_byte_delete intro: filter_cong)

lemma unchunkify_chunkify:
  assumes "set s \<subseteq> set base32_alphabet"
  shows "unchunkify (chunkify s) = s"
proof -
  have "CHR ''-'' \<notin> set s" "CHR '' '' \<notin> set s"
    using assms base32_alphabet_excludes by blast+
  then show ?thesis
    by (simp add: unchunkify_def replace_byte_delete chunkify_def filter_trim_byte
        filter_insert_hyphens) (auto intro: filter_True)
qed

lemma set_chunkify: "set (chunkify s) \<subseteq> insert CHR ''-'' (set s)"
proof -
  have "set (insert_hyphens s) \<subseteq> insert CHR ''-'' (set s)"
  proof (induction s rule: insert_hyphens.induct)
    case (1 s)
    then show ?case
      by (cases rule: insert_hyphens_cases [of s]) (auto dest: in_set_takeD in_set_dropD)
  qed
  moreover have "set (trim_byte c t) \<subseteq> set t" for c t
    by (auto simp: trim_byte_def dest!: set_dropWhileD)
  ultimately show ?thesis unfolding chunkify_def by blast
qed



section \<open>Parsing the text form\<close>

text \<open>
  What a person may type for a character of the canonical form: the character, its lower case, the digit that
  looks like it, or the letter outside ASCII whose upper case it is (the dotless i and the long s, in UTF-8).
  Hyphens and spaces may stand anywhere, and padding at both ends.
\<close>

definition variants :: "char \<Rightarrow> string list" where
  "variants c =
     [[c], [lower_byte c]] @
     (if c = CHR ''O'' then [''0''] else if c = CHR ''I'' then [''1'', [CHR 0xC4, CHR 0xB1]]
      else if c = CHR ''B'' then [''8''] else if c = CHR ''S'' then [[CHR 0xC5, CHR 0xBF]] else [])"

definition separator :: "char \<Rightarrow> bool" where
  "separator c \<longleftrightarrow> c = CHR ''-'' \<or> c = CHR '' ''"

inductive spelled :: "string \<Rightarrow> string \<Rightarrow> bool" where
  spelled_end: "spelled [] []"
| spelled_separator: "separator d \<Longrightarrow> spelled t s \<Longrightarrow> spelled t (d # s)"
| spelled_char: "v \<in> set (variants c) \<Longrightarrow> spelled t s \<Longrightarrow> spelled (c # t) (v @ s)"

definition variant_of :: "string \<Rightarrow> string \<Rightarrow> bool" where
  "variant_of t s \<longleftrightarrow>
     (\<exists>m body n. s = replicate m CHR ''='' @ body @ replicate n CHR ''='' \<and> spelled t body)"

definition canonical_char :: "char \<Rightarrow> char" where
  "canonical_char c =
     (let d = upper_byte c in
      if d = CHR ''0'' then CHR ''O'' else if d = CHR ''1'' then CHR ''I''
      else if d = CHR ''8'' then CHR ''B'' else d)"

lemma char_code_of: "n < 256 \<Longrightarrow> char_code (char_of n) = n"
  by (simp add: char_code_def)

lemma char_of_char_code: "char_of (char_code c) = c"
  by (simp add: char_code_def)

lemma alphabet_codes:
  "c \<in> set base32_alphabet \<Longrightarrow> char_code c \<in> {65..90} \<union> {50..55}"
  by (auto simp: base32_alphabet_def char_code_def)

lemma upper_lower: "char_code c \<notin> {97..122} \<Longrightarrow> upper_byte (lower_byte c) = c"
  by (auto simp: upper_byte_def lower_byte_def char_code_of char_of_char_code)

lemma canonical_char_letter:
  assumes c: "c \<in> set base32_alphabet" and d: "d \<in> {c, lower_byte c}"
  shows "canonical_char d = c \<and> char_code d < 128 \<and> d \<noteq> CHR ''=''"
proof -
  note codes = alphabet_codes [OF c]
  have not_digit: "c \<noteq> CHR ''0''" "c \<noteq> CHR ''1''" "c \<noteq> CHR ''8''"
    using base32_alphabet_excludes [OF c] by auto
  have "upper_byte c = c" using codes by (auto simp: upper_byte_def)
  moreover have "upper_byte (lower_byte c) = c" using codes by (intro upper_lower) auto
  moreover have "char_code (lower_byte c) \<in> {97..122} \<union> {50..55}"
    using codes by (auto simp: lower_byte_def char_code_of)
  moreover have "char_code (CHR ''='') = 61" by (simp add: char_code_def)
  ultimately show ?thesis using codes d not_digit by (auto simp: canonical_char_def Let_def)
qed

lemma canonical_char_digit:
  "canonical_char CHR ''0'' = CHR ''O''" "canonical_char CHR ''1'' = CHR ''I''" "canonical_char CHR ''8'' = CHR ''B''"
  by (simp_all add: canonical_char_def upper_byte_def char_code_def)

text \<open>What is left of a text without padding, character by character.\<close>

definition cleaned :: "string \<Rightarrow> string" where
  "cleaned s = unchunkify (untypeoify (to_upper s))"

lemma untypeoify_eq:
  "untypeoify s = map (\<lambda>d. if d = CHR ''0'' then CHR ''O'' else if d = CHR ''1'' then CHR ''I''
     else if d = CHR ''8'' then CHR ''B'' else d) s"
  by (simp add: untypeoify_def replace_byte_single)

lemma to_upper_Cons: "char_code d < 128 \<Longrightarrow> to_upper (d # s) = upper_byte d # to_upper s"
  by (cases s) (auto simp: char_code_def)

lemma cleaned_Nil [simp]: "cleaned [] = []"
  by (simp add: cleaned_def unchunkify_eq untypeoify_eq)

lemma cleaned_ascii:
  "char_code d < 128 \<Longrightarrow>
   cleaned (d # s) = (if separator (canonical_char d) then cleaned s else canonical_char d # cleaned s)"
  by (simp add: cleaned_def to_upper_Cons untypeoify_eq unchunkify_eq separator_def canonical_char_def Let_def)

lemma cleaned_other:
  "cleaned (CHR 0xC4 # CHR 0xB1 # s) = CHR ''I'' # cleaned s"
  "cleaned (CHR 0xC5 # CHR 0xBF # s) = CHR ''S'' # cleaned s"
  by (simp_all add: cleaned_def untypeoify_eq unchunkify_eq)

lemma spelled_cleaned:
  "spelled t s \<Longrightarrow> set t \<subseteq> set base32_alphabet \<Longrightarrow> cleaned s = t \<and> CHR ''='' \<notin> set s"
proof (induction rule: spelled.induct)
  case (spelled_separator d t s)
  then have "char_code d < 128 \<and> separator (canonical_char d) \<and> d \<noteq> CHR ''=''"
    by (auto simp: separator_def canonical_char_def upper_byte_def char_code_def)
  with spelled_separator show ?case by (auto simp: cleaned_ascii)
next
  case (spelled_char v c t s)
  then have c: "c \<in> set base32_alphabet" and t: "cleaned s = t" "CHR ''='' \<notin> set s" by auto
  have sep: "\<not> separator c" using base32_alphabet_excludes [OF c] by (simp add: separator_def)
  consider (letter) d where "v = [d]" "d \<in> {c, lower_byte c}"
    | (digit) d where "v = [d]" "(c, d) \<in> {(CHR ''O'', CHR ''0''), (CHR ''I'', CHR ''1''), (CHR ''B'', CHR ''8'')}"
    | (other) "(c, v) \<in> {(CHR ''I'', [CHR 0xC4, CHR 0xB1]), (CHR ''S'', [CHR 0xC5, CHR 0xBF])}"
    using spelled_char.hyps(1) by (auto simp: variants_def split: if_splits)
  then show ?case
  proof cases
    case letter
    with canonical_char_letter [OF c letter(2)] sep t show ?thesis by (auto simp: cleaned_ascii)
  next
    case digit
    from digit(2) have d: "canonical_char d = c" "char_code d < 128" "CHR ''='' \<noteq> d"
      by (auto simp: canonical_char_digit, simp_all add: char_code_def)
    from digit(1) d sep t show ?thesis by (simp add: cleaned_ascii)
  next
    case other
    with t show ?thesis by (auto simp: cleaned_other)
  qed
qed simp

lemma trim_padding:
  assumes "c \<notin> set s"
  shows "trim_byte c (replicate m c @ s @ replicate n c) = s"
proof -
  have "dropWhile (\<lambda>d. d = c) (replicate m c @ t) = dropWhile (\<lambda>d. d = c) t" for t
    by (induction m) simp_all
  then have "trim_byte c (replicate m c @ t) = trim_byte c t" for t by (simp add: trim_byte_def)
  with trim_byte_append_replicate [OF assms, of n] show ?thesis by simp
qed

lemma canonical_variant:
  assumes t: "set t \<subseteq> set base32_alphabet" and v: "variant_of t s"
  shows "canonical s = t"
proof -
  from v obtain m body n where s: "s = replicate m CHR ''='' @ body @ replicate n CHR ''=''" "spelled t body"
    by (auto simp: variant_of_def)
  from spelled_cleaned [OF s(2) t] show ?thesis
    by (simp add: canonical_def s(1) trim_padding cleaned_def)
qed

lemma spelled_variant: "spelled t s \<Longrightarrow> variant_of t s"
  unfolding variant_of_def by (intro exI [of _ 0] exI [of _ s]) simp

lemma spelled_filter: "t = filter (\<lambda>c. \<not> separator c) s \<Longrightarrow> spelled t s"
proof (induction s arbitrary: t)
  case (Cons d s)
  then show ?case
    using spelled_char [of "[d]" d "filter (\<lambda>c. \<not> separator c) s" s]
    by (auto simp: variants_def intro: spelled_separator)
qed (simp add: spelled_end)

lemma variant_ident_text: "variant_of (ident_checked i) (ident_text i)"
proof -
  have "filter (\<lambda>c. \<not> separator c) (ident_text i) = ident_checked i"
    using unchunkify_chunkify [OF set_ident_checked]
    by (simp add: ident_text_eq unchunkify_eq separator_def)
  from spelled_variant [OF spelled_filter [OF this [symmetric]]] show ?thesis .
qed

lemma UnmarshalText_canonical:
  "canonical s = ident_checked i \<Longrightarrow> UnmarshalText j s = Inr i"
  by (simp add: UnmarshalText_def unluhnify_ident base32_decode_ident)

lemma UnmarshalText_ident_text: "UnmarshalText j (ident_text i) = Inr i"
  using canonical_variant [OF set_ident_checked variant_ident_text] by (rule UnmarshalText_canonical)

lemma UnmarshalText_InrD:
  "UnmarshalText j s = Inr i \<Longrightarrow> length (canonical s) = 56 \<and> (\<exists>t. unluhnify (canonical s) = Inr t)"
  by (auto simp: UnmarshalText_def Let_def split: if_splits sum.splits)

text \<open>A hyphen after every seven characters, and the last one taken off again.\<close>

lemma insert_hyphens_pieces:
  assumes "CHR 0x0A \<notin> A" and "set s \<subseteq> A" and "length s = 7 * Suc n"
  shows "\<exists>u. insert_hyphens s = u @ [CHR ''-''] \<and> length u = 8 * Suc n - 1 \<and> hd u \<in> A \<and> last u \<in> A"
  using assms(2,3)
proof (induction n arbitrary: s)
  case 0
  then have "drop 7 s = []" "take 7 s = s" "s \<noteq> []" "CHR 0x0A \<notin> set (take 7 s)" using assms(1) by auto
  with 0 show ?case
    by (intro exI [of _ s]) (auto simp: insert_hyphens.simps [of s] insert_hyphens.simps [of "[]"])
next
  case (Suc n)
  have "set (drop 7 s) \<subseteq> A" "length (drop 7 s) = 7 * Suc n" using Suc.prems set_drop_subset [of 7 s] by auto
  from Suc.IH [OF this] obtain u where u: "insert_hyphens (drop 7 s) = u @ [CHR ''-'']" "length u = 8 * Suc n - 1"
      "hd u \<in> A" "last u \<in> A" by blast
  have ne: "take 7 s \<noteq> []" "u \<noteq> []" "set (take 7 s) \<subseteq> A" using Suc.prems u(2) by (auto dest!: in_set_takeD)
  have "insert_hyphens s = take 7 s @ CHR ''-'' # insert_hyphens (drop 7 s)"
    using ne(3) assms(1) Suc.prems(2) by (subst insert_hyphens.simps) auto
  with u ne Suc.prems show ?case
    by (intro exI [of _ "take 7 s @ CHR ''-'' # u"]) (auto simp: hd_append)
qed

lemma trim_byte_last:
  assumes "u \<noteq> []" and "hd u \<noteq> d" and "last u \<noteq> d"
  shows "trim_byte d (u @ [d]) = u"
proof -
  have "hd (rev u) \<noteq> d" using assms by (simp add: hd_rev)
  then have "dropWhile (\<lambda>e. e = d) (u @ v) = u @ v" "dropWhile (\<lambda>e. e = d) (rev u) = rev u" for v
    using assms by (cases u; simp add: dropWhile_eq_self_iff)+
  then show ?thesis by (simp add: trim_byte_def)
qed

text \<open>
  \<open>String\<close> never panics: the Luhn error branch cannot be taken, and the text form of every
  identifier has eight groups of seven characters with hyphens between them, 63 in all.
\<close>

theorem String_total: "String i = Inr (ident_text i) \<and> length (ident_text i) = 63"
proof -
  let ?t = "ident_checked i"
  have out: "CHR 0x0A \<notin> set ?t" "CHR ''-'' \<notin> set ?t"
    using set_ident_checked base32_alphabet_excludes by blast+
  from insert_hyphens_pieces [OF out(1) subset_refl, of 7] obtain u where
    u: "insert_hyphens ?t = u @ [CHR ''-'']" "length u = 63" "hd u \<in> set ?t" "last u \<in> set ?t" by auto
  have "trim_byte CHR ''-'' (u @ [CHR ''-'']) = u"
    using u(2-4) out(2) by (intro trim_byte_last) auto
  then have "ident_text i = u" by (simp add: ident_text_eq chunkify_def u(1))
  with u(2) show ?thesis by (simp add: String_eq ident_text_eq)
qed

text \<open>
  C37. The parser accepts every tolerated spelling of an identifier's text, with lower case
  letters, the digits 0, 1 and 8 for O, I and B, the two letters outside ASCII whose upper case is I or S,
  hyphens or spaces anywhere, and equality signs at both ends, and gives back
  exactly that identifier, whatever the receiver held before.
\<close>

theorem UnmarshalText_variant:
  assumes "variant_of (ident_checked i) s"
  shows "UnmarshalText j s = Inr i"
  using assms by (intro UnmarshalText_canonical canonical_variant set_ident_checked)

lemma spelled_lower: "spelled t (map lower_byte t)"
proof (induction t)
  case (Cons c t)
  then show ?case using spelled_char [of "[lower_byte c]" c t "map lower_byte t"] by (simp add: variants_def)
qed (simp add: spelled_end)

lemma variant_self: "variant_of t t"
proof (rule spelled_variant)
  show "spelled t t"
  proof (induction t)
    case (Cons c t)
    then show ?case using spelled_char [of "[c]" c t t] by (simp add: variants_def)
  qed (simp add: spelled_end)
qed

lemma UnmarshalText_variant_witness:
  "UnmarshalText emptyID (''=='' @ map lower_byte (ident_checked zero_ident) @ ''===='') = Inr zero_ident"
proof (rule UnmarshalText_variant)
  show "variant_of (ident_checked zero_ident) (''=='' @ map lower_byte (ident_checked zero_ident) @ ''===='')"
    unfolding variant_of_def
    by (intro exI [of _ 2] exI [of _ "map lower_byte (ident_checked zero_ident)"] exI [of _ 4])
      (simp add: numeral_eq_Suc spelled_lower)
qed

text \<open>
  Marshalling and unmarshalling an identifier gives it back.
\<close>

theorem UnmarshalText_MarshalText: "(case MarshalText i of Inl e \<Rightarrow> Inl e | Inr bs \<Rightarrow> UnmarshalText j bs) = Inr i"
  using UnmarshalText_ident_text [of j i] by (simp add: MarshalText_def String_eq ident_text_eq)

text \<open>
  C38. The check characters detect every single wrong character: a text whose canonical form
  differs from that of an accepted text in exactly one of its 56 places is rejected.
\<close>

theorem UnmarshalText_single_error:
  assumes "UnmarshalText j s = Inr i"
    and "canonical s' = (canonical s)[k := c]" and "k < 56" and "c \<noteq> canonical s ! k"
  shows "\<exists>e. UnmarshalText j s' = Inl e"
proof -
  from UnmarshalText_InrD [OF assms(1)] obtain t where "unluhnify (canonical s) = Inr t" by blast
  then have "unluhnify (canonical s') \<noteq> Inr t'" for t'
    using luhn32.unluhnify_substitution [OF _ assms(3,4)] assms(2) by (simp add: unluhnify_def)
  then show ?thesis
    using UnmarshalText_InrD [of j s'] by (cases "UnmarshalText j s'") auto
qed

lemma UnmarshalText_single_error_witness:
  "\<exists>e. UnmarshalText emptyID ((ident_checked zero_ident)[0 :=
     (if ident_checked zero_ident ! 0 = CHR ''A'' then CHR ''B'' else CHR ''A'')]) = Inl e"
proof -
  let ?t = "ident_checked zero_ident"
  let ?c = "if ?t ! 0 = CHR ''A'' then CHR ''B'' else CHR ''A''"
  have "?c \<in> set base32_alphabet" by (simp add: base32_alphabet_def)
  then have sub: "set (?t[0 := ?c]) \<subseteq> set base32_alphabet"
    using set_ident_checked [of zero_ident] set_update_subset_insert [of ?t 0 ?c] by blast
  have canon: "canonical t = t" if "set t \<subseteq> set base32_alphabet" for t
    using canonical_variant [OF that variant_self] .
  have "UnmarshalText emptyID ?t = Inr zero_ident"
    by (intro UnmarshalText_canonical canon set_ident_checked)
  then show ?thesis
    by (rule UnmarshalText_single_error [where k = 0 and c = ?c])
       (simp_all add: canon [OF sub] canon [OF set_ident_checked])
qed

text \<open>
  The interface the connection pool uses: a text form and a parser that inverts it.
\<close>

locale id_text =
  fixes text_of :: "'i \<Rightarrow> string"
    and parse :: "'i \<Rightarrow> string \<Rightarrow> go_error + 'i"
  assumes parse_text_of: "parse j (text_of i) = Inr i"
begin

lemma text_of_inject: "text_of i = text_of k \<longleftrightarrow> i = k"
  by (metis parse_text_of sum.inject(2))

end

interpretation ident_codec: id_text ident_text UnmarshalText
  by (rule id_text.intro) (rule UnmarshalText_ident_text)

end
