(* ===== verification/Credentials.thy ===== *)
theory Credentials
  imports Base_Codec
begin

text \<open>
  Basic authentication: \<open>Auth\<close> and \<open>NewAuth\<close> (\<open>auth.go\<close>), and what \<open>Request.BasicAuth\<close> of
  \<open>net/http\<close> reads from the header \<open>Authorization\<close>.
\<close>

section \<open>Auth\<close>

record auth =
  User :: string
  Password :: string

definition NewAuth :: "string \<Rightarrow> auth option" where
  "NewAuth a =
     (if a = [] then None
      else
        let s = splitn2 a '':''
        in Some \<lparr>User = s ! 0, Password = (if length s > 1 then s ! 1 else [])\<rparr>)"

lemma NewAuth_None_iff: "NewAuth a = None \<longleftrightarrow> a = []"
  by (simp add: NewAuth_def Let_def)

text \<open>
  \<open>NewAuth\<close> splits at the first colon only: the user is everything before it and the password
  everything after it, further colons included; without a colon the password is empty, and only the
  empty string means no authentication.
\<close>

theorem NewAuth_spec:
  "NewAuth a =
     (if a = [] then None
      else Some \<lparr>User = takeWhile (\<lambda>c. c \<noteq> CHR '':'') a,
                 Password = tl (dropWhile (\<lambda>c. c \<noteq> CHR '':'') a)\<rparr>)"
proof (cases "cut a '':''")
  case None
  then have "CHR '':'' \<notin> set a" by (simp add: cut_byte_None)
  then have split: "takeWhile (\<lambda>c. c \<noteq> CHR '':'') a = a" "dropWhile (\<lambda>c. c \<noteq> CHR '':'') a = []"
    by (auto simp: takeWhile_eq_all_conv dropWhile_eq_Nil_conv)
  show ?thesis by (simp add: NewAuth_def splitn2_def None split)
next
  case (Some p)
  then obtain u w where p: "p = (u, w)" by (cases p)
  with Some cut_byte_Some have a: "a = u @ CHR '':'' # w" "CHR '':'' \<notin> set u" by auto
  then have "\<forall>c \<in> set u. c \<noteq> CHR '':''" by auto
  then have "takeWhile (\<lambda>c. c \<noteq> CHR '':'') a = u" "dropWhile (\<lambda>c. c \<noteq> CHR '':'') a = CHR '':'' # w"
    by (simp_all add: a(1))
  with Some p a show ?thesis by (simp add: NewAuth_def splitn2_def)
qed


section \<open>Request.BasicAuth\<close>

definition bytes_string :: "byte list \<Rightarrow> string" where
  "bytes_string bs = map (\<lambda>b. char_of (unat b)) bs"

definition string_bytes :: "string \<Rightarrow> byte list" where
  "string_bytes s = map (\<lambda>c. of_nat (char_code c)) s"

lemma bytes_string_string_bytes [simp]: "bytes_string (string_bytes s) = s"
proof -
  have "char_of (take_bit 8 (of_char c) :: nat) = (c :: char)" for c :: char
    by (simp add: take_bit_eq_mod)
  then show ?thesis
    by (simp add: bytes_string_def string_bytes_def char_code_def unsigned_of_nat comp_def)
qed

definition parse_basic_auth :: "string \<Rightarrow> (string \<times> string) option" where
  "parse_basic_auth a =
     (if length a < 6 \<or> map lower_byte (take 6 a) \<noteq> ''basic '' then None
      else case base64_decode (drop 6 a) of
        Inl e \<Rightarrow> None
      | Inr c \<Rightarrow> cut (bytes_string c) '':'')"

definition BasicAuth :: "header \<Rightarrow> string \<times> string \<times> bool" where
  "BasicAuth h =
     (let a = header_get h ''Authorization'' in
      if a = [] then ([], [], False)
      else case parse_basic_auth a of
        None \<Rightarrow> ([], [], False)
      | Some (u, p) \<Rightarrow> (u, p, True))"

text \<open>The header a client sends for a user and a password.\<close>

definition basic_auth_header :: "string \<Rightarrow> string \<Rightarrow> string" where
  "basic_auth_header u p = ''Basic '' @ base64_encode (string_bytes (u @ '':'' @ p))"

lemma map_lower_Basic: "map lower_byte ''Basic '' = ''basic ''"
  by code_simp

lemma parse_basic_auth_header:
  "CHR '':'' \<notin> set u \<Longrightarrow> parse_basic_auth (basic_auth_header u p) = Some (u, p)"
  using map_lower_Basic
  by (simp add: parse_basic_auth_def basic_auth_header_def base64_decode_encode cut_byte_fresh)

lemma BasicAuth_header:
  "CHR '':'' \<notin> set u \<Longrightarrow> header_get h ''Authorization'' = basic_auth_header u p \<Longrightarrow>
   BasicAuth h = (u, p, True)"
  using parse_basic_auth_header [of u p]
  by (simp add: BasicAuth_def basic_auth_header_def)

lemma BasicAuth_missing: "header_get h ''Authorization'' = [] \<Longrightarrow> BasicAuth h = ([], [], False)"
  by (simp add: BasicAuth_def)

lemma BasicAuth_not_ok: "BasicAuth h = (u, p, False) \<Longrightarrow> u = [] \<and> p = []"
  by (auto simp: BasicAuth_def Let_def split: go_splits)

end
