(* ===== verification/Registry.thy ===== *)
theory Registry
  imports Ident Credentials
begin

text \<open>
  The registry of the server (\<open>registry.go\<close>): which clients may connect, and which client serves
  which host. Every method holds the mutex from its first access of the maps to its end, so each is
  one atomic transformation of the state.
\<close>

section \<open>State\<close>

text \<open>
  The program compares items with \<open>voidRegistryItem\<close> by address, and that item is never changed:
  \<open>VoidItem\<close> is that address and \<open>Item\<close> any other. A listener is of a type the registry never looks
  into.
\<close>

record host_auth =
  ha_Host :: string
  ha_Auth :: "auth option"

record 'l registry_item =
  Hosts :: "host_auth list"
  Listeners :: "'l list"

datatype 'l item_ref = VoidItem | Item "'l registry_item"

record host_info =
  hi_identifier :: ident
  hi_auth :: "auth option"

record 'l registry =
  items :: "ident \<rightharpoonup> 'l item_ref"
  hosts :: "string \<rightharpoonup> host_info"

definition newRegistry :: "'l registry" where
  "newRegistry = \<lparr>items = (\<lambda>_. None), hosts = (\<lambda>_. None)\<rparr>"


section \<open>Operations\<close>

definition trimPort :: "string \<Rightarrow> string" where
  "trimPort hostPort = (let host = host_part hostPort in if host = [] then hostPort else host)"

definition Subscribe :: "ident \<Rightarrow> 'l registry \<Rightarrow> 'l registry" where
  "Subscribe identifier r =
     (if items r identifier \<noteq> None then r
      else r\<lparr>items := (items r)(identifier \<mapsto> VoidItem)\<rparr>)"

definition IsSubscribed :: "ident \<Rightarrow> 'l registry \<Rightarrow> bool" where
  "IsSubscribed identifier r = (items r identifier \<noteq> None)"

definition Subscriber :: "string \<Rightarrow> 'l registry \<Rightarrow> (ident \<times> auth option) option" where
  "Subscriber hostPort r =
     (case hosts r (trimPort hostPort) of
        None \<Rightarrow> None
      | Some h \<Rightarrow> Some (hi_identifier h, hi_auth h))"

fun ref_hosts :: "'l item_ref \<Rightarrow> host_auth list" where
  "ref_hosts VoidItem = []"
| "ref_hosts (Item i) = Hosts i"

text \<open>\<open>Unsubscribe\<close> deletes the hosts under the names the client gave, not under their trimmed form.\<close>

definition Unsubscribe :: "ident \<Rightarrow> 'l registry \<Rightarrow> 'l item_ref option \<times> 'l registry" where
  "Unsubscribe identifier r =
     (case items r identifier of
        None \<Rightarrow> (None, r)
      | Some i \<Rightarrow>
          (Some i, r\<lparr>hosts := fold (\<lambda>h m. m(ha_Host h := None)) (ref_hosts i) (hosts r),
                     items := (items r)(identifier := None)\<rparr>))"

fun check_hosts :: "host_auth list \<Rightarrow> (string \<rightharpoonup> host_info) \<Rightarrow> go_error option" where
  "check_hosts [] m = None"
| "check_hosts (h # hs) m =
     (if (case ha_Auth h of None \<Rightarrow> False | Some a \<Rightarrow> User a = []) then Some (Errorf ''missing auth user'')
      else if m (trimPort (ha_Host h)) \<noteq> None
      then Some (Errorf (''host '' @ go_quote (ha_Host h) @ '' is occupied''))
      else check_hosts hs m)"

definition assign_hosts :: "ident \<Rightarrow> host_auth list \<Rightarrow> (string \<rightharpoonup> host_info) \<Rightarrow> (string \<rightharpoonup> host_info)" where
  "assign_hosts identifier hs m =
     fold (\<lambda>h m. m(trimPort (ha_Host h) \<mapsto> \<lparr>hi_identifier = identifier, hi_auth = ha_Auth h\<rparr>)) hs m"

definition set_item :: "'l registry_item \<Rightarrow> ident \<Rightarrow> 'l registry \<Rightarrow> go_error option \<times> 'l registry" where
  "set_item i identifier r =
     (case items r identifier of
        None \<Rightarrow> (Some ErrClientNotSubscribed, r)
      | Some (Item j) \<Rightarrow> (Some (Errorf ''attempt to overwrite registry item''), r)
      | Some VoidItem \<Rightarrow>
          (case check_hosts (Hosts i) (hosts r) of
             Some e \<Rightarrow> (Some e, r)
           | None \<Rightarrow>
               (None, r\<lparr>hosts := assign_hosts identifier (Hosts i) (hosts r),
                        items := (items r)(identifier \<mapsto> Item i)\<rparr>)))"

definition clear :: "ident \<Rightarrow> 'l registry \<Rightarrow> 'l registry_item option \<times> 'l registry" where
  "clear identifier r =
     (case items r identifier of
        None \<Rightarrow> (None, r)
      | Some VoidItem \<Rightarrow> (None, r)
      | Some (Item i) \<Rightarrow>
          (Some i, r\<lparr>hosts := fold (\<lambda>h m. m(trimPort (ha_Host h) := None)) (Hosts i) (hosts r),
                     items := (items r)(identifier \<mapsto> VoidItem)\<rparr>))"


section \<open>Hosts without their port\<close>

lemma trimPort_no_colon: "CHR '':'' \<notin> set h \<Longrightarrow> trimPort h = h"
  by (simp add: trimPort_def host_part_def split_host_port_no_colon)

lemma trimPort_port: "plain h \<Longrightarrow> plain p \<Longrightarrow> h \<noteq> [] \<Longrightarrow> trimPort (h @ CHR '':'' # p) = h"
  by (simp add: trimPort_def host_part_def split_host_port_plain)

lemma trimPort_plain: "plain h \<Longrightarrow> trimPort h = h"
  by (simp add: trimPort_no_colon plainD)

lemma trimPort_bracket:
  "CHR ''['' \<notin> set h \<Longrightarrow> CHR '']'' \<notin> set h \<Longrightarrow> plain p \<Longrightarrow> h \<noteq> [] \<Longrightarrow>
   trimPort (CHR ''['' # h @ CHR '']'' # CHR '':'' # p) = h"
  by (simp add: trimPort_def host_part_def split_host_port_bracket)

text \<open>
  A request reaches the same table entry whatever port it names: looking up a host with a port is
  looking up the host alone.
\<close>

theorem Subscriber_any_port:
  assumes "plain h" and "plain p" and "h \<noteq> []"
  shows "Subscriber (h @ CHR '':'' # p) r = Subscriber h r"
  using assms by (simp add: Subscriber_def trimPort_port trimPort_plain)

lemma Subscriber_any_port_witness:
  "Subscriber (''a.b'' @ CHR '':'' # ''80'') (newRegistry :: nat registry) = Subscriber ''a.b'' (newRegistry :: nat registry)"
  by (rule Subscriber_any_port) (simp_all add: plain_def)


section \<open>The invariant\<close>

text \<open>
  \<open>item_keys\<close> are the table keys of the hosts in the item of a client, \<open>owner\<close> is the client a key
  leads to. In a good registry the two views agree, and no stored credential has an empty user.
\<close>

definition host_keys :: "host_auth list \<Rightarrow> string set" where
  "host_keys hs = (\<lambda>h. trimPort (ha_Host h)) ` set hs"

definition item_hosts :: "ident \<Rightarrow> 'l registry \<Rightarrow> host_auth list" where
  "item_hosts k r = (case items r k of None \<Rightarrow> [] | Some i \<Rightarrow> ref_hosts i)"

definition owner :: "string \<Rightarrow> 'l registry \<Rightarrow> ident option" where
  "owner h r = map_option hi_identifier (hosts r h)"

definition good_auth :: "auth option \<Rightarrow> bool" where
  "good_auth a = (case a of None \<Rightarrow> True | Some u \<Rightarrow> User u \<noteq> [])"

definition registry_inv :: "'l registry \<Rightarrow> bool" where
  "registry_inv r \<longleftrightarrow>
     (\<forall>h k. owner h r = Some k \<longleftrightarrow> h \<in> host_keys (item_hosts k r)) \<and>
     (\<forall>i \<in> ran (hosts r). good_auth (hi_auth i))"

definition trimmed_hosts :: "'l registry \<Rightarrow> bool" where
  "trimmed_hosts r \<longleftrightarrow> (\<forall>k. \<forall>h \<in> set (item_hosts k r). trimPort (ha_Host h) = ha_Host h)"

lemma registry_invI:
  "(\<And>h k. owner h r = Some k \<longleftrightarrow> h \<in> host_keys (item_hosts k r)) \<Longrightarrow>
   (\<And>h i. hosts r h = Some i \<Longrightarrow> good_auth (hi_auth i)) \<Longrightarrow> registry_inv r"
  by (auto simp: registry_inv_def ran_def)

lemma registry_inv_owner:
  "registry_inv r \<Longrightarrow> owner h r = Some k \<longleftrightarrow> h \<in> host_keys (item_hosts k r)"
  by (simp add: registry_inv_def)

lemma registry_inv_auth: "registry_inv r \<Longrightarrow> hosts r h = Some i \<Longrightarrow> good_auth (hi_auth i)"
  by (auto simp: registry_inv_def ran_def)

lemma host_keys_simps [simp]:
  "host_keys [] = {}" "host_keys (h # hs) = insert (trimPort (ha_Host h)) (host_keys hs)"
  by (simp_all add: host_keys_def)

lemma item_hosts_simps [simp]:
  "item_hosts k (r\<lparr>items := (items r)(k' := v), hosts := m\<rparr>) =
     (if k = k' then (case v of None \<Rightarrow> [] | Some i \<Rightarrow> ref_hosts i) else item_hosts k r)"
  "item_hosts k (r\<lparr>items := (items r)(k' := v)\<rparr>) =
     (if k = k' then (case v of None \<Rightarrow> [] | Some i \<Rightarrow> ref_hosts i) else item_hosts k r)"
  "item_hosts k (r\<lparr>hosts := m, items := (items r)(k' := v)\<rparr>) =
     (if k = k' then (case v of None \<Rightarrow> [] | Some i \<Rightarrow> ref_hosts i) else item_hosts k r)"
  by (simp_all add: item_hosts_def)

lemma registry_inv_newRegistry [simp]: "registry_inv newRegistry"
  by (rule registry_invI) (simp_all add: newRegistry_def owner_def item_hosts_def)

lemma fold_delete:
  "fold (\<lambda>h m. m(f h := None)) hs m k = (if k \<in> f ` set hs then None else m k)"
  by (induction hs arbitrary: m) auto

lemma assign_hosts_simps [simp]:
  "assign_hosts u [] m = m"
  "assign_hosts u (h # hs) m =
     assign_hosts u hs (m(trimPort (ha_Host h) \<mapsto> \<lparr>hi_identifier = u, hi_auth = ha_Auth h\<rparr>))"
  by (simp_all add: assign_hosts_def)

lemma assign_hosts_map:
  "assign_hosts u hs m =
     m ++ map_of (rev (map (\<lambda>h. (trimPort (ha_Host h), \<lparr>hi_identifier = u, hi_auth = ha_Auth h\<rparr>)) hs))"
proof (induction hs arbitrary: m)
  case (Cons h hs)
  show ?case by (simp add: Cons map_add_def fun_eq_iff split: option.split)
qed simp

lemma assign_hosts_other: "k \<notin> host_keys hs \<Longrightarrow> assign_hosts u hs m k = m k"
  by (induction hs arbitrary: m) simp_all

lemma assign_hosts_some:
  "k \<in> host_keys hs \<Longrightarrow>
   \<exists>h \<in> set hs. trimPort (ha_Host h) = k \<and>
     assign_hosts u hs m k = Some \<lparr>hi_identifier = u, hi_auth = ha_Auth h\<rparr>"
proof (induction hs arbitrary: m)
  case (Cons h hs)
  show ?case
  proof (cases "k \<in> host_keys hs")
    case True
    from Cons.IH [OF this] show ?thesis by simp
  next
    case False
    with Cons.prems show ?thesis by (simp add: assign_hosts_other)
  qed
qed simp

lemma owner_assign_hosts:
  "map_option hi_identifier (assign_hosts u hs m k) =
     (if k \<in> host_keys hs then Some u else map_option hi_identifier (m k))"
  using assign_hosts_some [of k hs u m] by (auto simp: assign_hosts_other)

lemma assign_hosts_distinct:
  "distinct (map (\<lambda>h. trimPort (ha_Host h)) hs) \<Longrightarrow> h \<in> set hs \<Longrightarrow>
   assign_hosts u hs m (trimPort (ha_Host h)) = Some \<lparr>hi_identifier = u, hi_auth = ha_Auth h\<rparr>"
proof (induction hs arbitrary: m)
  case (Cons g hs)
  then show ?case
    by (auto simp: assign_hosts_other host_keys_def)
qed simp

lemma check_hosts_None_iff:
  "check_hosts hs m = None \<longleftrightarrow>
     (\<forall>h \<in> set hs. good_auth (ha_Auth h) \<and> m (trimPort (ha_Host h)) = None)"
  by (induction hs) (auto simp: good_auth_def split: option.splits)

lemma set_item_cases:
  obtains e where "set_item i k r = (Some e, r)"
      "\<not> (items r k = Some VoidItem \<and> check_hosts (Hosts i) (hosts r) = None)"
  | "set_item i k r =
       (None, r\<lparr>hosts := assign_hosts k (Hosts i) (hosts r), items := (items r)(k \<mapsto> Item i)\<rparr>)"
    "items r k = Some VoidItem" "check_hosts (Hosts i) (hosts r) = None"
  by (cases "items r k"; cases "the (items r k)"; cases "check_hosts (Hosts i) (hosts r)")
     (auto simp: set_item_def)

lemma Subscribe_views [simp]:
  "item_hosts k' (Subscribe k r) = item_hosts k' r"
  "hosts (Subscribe k r) = hosts r"
  "owner h (Subscribe k r) = owner h r"
  by (auto simp: Subscribe_def item_hosts_def owner_def)

lemma registry_inv_Subscribe [simp]: "registry_inv (Subscribe k r) = registry_inv r"
  by (simp add: registry_inv_def)

lemma registry_inv_set_item:
  assumes "registry_inv r"
  shows "registry_inv (snd (set_item i k r))"
proof (cases rule: set_item_cases [of i k r])
  case (1 e)
  with assms show ?thesis by simp
next
  case 2
  let ?r = "r\<lparr>hosts := assign_hosts k (Hosts i) (hosts r), items := (items r)(k \<mapsto> Item i)\<rparr>"
  have free: "owner h r = None \<and> good_auth (ha_Auth a)"
    if "a \<in> set (Hosts i)" "h = trimPort (ha_Host a)" for a h
    using 2(3) that by (auto simp: check_hosts_None_iff owner_def)
  have mine: "owner h r \<noteq> Some k" for h
    using registry_inv_owner [OF assms, of h k] 2(2) by (simp add: item_hosts_def)
  have own: "owner h ?r = (if h \<in> host_keys (Hosts i) then Some k else owner h r)" for h
    by (simp add: owner_def owner_assign_hosts)
  have "registry_inv ?r"
  proof (rule registry_invI)
    fix h k'
    show "owner h ?r = Some k' \<longleftrightarrow> h \<in> host_keys (item_hosts k' ?r)"
      using free mine [of h] registry_inv_owner [OF assms, of h k']
      by (auto simp: own host_keys_def)
  next
    fix h j
    assume "hosts ?r h = Some j"
    then show "good_auth (hi_auth j)"
      using free assign_hosts_some [of h "Hosts i" k "hosts r"] registry_inv_auth [OF assms, of h j]
      by (cases "h \<in> host_keys (Hosts i)") (auto simp: assign_hosts_other)
  qed
  with 2 show ?thesis by simp
qed

lemma clear_hosts:
  "hosts (snd (clear k r)) h =
     (if h \<in> host_keys (item_hosts k r) then None else hosts r h)"
  by (auto simp: clear_def item_hosts_def fold_delete host_keys_def split: option.split item_ref.split)

lemma clear_item_hosts:
  "item_hosts k' (snd (clear k r)) = (if k' = k then [] else item_hosts k' r)"
  by (auto simp: clear_def item_hosts_def split: option.split item_ref.split)

lemma Unsubscribe_hosts:
  "hosts (snd (Unsubscribe k r)) h =
     (if h \<in> ha_Host ` set (item_hosts k r) then None else hosts r h)"
  by (auto simp: Unsubscribe_def item_hosts_def fold_delete split: option.split)

lemma Unsubscribe_item_hosts:
  "item_hosts k' (snd (Unsubscribe k r)) = (if k' = k then [] else item_hosts k' r)"
  by (auto simp: Unsubscribe_def item_hosts_def split: option.split)

lemma registry_inv_remove:
  assumes inv: "registry_inv r"
    and hosts: "\<And>h. hosts r' h = (if h \<in> host_keys (item_hosts k r) then None else hosts r h)"
    and items: "\<And>k'. item_hosts k' r' = (if k' = k then [] else item_hosts k' r)"
  shows "registry_inv r'"
proof (rule registry_invI)
  fix h k'
  show "owner h r' = Some k' \<longleftrightarrow> h \<in> host_keys (item_hosts k' r')"
    using registry_inv_owner [OF inv, of h k'] registry_inv_owner [OF inv, of h k]
    by (auto simp: owner_def hosts items)
next
  fix h i
  assume "hosts r' h = Some i"
  then show "good_auth (hi_auth i)"
    using registry_inv_auth [OF inv] by (auto simp: hosts split: if_splits)
qed

lemma registry_inv_clear: "registry_inv r \<Longrightarrow> registry_inv (snd (clear k r))"
  by (erule registry_inv_remove) (simp_all add: clear_hosts clear_item_hosts)

lemma trimmed_keys:
  "trimmed_hosts r \<Longrightarrow> ha_Host ` set (item_hosts k r) = host_keys (item_hosts k r)"
  by (auto simp: trimmed_hosts_def host_keys_def image_iff)

lemma registry_inv_Unsubscribe:
  "registry_inv r \<Longrightarrow> trimmed_hosts r \<Longrightarrow> registry_inv (snd (Unsubscribe k r))"
  by (erule registry_inv_remove [where k = k])
     (simp_all add: Unsubscribe_hosts Unsubscribe_item_hosts trimmed_keys)


section \<open>The registry as a routing table\<close>

text \<open>
  What the registry promises the server, without its items: a table from hosts to clients. A client
  is given hosts all together or not at all, nobody loses a host to somebody else, and releasing a
  client removes its hosts and no others.
\<close>

locale host_table =
  fixes inv :: "'r \<Rightarrow> bool"
    and lookup :: "'r \<Rightarrow> 'h \<Rightarrow> ('k \<times> 'a) option"
    and wanted :: "'i \<Rightarrow> 'h set"
    and assign :: "'i \<Rightarrow> 'k \<Rightarrow> 'r \<Rightarrow> 'r option"
    and release :: "'k \<Rightarrow> 'r \<Rightarrow> 'r"
  assumes inv_assign: "inv r \<Longrightarrow> assign i k r = Some r' \<Longrightarrow> inv r'"
    and inv_release: "inv r \<Longrightarrow> inv (release k r)"
    and assign_new: "inv r \<Longrightarrow> assign i k r = Some r' \<Longrightarrow> h \<in> wanted i \<Longrightarrow>
      lookup r h = None \<and> (\<exists>a. lookup r' h = Some (k, a))"
    and assign_other: "inv r \<Longrightarrow> assign i k r = Some r' \<Longrightarrow> h \<notin> wanted i \<Longrightarrow> lookup r' h = lookup r h"
    and assign_idle: "inv r \<Longrightarrow> assign i k r = Some r' \<Longrightarrow> lookup r h \<noteq> Some (k, a)"
    and lookup_release: "inv r \<Longrightarrow>
      lookup (release k r) h =
        (case lookup r h of None \<Rightarrow> None | Some (k', a) \<Rightarrow> if k' = k then None else Some (k', a))"
begin

lemma assign_keeps: "inv r \<Longrightarrow> assign i k r = Some r' \<Longrightarrow> lookup r h = Some v \<Longrightarrow> lookup r' h = Some v"
  using assign_new [of r i k r' h] assign_other [of r i k r' h] by (cases "h \<in> wanted i") auto

lemma release_keeps:
  "inv r \<Longrightarrow> lookup r h = Some (k', a) \<Longrightarrow> k' \<noteq> k \<Longrightarrow> lookup (release k r) h = Some (k', a)"
  by (simp add: lookup_release)

lemma release_gone: "inv r \<Longrightarrow> lookup (release k r) h \<noteq> Some (k, a)"
  by (simp add: lookup_release split: option.split prod.split)

lemma release_assign:
  assumes "inv r" and "assign i k r = Some r'"
  shows "lookup (release k r') = lookup r"
proof
  fix h
  have "inv r'" using assms by (rule inv_assign)
  then show "lookup (release k r') h = lookup r h"
    using assign_new [OF assms, of h] assign_other [OF assms, of h] assign_idle [OF assms, of h]
    by (cases "h \<in> wanted i") (auto simp: lookup_release split: option.split)
qed

lemma release_commute:
  "inv r \<Longrightarrow> lookup (release k (release k' r)) = lookup (release k' (release k r))"
  by (rule ext) (simp add: lookup_release inv_release split: option.split prod.split)

lemma blocked: "inv r \<Longrightarrow> h \<in> wanted i \<Longrightarrow> lookup r h = Some v \<Longrightarrow> assign i k r = None"
  using assign_new [of r i k _ h] by (cases "assign i k r") auto

end

definition routes :: "'l registry \<Rightarrow> string \<Rightarrow> (ident \<times> auth option) option" where
  "routes r h = map_option (\<lambda>i. (hi_identifier i, hi_auth i)) (hosts r h)"

definition assign_item :: "'l registry_item \<Rightarrow> ident \<Rightarrow> 'l registry \<Rightarrow> 'l registry option" where
  "assign_item i k r = (case set_item i k r of (None, r') \<Rightarrow> Some r' | (Some e, r') \<Rightarrow> None)"

lemma assign_item_cases:
  "assign_item i k r = Some r' \<longleftrightarrow> set_item i k r = (None, r')"
  by (auto simp: assign_item_def split: prod.split option.split)

lemma set_item_NoneD:
  assumes "set_item i k r = (None, r')"
  shows "items r k = Some VoidItem" and "check_hosts (Hosts i) (hosts r) = None"
    and "r' = r\<lparr>hosts := assign_hosts k (Hosts i) (hosts r), items := (items r)(k \<mapsto> Item i)\<rparr>"
  using assms by (cases rule: set_item_cases [of i k r]; simp)+

lemma set_item_fst_None:
  assumes "fst (set_item i k r) = None"
  shows "items r k = Some VoidItem" and "check_hosts (Hosts i) (hosts r) = None"
    and "snd (set_item i k r) =
      r\<lparr>hosts := assign_hosts k (Hosts i) (hosts r), items := (items r)(k \<mapsto> Item i)\<rparr>"
  using set_item_NoneD [of i k r "snd (set_item i k r)"] assms by (simp_all add: prod_eq_iff)

lemma routes_owner: "owner h r = map_option fst (routes r h)"
  by (cases "hosts r h") (simp_all add: routes_def owner_def)

lemma routes_SomeD: "routes r h = Some (k, a) \<Longrightarrow> owner h r = Some k"
  by (simp add: routes_owner)

lemma Subscriber_routes: "Subscriber h r = routes r (trimPort h)"
  by (simp add: Subscriber_def routes_def split: option.split)

interpretation routing: host_table registry_inv routes "\<lambda>i. host_keys (Hosts i)" assign_item "\<lambda>k r. snd (clear k r)"
proof (rule host_table.intro)
  fix r :: "'a registry" and i k r' and h
  assume inv: "registry_inv r" and "assign_item i k r = Some r'"
  then have s: "set_item i k r = (None, r')" by (simp add: assign_item_cases)
  show "registry_inv r'" using registry_inv_set_item [OF inv, of i k] by (simp add: s)
  show "routes r h = None \<and> (\<exists>a. routes r' h = Some (k, a))" if "h \<in> host_keys (Hosts i)"
    using that set_item_NoneD [OF s] assign_hosts_some [OF that, of k "hosts r"]
    by (auto simp: check_hosts_None_iff routes_def host_keys_def)
  show "routes r' h = routes r h" if "h \<notin> host_keys (Hosts i)"
    using that set_item_NoneD [OF s] by (simp add: routes_def assign_hosts_other)
  show "routes r h \<noteq> Some (k, a)" for a
    using registry_inv_owner [OF inv, of h k] set_item_NoneD(1) [OF s]
    by (auto dest: routes_SomeD simp: item_hosts_def)
next
  fix r :: "'a registry" and k and h
  assume inv: "registry_inv r"
  show "registry_inv (snd (clear k r))" using inv by (rule registry_inv_clear)
  show "routes (snd (clear k r)) h =
      (case routes r h of None \<Rightarrow> None | Some (k', a) \<Rightarrow> if k' = k then None else Some (k', a))"
    using registry_inv_owner [OF inv, of h k]
    by (auto simp: routes_def clear_hosts owner_def split: option.split)
qed


section \<open>What the operations promise\<close>

text \<open>
  C21. A client is given its hosts all together or not at all: \<open>set\<close> succeeds exactly when the client is
  subscribed and idle, every credential has a user and none of the hosts is taken. Then the item is stored, and
  each of its hosts, without its port, leads to the client with the credential of that host, the last one where two
  hosts differ only in the port; no other host changes. In every other case nothing changes.
\<close>

theorem set_item_spec:
  "(fst (set_item i k r) = None \<longleftrightarrow>
      items r k = Some VoidItem \<and>
      (\<forall>h \<in> set (Hosts i). good_auth (ha_Auth h) \<and> hosts r (trimPort (ha_Host h)) = None)) \<and>
   snd (set_item i k r) =
     (if fst (set_item i k r) = None
      then r\<lparr>hosts := hosts r ++ map_of (rev (map (\<lambda>h.
               (trimPort (ha_Host h), \<lparr>hi_identifier = k, hi_auth = ha_Auth h\<rparr>)) (Hosts i))),
             items := (items r)(k \<mapsto> Item i)\<rparr>
      else r)"
  unfolding check_hosts_None_iff [symmetric] assign_hosts_map [symmetric]
  by (cases rule: set_item_cases [of i k r]) (simp_all (no_asm_simp))

lemma set_item_spec_witness:
  "snd (set_item \<lparr>Hosts = [], Listeners = [1 :: nat]\<rparr> zero_ident newRegistry) = newRegistry"
  using set_item_spec [of "\<lparr>Hosts = [], Listeners = [1 :: nat]\<rparr>" zero_ident newRegistry]
  by (simp add: newRegistry_def)

text \<open>
  After a successful \<open>set\<close> a request for any of the item's hosts, under any port, is led to this
  client with the credential the host was registered with, provided no two hosts of the item are the
  same without their ports.
\<close>

theorem Subscriber_set_item:
  assumes "fst (set_item i k r) = None"
    and "distinct (map (\<lambda>h. trimPort (ha_Host h)) (Hosts i))" and "h \<in> set (Hosts i)"
    and "trimPort host = trimPort (ha_Host h)"
  shows "Subscriber host (snd (set_item i k r)) = Some (k, ha_Auth h)"
  using set_item_fst_None(3) [OF assms(1)] assign_hosts_distinct [OF assms(2,3), of k "hosts r"] assms(4)
  by (simp add: Subscriber_def)

lemma Subscriber_set_item_witness:
  "Subscriber ''a.b'' (snd (set_item \<lparr>Hosts = [\<lparr>ha_Host = ''a.b'', ha_Auth = None\<rparr>], Listeners = []\<rparr>
      zero_ident (Subscribe zero_ident (newRegistry :: nat registry)))) = Some (zero_ident, None)"
proof -
  let ?h = "\<lparr>ha_Host = ''a.b'', ha_Auth = None\<rparr>"
  have "Subscriber ''a.b'' (snd (set_item \<lparr>Hosts = [?h], Listeners = []\<rparr> zero_ident
      (Subscribe zero_ident (newRegistry :: nat registry)))) = Some (zero_ident, ha_Auth ?h)"
    by (rule Subscriber_set_item) (simp_all add: set_item_def Subscribe_def newRegistry_def)
  then show ?thesis by simp
qed

text \<open>
  C22. A client that connects and goes away leaves no trace: clearing it after a successful \<open>set\<close> gives
  back the registry as it was, and hands out the item whose listeners must be closed.
\<close>

theorem clear_set_item:
  assumes "registry_inv r" and "fst (set_item i k r) = None"
  shows "clear k (snd (set_item i k r)) = (Some i, r)"
proof -
  let ?r = "snd (set_item i k r)"
  have "routes (snd (clear k ?r)) = routes r"
    using assms by (intro routing.release_assign) (simp_all add: assign_item_cases prod_eq_iff)
  then have "hosts (snd (clear k ?r)) h = hosts r h" for h
    by (auto simp: routes_def fun_eq_iff option.map_id dest!: spec [of _ h]
        intro: option.expand host_info.equality elim: option.inj_map_strong [rotated])
  then have "hosts (snd (clear k ?r)) = hosts r" by (rule ext)
  with set_item_fst_None [OF assms(2)] show ?thesis by (auto simp: clear_def map_upd_triv)
qed

lemma clear_set_item_witness:
  "clear zero_ident (snd (set_item \<lparr>Hosts = [\<lparr>ha_Host = ''a.b'', ha_Auth = None\<rparr>], Listeners = [1 :: nat]\<rparr>
      zero_ident (Subscribe zero_ident newRegistry))) =
   (Some \<lparr>Hosts = [\<lparr>ha_Host = ''a.b'', ha_Auth = None\<rparr>], Listeners = [1]\<rparr>, Subscribe zero_ident newRegistry)"
proof (rule clear_set_item)
  show "registry_inv (Subscribe zero_ident newRegistry)" by simp
  show "fst (set_item \<lparr>Hosts = [\<lparr>ha_Host = ''a.b'', ha_Auth = None\<rparr>], Listeners = [1 :: nat]\<rparr>
      zero_ident (Subscribe zero_ident newRegistry)) = None"
    by (simp add: set_item_def Subscribe_def newRegistry_def)
qed


section \<open>Sequences of operations\<close>

text \<open>
  The operations the server applies, in any order and by any goroutine: each holds the mutex, so a
  history of the registry is a list of operations. A \<open>good_op\<close> keeps the invariant: an \<open>Unsubscribe\<close>
  must find only hosts that are their own trimmed form.
\<close>

datatype 'l registry_op =
    OpSubscribe ident
  | OpUnsubscribe ident
  | OpSet "'l registry_item" ident
  | OpClear ident

fun apply_op :: "'l registry_op \<Rightarrow> 'l registry \<Rightarrow> 'l registry" where
  "apply_op (OpSubscribe k) r = Subscribe k r"
| "apply_op (OpUnsubscribe k) r = snd (Unsubscribe k r)"
| "apply_op (OpSet i k) r = snd (set_item i k r)"
| "apply_op (OpClear k) r = snd (clear k r)"

fun trimmed_op :: "'l registry_op \<Rightarrow> bool" where
  "trimmed_op (OpSet i k) = list_all (\<lambda>h. trimPort (ha_Host h) = ha_Host h) (Hosts i)"
| "trimmed_op _ = True"

inductive registry_step :: "'l registry \<Rightarrow> 'l registry_op \<Rightarrow> 'l registry \<Rightarrow> bool" where
  registry_step: "trimmed_op p \<Longrightarrow> registry_step r p (apply_op p r)"

inductive_cases registry_stepE [elim!]: "registry_step r p r'"

lemma set_item_item_hosts:
  "item_hosts k' (snd (set_item i k r)) =
     (if k' = k \<and> fst (set_item i k r) = None then Hosts i else item_hosts k' r)"
  by (cases rule: set_item_cases [of i k r]) (auto simp: item_hosts_def)

lemma trimmed_hosts_apply_op:
  "trimmed_hosts r \<Longrightarrow> trimmed_op p \<Longrightarrow> trimmed_hosts (apply_op p r)"
  by (cases p)
     (auto simp: trimmed_hosts_def clear_item_hosts Unsubscribe_item_hosts set_item_item_hosts list_all_iff)

lemma trimmed_hosts_Subscribe [simp]: "trimmed_hosts (Subscribe k r) = trimmed_hosts r"
  by (simp add: trimmed_hosts_def)

lemma trimmed_hosts_newRegistry [simp]: "trimmed_hosts newRegistry"
  by (simp add: trimmed_hosts_def newRegistry_def item_hosts_def)

lemma registry_inv_apply_op:
  "registry_inv r \<Longrightarrow> trimmed_hosts r \<Longrightarrow> registry_inv (apply_op p r)"
  by (cases p) (simp_all add: registry_inv_set_item registry_inv_clear registry_inv_Unsubscribe)

interpretation registry_machine: invariant_machine "\<lambda>r. r = newRegistry" registry_step
    "\<lambda>r. registry_inv r \<and> trimmed_hosts r"
proof (rule invariant_machine.intro)
  fix r :: "'a registry"
  show "r = newRegistry \<Longrightarrow> registry_inv r \<and> trimmed_hosts r" by simp
next
  fix r p and r' :: "'a registry"
  show "registry_inv r \<and> trimmed_hosts r \<Longrightarrow> registry_step r p r' \<Longrightarrow> registry_inv r' \<and> trimmed_hosts r'"
    by (auto intro: registry_inv_apply_op trimmed_hosts_apply_op)
qed

lemma run_registry: "list_all trimmed_op ps \<Longrightarrow> run registry_step r ps (fold apply_op ps r)"
  by (induction ps arbitrary: r) (auto intro: run.intros registry_step.intros)

fun unsubscribes :: "'l registry_op \<Rightarrow> bool" where
  "unsubscribes (OpUnsubscribe k) = True"
| "unsubscribes _ = False"

lemma registry_inv_kept:
  "registry_inv r \<Longrightarrow> unsubscribes p \<longrightarrow> trimmed_hosts r \<Longrightarrow> registry_inv (apply_op p r)"
  by (cases p) (simp_all add: registry_inv_set_item registry_inv_clear registry_inv_Unsubscribe)

lemma registry_inv_fold:
  "registry_inv r \<Longrightarrow> list_all (\<lambda>p. \<not> unsubscribes p) ps \<Longrightarrow> registry_inv (fold apply_op ps r)"
  by (induction ps arbitrary: r) (simp_all add: registry_inv_kept)

text \<open>
  C16. Whatever the order in which clients subscribe, register, disconnect and unsubscribe, the two maps of
  the registry agree: a host leads to a client exactly when it is one of the hosts the client holds,
  and no stored credential has an empty user. This is so for every sequence without \<open>Unsubscribe\<close>, and with
  \<open>Unsubscribe\<close> when all hosts are given without a port (see \<open>Unsubscribe_leaves_stale_hosts\<close> for the others).
\<close>

theorem registry_inv_reachable:
  assumes "list_all trimmed_op ps \<or> list_all (\<lambda>p. \<not> unsubscribes p) ps"
  shows "registry_inv (fold apply_op ps newRegistry)"
  using assms
proof
  assume "list_all trimmed_op ps"
  with registry_machine.inv_reachable [OF refl run_registry [OF this]] show ?thesis by simp
next
  assume "list_all (\<lambda>p. \<not> unsubscribes p) ps"
  then show ?thesis by (intro registry_inv_fold) simp_all
qed

lemma registry_inv_reachable_witness:
  "registry_inv (fold apply_op
     [OpSubscribe zero_ident,
      OpSet \<lparr>Hosts = [\<lparr>ha_Host = ''a.b'', ha_Auth = None\<rparr>], Listeners = [1 :: nat]\<rparr> zero_ident,
      OpUnsubscribe zero_ident] newRegistry)"
  by (rule registry_inv_reachable) (simp add: trimPort_no_colon)

fun op_client :: "'l registry_op \<Rightarrow> ident" where
  "op_client (OpSubscribe k) = k"
| "op_client (OpUnsubscribe k) = k"
| "op_client (OpSet i k) = k"
| "op_client (OpClear k) = k"

text \<open>
  C17. No operation on one client takes a host away from another: in a registry whose maps agree,
  registering, clearing or subscribing \<open>k'\<close> leaves every host of \<open>k\<close> where it
  leads, with its credential. So does unsubscribing \<open>k'\<close> when the registered hosts have no port; it deletes
  the names as they were given, and a name with a port may be the key of another client's host.
\<close>

theorem registry_isolation:
  assumes "registry_inv r" and "unsubscribes p \<longrightarrow> trimmed_hosts r"
    and "Subscriber host r = Some (k, a)" and "op_client p \<noteq> k"
  shows "Subscriber host (apply_op p r) = Some (k, a)"
proof -
  have old: "routes r (trimPort host) = Some (k, a)" using assms(3) by (simp add: Subscriber_routes)
  have "routes (apply_op p r) (trimPort host) = Some (k, a)"
  proof (cases p)
    case (OpSubscribe k')
    with old show ?thesis by (simp add: routes_def)
  next
    case (OpUnsubscribe k')
    then have "trimPort host \<notin> ha_Host ` set (item_hosts k' r)"
      using registry_inv_owner [OF assms(1), of "trimPort host" k'] routes_SomeD [OF old] assms(2,4)
      by (simp add: trimmed_keys)
    with OpUnsubscribe old show ?thesis by (simp add: routes_def Unsubscribe_hosts)
  next
    case (OpSet i k')
    with old show ?thesis
      using routing.assign_keeps [OF assms(1), of i k' "snd (set_item i k' r)" "trimPort host" "(k, a)"]
      by (cases rule: set_item_cases [of i k' r]) (simp_all add: assign_item_cases)
  next
    case (OpClear k')
    with old assms(1,4) show ?thesis by (simp add: routing.release_keeps)
  qed
  then show ?thesis by (simp add: Subscriber_routes)
qed

lemma registry_isolation_witness:
  "Subscriber ''a.b'' (apply_op (OpUnsubscribe (short_ident 2))
     (snd (set_item \<lparr>Hosts = [\<lparr>ha_Host = ''a.b'', ha_Auth = None\<rparr>], Listeners = []\<rparr> (short_ident 1)
       (Subscribe (short_ident 2) (Subscribe (short_ident 1) (newRegistry :: nat registry)))))) =
   Some (short_ident 1, None)"
proof (rule registry_isolation)
  let ?i = "\<lparr>Hosts = [\<lparr>ha_Host = ''a.b'', ha_Auth = None\<rparr>], Listeners = []\<rparr>"
  let ?r = "snd (set_item ?i (short_ident 1)
       (Subscribe (short_ident 2) (Subscribe (short_ident 1) (newRegistry :: nat registry))))"
  show "registry_inv ?r" by (simp add: registry_inv_set_item)
  show "unsubscribes (OpUnsubscribe (short_ident 2) :: nat registry_op) \<longrightarrow> trimmed_hosts ?r"
    using trimmed_hosts_apply_op [of "Subscribe (short_ident 2) (Subscribe (short_ident 1) newRegistry)"
        "OpSet ?i (short_ident 1)"]
    by (simp add: trimPort_no_colon)
  show "Subscriber ''a.b'' ?r = Some (short_ident 1, None)"
    by (simp add: set_item_def Subscribe_def newRegistry_def Subscriber_def)
  show "op_client (OpUnsubscribe (short_ident 2) :: nat registry_op) \<noteq> short_ident 1" by simp
qed

text \<open>
  \<open>Unsubscribe\<close> removes the client but not the hosts it registered with a port: such a host still
  leads to the client that is gone, and stays occupied for every other client. It happens exactly
  because the table key, the host without its port, is none of the names \<open>Unsubscribe\<close> deletes.
\<close>

theorem Unsubscribe_leaves_stale_hosts:
  assumes "registry_inv r" and "h \<in> set (item_hosts k r)"
    and "trimPort (ha_Host h) \<notin> ha_Host ` set (item_hosts k r)"
  shows "\<not> IsSubscribed k (snd (Unsubscribe k r)) \<and>
    (\<exists>a. Subscriber (ha_Host h) (snd (Unsubscribe k r)) = Some (k, a)) \<and>
    (h \<in> set (Hosts i) \<longrightarrow> fst (set_item i k' (snd (Unsubscribe k r))) \<noteq> None)"
proof -
  let ?r = "snd (Unsubscribe k r)"
  have "owner (trimPort (ha_Host h)) r = Some k"
    using assms(1,2) by (auto simp: registry_inv_owner host_keys_def)
  then obtain info where info: "hosts r (trimPort (ha_Host h)) = Some info" "hi_identifier info = k"
    by (auto simp: owner_def)
  with assms(3) have stale: "hosts ?r (trimPort (ha_Host h)) = Some info"
    by (simp add: Unsubscribe_hosts)
  have "\<not> IsSubscribed k ?r"
    by (auto simp: IsSubscribed_def Unsubscribe_def split: option.split)
  moreover have "fst (set_item i k' ?r) \<noteq> None" if "h \<in> set (Hosts i)"
  proof
    assume "fst (set_item i k' ?r) = None"
    from set_item_fst_None(2) [OF this] that stale show False by (simp add: check_hosts_None_iff)
  qed
  ultimately show ?thesis
    using stale info(2) by (simp add: Subscriber_def)
qed

lemma Unsubscribe_leaves_stale_hosts_witness:
  "\<not> IsSubscribed zero_ident (snd (Unsubscribe zero_ident
     (snd (set_item \<lparr>Hosts = [\<lparr>ha_Host = ''a.b:80'', ha_Auth = None\<rparr>], Listeners = []\<rparr> zero_ident
       (Subscribe zero_ident (newRegistry :: nat registry))))))"
proof -
  let ?h = "\<lparr>ha_Host = ''a.b:80'', ha_Auth = None\<rparr>"
  let ?r = "snd (set_item \<lparr>Hosts = [?h], Listeners = []\<rparr> zero_ident
       (Subscribe zero_ident (newRegistry :: nat registry)))"
  have r: "item_hosts zero_ident ?r = [?h]"
    by (simp add: set_item_def Subscribe_def newRegistry_def item_hosts_def)
  have "trimPort ''a.b:80'' = ''a.b''"
    using trimPort_port [of "''a.b''" "''80''"] by (simp add: plain_def)
  then show ?thesis
    using Unsubscribe_leaves_stale_hosts [of ?r ?h zero_ident] by (simp add: registry_inv_set_item r)
qed

end
