(* ===== verification/Conn_Pool.thy ===== *)
theory Conn_Pool
  imports Ident
begin

text \<open>
  The pool of client connections (\<open>pool.go\<close>): one HTTP/2 connection per client, found by the host and
  port of the URL that stands for the client. Closing an entry closes the network connection and
  calls \<open>free\<close>, by which the server clears the client's resources.
\<close>

section \<open>State\<close>

text \<open>
  \<open>'c\<close> is a network connection, \<open>'d\<close> an HTTP/2 client connection and \<open>'w\<close> the state outside of the
  pool, which closing a connection and \<open>free\<close> change. What the pool asks of \<open>golang.org/x/net/http2\<close>
  and of \<open>net.Conn\<close> is the record \<open>http2_env\<close>, given anew at every call, because the answers of the
  network change.
\<close>

record ('c, 'd, 'w) http2_env =
  NewClientConn :: "'c \<Rightarrow> go_error + 'd"
  PingConn :: "'d \<Rightarrow> go_error option"
  CanTakeNewRequest :: "'d \<Rightarrow> bool"
  CloseConn :: "'c \<Rightarrow> 'w \<Rightarrow> 'w"
  Elapsed :: int

record ('c, 'd) conn_pair =
  cp_conn :: 'c
  clientConn :: 'd

record ('c, 'd, 'w) conn_pool =
  conns :: "string \<rightharpoonup> ('c, 'd) conn_pair"
  free :: "(ident \<Rightarrow> 'w \<Rightarrow> 'w) option"

definition newConnPool :: "(ident \<Rightarrow> 'w \<Rightarrow> 'w) option \<Rightarrow> ('c, 'd, 'w) conn_pool" where
  "newConnPool f = \<lparr>conns = (\<lambda>_. None), free = f\<rparr>"


section \<open>Operations\<close>

definition pool_URL :: "ident \<Rightarrow> string" where
  "pool_URL identifier = ''https://'' @ ident_text identifier"

definition pool_addr :: "ident \<Rightarrow> string" where
  "pool_addr identifier = ident_text identifier @ '':443''"

definition pool_identifier :: "string \<Rightarrow> ident" where
  "pool_identifier addr =
     (case UnmarshalText zero_ident (take (length addr - 4) addr) of
        Inl e \<Rightarrow> zero_ident
      | Inr i \<Rightarrow> i)"

definition GetClientConn ::
  "('c, 'd, 'w) http2_env \<Rightarrow> string \<Rightarrow> ('c, 'd, 'w) conn_pool \<Rightarrow> go_error + 'd" where
  "GetClientConn env addr p =
     (case conns p addr of
        None \<Rightarrow> Inl ErrClientNotConnected
      | Some cp \<Rightarrow>
          if CanTakeNewRequest env (clientConn cp) then Inr (clientConn cp)
          else Inl ErrClientNotConnected)"

definition pool_close ::
  "('c, 'd, 'w) http2_env \<Rightarrow> ('c, 'd) conn_pair \<Rightarrow> string \<Rightarrow>
   ('c, 'd, 'w) conn_pool \<times> 'w \<Rightarrow> ('c, 'd, 'w) conn_pool \<times> 'w" where
  "pool_close env cp addr = (\<lambda>(p, w).
     let w = CloseConn env (cp_conn cp) w;
         p = p\<lparr>conns := (conns p)(addr := None)\<rparr>
     in (p, case free p of None \<Rightarrow> w | Some f \<Rightarrow> f (pool_identifier addr) w))"

text \<open>Go ranges over the map in an order of its own: \<open>ks\<close> are the keys in that order.\<close>

fun MarkDead_loop ::
  "('c, 'd, 'w) http2_env \<Rightarrow> 'd \<Rightarrow> string list \<Rightarrow>
   ('c, 'd, 'w) conn_pool \<times> 'w \<Rightarrow> ('c, 'd, 'w) conn_pool \<times> 'w" where
  "MarkDead_loop env c [] (p, w) = (p, w)"
| "MarkDead_loop env c (addr # ks) (p, w) =
     (case conns p addr of
        None \<Rightarrow> MarkDead_loop env c ks (p, w)
      | Some cp \<Rightarrow>
          if clientConn cp = c then pool_close env cp addr (p, w)
          else MarkDead_loop env c ks (p, w))"

definition MarkDead ::
  "('c, 'd, 'w) http2_env \<Rightarrow> string list \<Rightarrow> 'd \<Rightarrow>
   ('c, 'd, 'w) conn_pool \<times> 'w \<Rightarrow> ('c, 'd, 'w) conn_pool \<times> 'w" where
  "MarkDead env ks c = MarkDead_loop env c ks"

definition ping :: "('c, 'd, 'w) http2_env \<Rightarrow> ('c, 'd) conn_pair \<Rightarrow> go_error option" where
  "ping env cp = PingConn env (clientConn cp)"

definition AddConn ::
  "('c, 'd, 'w) http2_env \<Rightarrow> 'c \<Rightarrow> ident \<Rightarrow>
   ('c, 'd, 'w) conn_pool \<times> 'w \<Rightarrow> go_error option \<times> ('c, 'd, 'w) conn_pool \<times> 'w" where
  "AddConn env conn identifier = (\<lambda>(p, w).
     let addr = pool_addr identifier;
         add = (\<lambda>(p, w).
           case NewClientConn env conn of
             Inl err \<Rightarrow> (Some err, p, w)
           | Inr c \<Rightarrow> (None, p\<lparr>conns := (conns p)(addr \<mapsto> \<lparr>cp_conn = conn, clientConn = c\<rparr>)\<rparr>, w))
     in case conns p addr of
          None \<Rightarrow> add (p, w)
        | Some cp \<Rightarrow>
            (case ping env cp of
               Some err \<Rightarrow> add (pool_close env cp addr (p, w))
             | None \<Rightarrow> (Some ErrClientAlreadyConnected, p, w)))"

definition DeleteConn ::
  "('c, 'd, 'w) http2_env \<Rightarrow> ident \<Rightarrow>
   ('c, 'd, 'w) conn_pool \<times> 'w \<Rightarrow> ('c, 'd, 'w) conn_pool \<times> 'w" where
  "DeleteConn env identifier = (\<lambda>(p, w).
     let addr = pool_addr identifier in
     case conns p addr of
       None \<Rightarrow> (p, w)
     | Some cp \<Rightarrow> pool_close env cp addr (p, w))"

definition pool_Ping ::
  "('c, 'd, 'w) http2_env \<Rightarrow> ident \<Rightarrow> ('c, 'd, 'w) conn_pool \<Rightarrow> int \<times> go_error option" where
  "pool_Ping env identifier p =
     (case conns p (pool_addr identifier) of
        Some cp \<Rightarrow> (Elapsed env, ping env cp)
      | None \<Rightarrow> (0, Some ErrClientNotConnected))"


section \<open>Addresses\<close>

lemma pool_addr_inject [simp]: "pool_addr i = pool_addr j \<longleftrightarrow> i = j"
  by (simp add: pool_addr_def ident_codec.text_of_inject)

lemma pool_identifier_addr [simp]: "pool_identifier (pool_addr i) = i"
  by (simp add: pool_identifier_def pool_addr_def ident_codec.parse_text_of)

text \<open>
  In a good pool every key is the address of a client, and an HTTP/2 connection occurs only once,
  because \<open>NewClientConn\<close> makes a new one for every entry.
\<close>

definition session_conn :: "ident \<Rightarrow> ('c, 'd, 'w) conn_pool \<Rightarrow> ('c, 'd) conn_pair option" where
  "session_conn i p = conns p (pool_addr i)"

definition pool_inv :: "('c, 'd, 'w) conn_pool \<Rightarrow> bool" where
  "pool_inv p \<longleftrightarrow>
     dom (conns p) \<subseteq> range pool_addr \<and>
     (\<forall>i j cp cq. session_conn i p = Some cp \<longrightarrow> session_conn j p = Some cq \<longrightarrow>
        clientConn cp = clientConn cq \<longrightarrow> i = j)"

definition fresh_conn :: "('c, 'd, 'w) http2_env \<Rightarrow> 'c \<Rightarrow> ('c, 'd, 'w) conn_pool \<Rightarrow> bool" where
  "fresh_conn env conn p \<longleftrightarrow>
     (\<forall>d. NewClientConn env conn = Inr d \<longrightarrow> (\<forall>i cp. session_conn i p = Some cp \<longrightarrow> clientConn cp \<noteq> d))"

lemma pool_inv_newConnPool [simp]: "pool_inv (newConnPool f)"
  by (simp add: pool_inv_def newConnPool_def session_conn_def)

lemma pool_inv_unique:
  "pool_inv p \<Longrightarrow> session_conn i p = Some cp \<Longrightarrow> session_conn j p = Some cq \<Longrightarrow>
   clientConn cp = clientConn cq \<Longrightarrow> i = j"
  by (auto simp: pool_inv_def)


section \<open>Closing an entry\<close>

definition freed :: "('c, 'd, 'w) conn_pool \<Rightarrow> ident \<Rightarrow> 'w \<Rightarrow> 'w" where
  "freed p i w = (case free p of None \<Rightarrow> w | Some f \<Rightarrow> f i w)"

lemma pool_close_addr:
  "pool_close env cp (pool_addr i) (p, w) =
     (p\<lparr>conns := (conns p)(pool_addr i := None)\<rparr>, freed p i (CloseConn env (cp_conn cp) w))"
  by (simp add: pool_close_def freed_def Let_def split: option.split)

lemma DeleteConn_eq:
  "DeleteConn env i (p, w) =
     (case session_conn i p of
        None \<Rightarrow> (p, w)
      | Some cp \<Rightarrow> (p\<lparr>conns := (conns p)(pool_addr i := None)\<rparr>, freed p i (CloseConn env (cp_conn cp) w)))"
  by (simp add: DeleteConn_def session_conn_def pool_close_addr split: option.split)

lemma session_conn_upd [simp]:
  "session_conn i (p\<lparr>conns := (conns p)(pool_addr j := v)\<rparr>) = (if i = j then v else session_conn i p)"
  by (simp add: session_conn_def)

lemma session_DeleteConn:
  "session_conn j (fst (DeleteConn env i (p, w))) = (if j = i then None else session_conn j p)"
  by (auto simp: DeleteConn_eq split: option.split)

lemma AddConn_eq:
  "AddConn env c i (p, w) =
     (let (p', w') = (if session_conn i p = None then (p, w) else DeleteConn env i (p, w))
      in if \<exists>cp. session_conn i p = Some cp \<and> ping env cp = None
         then (Some ErrClientAlreadyConnected, p, w)
         else case NewClientConn env c of
             Inl err \<Rightarrow> (Some err, p', w')
           | Inr d \<Rightarrow> (None, p'\<lparr>conns := (conns p')(pool_addr i \<mapsto> \<lparr>cp_conn = c, clientConn = d\<rparr>)\<rparr>, w'))"
  by (auto simp: AddConn_def DeleteConn_eq pool_close_addr session_conn_def Let_def
      split: option.split sum.split)

lemma session_AddConn_other:
  "j \<noteq> i \<Longrightarrow> session_conn j (fst (snd (AddConn env c i (p, w)))) = session_conn j p"
  by (auto simp: AddConn_eq DeleteConn_eq Let_def split: option.split sum.split)

lemma session_AddConn_ok:
  "fst (AddConn env c i (p, w)) = None \<Longrightarrow>
   \<exists>d. NewClientConn env c = Inr d \<and>
     session_conn i (fst (snd (AddConn env c i (p, w)))) = Some \<lparr>cp_conn = c, clientConn = d\<rparr>"
  by (auto simp: AddConn_eq DeleteConn_eq Let_def split: if_splits option.splits sum.splits)

text \<open>
  The interface the server uses: a table of connections by client, in which adding and removing touch
  only the client named, a removed client has no connection and an added one has the new connection.
\<close>

locale session_table =
  fixes session :: "'p \<Rightarrow> 'k \<Rightarrow> 'c option"
    and add :: "'c \<Rightarrow> 'k \<Rightarrow> 'p \<Rightarrow> go_error option \<times> 'p"
    and remove :: "'k \<Rightarrow> 'p \<Rightarrow> 'p"
  assumes add_self: "add c k p = (None, p') \<Longrightarrow> session p' k = Some c"
    and add_other: "k' \<noteq> k \<Longrightarrow> session (snd (add c k p)) k' = session p k'"
    and remove_self: "session (remove k p) k = None"
    and remove_other: "k' \<noteq> k \<Longrightarrow> session (remove k p) k' = session p k'"
begin

lemma remove_add: "session (remove k (snd (add c k p))) = session (remove k p)"
  by (rule ext) (metis add_other remove_other remove_self)

lemma remove_idem: "session (remove k (remove k p)) = session (remove k p)"
  by (rule ext) (metis remove_other remove_self)

lemma add_commute:
  assumes "k \<noteq> k'"
  shows "session (snd (add c k (remove k' p))) k' = None"
  using assms by (simp add: add_other remove_self)

lemma connected_add: "add c k p = (None, p') \<Longrightarrow> session p k' = Some c' \<Longrightarrow> session p' k' \<noteq> None"
  by (metis add_other add_self option.distinct(1) snd_conv)

end

definition session_of :: "('c, 'd, 'w) conn_pool \<times> 'w \<Rightarrow> ident \<Rightarrow> 'c option" where
  "session_of s i = map_option cp_conn (session_conn i (fst s))"

lemma session_of_simps [simp]: "session_of (p, w) i = map_option cp_conn (session_conn i p)"
  by (simp add: session_of_def)

interpretation sessions: session_table session_of "AddConn env" "DeleteConn env"
proof (rule session_table.intro)
  fix c k and s s' :: "('a, 'b, 'c) conn_pool \<times> 'c" and k'
  obtain p w where s: "s = (p, w)" by (cases s)
  show "session_of s' k = Some c" if "AddConn env c k s = (None, s')"
    using session_AddConn_ok [of env c k p w] that by (auto simp: s session_of_def)
  show "session_of (snd (AddConn env c k s)) k' = session_of s k'" if "k' \<noteq> k"
    using session_AddConn_other [OF that, of env c p w] by (simp add: s session_of_def)
  show "session_of (DeleteConn env k s) k = None"
    using session_DeleteConn [of k env k p w] by (simp add: s session_of_def)
  show "session_of (DeleteConn env k s) k' = session_of s k'" if "k' \<noteq> k"
    using that session_DeleteConn [of k' env k p w] by (simp add: s session_of_def)
qed


section \<open>What the pool promises\<close>

text \<open>
  C36. A client has at most one live connection, and the pool never replaces one that answers a ping:
  \<open>AddConn\<close> then fails with \<open>errClientAlreadyConnected\<close> and changes nothing. A connection that no
  longer answers is closed, and the resources of exactly this client are freed, before the new
  connection is tried; the old entry is gone even when the new one fails.
\<close>

theorem AddConn_existing:
  assumes "session_conn i p = Some cp"
  shows "AddConn env c i (p, w) =
    (if ping env cp = None then (Some ErrClientAlreadyConnected, p, w)
     else
       let w' = freed p i (CloseConn env (cp_conn cp) w) in
       case NewClientConn env c of
         Inl err \<Rightarrow> (Some err, p\<lparr>conns := (conns p)(pool_addr i := None)\<rparr>, w')
       | Inr d \<Rightarrow> (None, p\<lparr>conns := (conns p)(pool_addr i \<mapsto> \<lparr>cp_conn = c, clientConn = d\<rparr>)\<rparr>, w'))"
  using assms by (auto simp: AddConn_eq DeleteConn_eq Let_def split: sum.split)

definition log_env :: "(nat \<Rightarrow> go_error option) \<Rightarrow> (nat, nat, string list) http2_env" where
  "log_env pings =
     \<lparr>NewClientConn = Inr, PingConn = pings, CanTakeNewRequest = (\<lambda>_. True),
      CloseConn = (\<lambda>c w. w @ [''close'']), Elapsed = 0\<rparr>"

definition one_conn_pool :: "(nat, nat, string list) conn_pool" where
  "one_conn_pool =
     \<lparr>conns = [pool_addr zero_ident \<mapsto> \<lparr>cp_conn = 0, clientConn = 0\<rparr>],
      free = Some (\<lambda>i w. w @ [if i = zero_ident then ''free'' else ''other''])\<rparr>"

lemma AddConn_existing_witness:
  "AddConn (log_env (\<lambda>_. Some (Extern ''timeout''))) 1 zero_ident (one_conn_pool, []) =
     (None, one_conn_pool\<lparr>conns := [pool_addr zero_ident \<mapsto> \<lparr>cp_conn = 1, clientConn = 1\<rparr>]\<rparr>,
      [''close'', ''free''])"
proof -
  have s: "session_conn zero_ident one_conn_pool = Some \<lparr>cp_conn = 0, clientConn = 0\<rparr>"
    by (simp add: session_conn_def one_conn_pool_def)
  show ?thesis
    unfolding AddConn_existing [OF s]
    by (simp add: log_env_def ping_def freed_def one_conn_pool_def)
qed

text \<open>
  After a successful \<open>AddConn\<close> the transport finds the new connection under the client's address,
  as soon as it takes requests, and no other client's connection has changed.
\<close>

theorem GetClientConn_AddConn:
  assumes "fst (AddConn env c i (p, w)) = None"
  shows "GetClientConn env' (pool_addr j) (fst (snd (AddConn env c i (p, w)))) =
    (if j = i then
       (case NewClientConn env c of
          Inl err \<Rightarrow> Inl err
        | Inr d \<Rightarrow> if CanTakeNewRequest env' d then Inr d else Inl ErrClientNotConnected)
     else GetClientConn env' (pool_addr j) p)"
  using session_AddConn_ok [OF assms] session_AddConn_other [of j i env c p w]
  by (auto simp: GetClientConn_def session_conn_def)

lemma GetClientConn_AddConn_witness:
  "GetClientConn (log_env (\<lambda>_. None)) (pool_addr zero_ident)
     (fst (snd (AddConn (log_env (\<lambda>_. None)) 7 zero_ident (newConnPool None, [])))) = Inr 7"
proof -
  have ok: "fst (AddConn (log_env (\<lambda>_. None)) 7 zero_ident (newConnPool None, [])) = None"
    by (simp add: AddConn_def newConnPool_def log_env_def Let_def)
  show ?thesis
    unfolding GetClientConn_AddConn [OF ok] by (simp add: log_env_def)
qed

lemma MarkDead_loop_skip:
  "\<forall>a \<in> set ks. \<forall>cp. conns p a = Some cp \<longrightarrow> clientConn cp \<noteq> c \<Longrightarrow>
   MarkDead_loop env c (ks @ ks') (p, w) = MarkDead_loop env c ks' (p, w)"
  by (induction ks) (auto split: option.split)

lemma MarkDead_loop_none:
  "\<forall>a \<in> set ks. \<forall>cp. conns p a = Some cp \<longrightarrow> clientConn cp \<noteq> c \<Longrightarrow>
   MarkDead_loop env c ks (p, w) = (p, w)"
  using MarkDead_loop_skip [of ks p c env "[]"] by simp

text \<open>
  \<open>MarkDead\<close> does not depend on the order in which Go ranges over the map: if a client owns the dead
  connection, it does what \<open>DeleteConn\<close> does for that client, and otherwise it does nothing.
\<close>

theorem MarkDead_owner:
  assumes "pool_inv p" and "set ks = dom (conns p)"
  shows "(session_conn i p = Some cp \<longrightarrow> MarkDead env ks (clientConn cp) (p, w) = DeleteConn env i (p, w)) \<and>
    ((\<forall>j cq. session_conn j p = Some cq \<longrightarrow> clientConn cq \<noteq> d) \<longrightarrow> MarkDead env ks d (p, w) = (p, w))"
proof (intro conjI impI)
  assume own: "session_conn i p = Some cp"
  then have "pool_addr i \<in> set ks" using assms(2) by (auto simp: session_conn_def)
  then obtain ks1 ks2 where ks: "ks = ks1 @ pool_addr i # ks2" "pool_addr i \<notin> set ks1"
    by (meson split_list_first)
  have "clientConn cq \<noteq> clientConn cp" if "a \<in> set ks1" "conns p a = Some cq" for a cq
  proof
    assume eq: "clientConn cq = clientConn cp"
    from that(2) assms(1) obtain j where j: "a = pool_addr j" by (auto simp: pool_inv_def dom_def)
    with that(2) have "session_conn j p = Some cq" by (simp add: session_conn_def)
    from pool_inv_unique [OF assms(1) this own eq] j ks(2) that(1) show False by simp
  qed
  then have "\<forall>a \<in> set ks1. \<forall>cq. conns p a = Some cq \<longrightarrow> clientConn cq \<noteq> clientConn cp" by blast
  from MarkDead_loop_skip [OF this] own show "MarkDead env ks (clientConn cp) (p, w) = DeleteConn env i (p, w)"
    by (simp add: MarkDead_def ks(1) session_conn_def DeleteConn_eq pool_close_addr)
next
  assume none: "\<forall>j cq. session_conn j p = Some cq \<longrightarrow> clientConn cq \<noteq> d"
  have "clientConn cq \<noteq> d" if "conns p a = Some cq" for a cq
  proof -
    from that assms(1) obtain j where "a = pool_addr j" by (auto simp: pool_inv_def dom_def)
    with that none show ?thesis by (auto simp: session_conn_def)
  qed
  then show "MarkDead env ks d (p, w) = (p, w)"
    unfolding MarkDead_def by (intro MarkDead_loop_none) blast
qed

lemma pool_inv_one_conn_pool: "pool_inv one_conn_pool"
  by (auto simp: pool_inv_def one_conn_pool_def session_conn_def split: if_splits)

lemma MarkDead_owner_witness:
  "MarkDead (log_env (\<lambda>_. None)) [pool_addr zero_ident] 0 (one_conn_pool, []) =
     DeleteConn (log_env (\<lambda>_. None)) zero_ident (one_conn_pool, [])"
proof -
  have "set [pool_addr zero_ident] = dom (conns one_conn_pool)"
    by (simp add: one_conn_pool_def)
  from MarkDead_owner [OF pool_inv_one_conn_pool this, of zero_ident "\<lparr>cp_conn = 0, clientConn = 0\<rparr>"
      "log_env (\<lambda>_. None)" "[]" 1]
  show ?thesis by (simp add: one_conn_pool_def session_conn_def)
qed

lemma pool_inv_remove: "pool_inv p \<Longrightarrow> pool_inv (p\<lparr>conns := (conns p)(pool_addr i := None)\<rparr>)"
  by (auto simp: pool_inv_def)

lemma pool_inv_insert:
  assumes "pool_inv p" and "\<forall>j cp. session_conn j p = Some cp \<longrightarrow> clientConn cp \<noteq> d"
  shows "pool_inv (p\<lparr>conns := (conns p)(pool_addr i \<mapsto> \<lparr>cp_conn = c, clientConn = d\<rparr>)\<rparr>)"
  unfolding pool_inv_def
proof (intro conjI allI impI)
  show "dom (conns (p\<lparr>conns := (conns p)(pool_addr i \<mapsto> \<lparr>cp_conn = c, clientConn = d\<rparr>)\<rparr>)) \<subseteq> range pool_addr"
    using assms(1) by (auto simp: pool_inv_def)
  fix j k cp cq
  assume "session_conn j (p\<lparr>conns := (conns p)(pool_addr i \<mapsto> \<lparr>cp_conn = c, clientConn = d\<rparr>)\<rparr>) = Some cp"
    "session_conn k (p\<lparr>conns := (conns p)(pool_addr i \<mapsto> \<lparr>cp_conn = c, clientConn = d\<rparr>)\<rparr>) = Some cq"
    "clientConn cp = clientConn cq"
  then show "j = k"
    using assms(2) [rule_format, of j cp] assms(2) [rule_format, of k cq]
      pool_inv_unique [OF assms(1), of j cp k cq]
    by (auto split: if_splits)
qed

lemma pool_inv_DeleteConn: "pool_inv p \<Longrightarrow> pool_inv (fst (DeleteConn env i (p, w)))"
  by (simp add: DeleteConn_eq pool_inv_remove split: option.split)

lemma pool_inv_AddConn:
  assumes "pool_inv p" and "fresh_conn env c p"
  shows "pool_inv (fst (snd (AddConn env c i (p, w))))"
proof -
  obtain p' w' where pw: "(if session_conn i p = None then (p, w) else DeleteConn env i (p, w)) = (p', w')"
    by fastforce
  have "pool_inv p'" and sub: "\<forall>j cp. session_conn j p' = Some cp \<longrightarrow> session_conn j p = Some cp"
    using pw assms(1) pool_inv_DeleteConn [OF assms(1), of env i w] session_DeleteConn [of _ env i p w]
    by (auto split: if_splits)
  have "pool_inv (p'\<lparr>conns := (conns p')(pool_addr i \<mapsto> \<lparr>cp_conn = c, clientConn = d\<rparr>)\<rparr>)"
    if "NewClientConn env c = Inr d" for d
    using \<open>pool_inv p'\<close> sub assms(2) that by (intro pool_inv_insert) (auto simp: fresh_conn_def)
  with assms(1) \<open>pool_inv p'\<close> show ?thesis
    unfolding AddConn_eq pw by (simp split: sum.split)
qed

end
