(* ===== verification/Control_Msg.thy ===== *)
theory Control_Msg
  imports GoStd
begin

text \<open>
  The package \<open>proto\<close>: the control message a server writes into the headers of the requests it sends
  to a client, and the tunnel a client asks for. Beside them, the parts of \<open>http.Request\<close> and
  \<open>http.Response\<close> the program reads.
\<close>

section \<open>Requests and responses\<close>

text \<open>
  \<open>req_Body\<close> is \<open>None\<close> for Go's \<open>nil\<close> body; \<open>req_TLS\<close> says that \<open>Request.TLS\<close> is not \<open>nil\<close>. The URL
  is kept by the parts the program uses.
\<close>

record request =
  req_Method :: string
  req_Scheme :: string
  req_URLHost :: string
  req_Path :: string
  req_RawQuery :: string
  req_Host :: string
  req_RemoteAddr :: string
  req_Header :: header
  req_ContentLength :: int
  req_Body :: "string option"
  req_TLS :: bool

record response =
  resp_StatusCode :: int
  resp_Status :: string
  resp_Header :: header
  resp_ContentLength :: int
  resp_Body :: string

definition empty_request :: request where
  "empty_request = \<lparr>req_Method = [], req_Scheme = [], req_URLHost = [], req_Path = [],
     req_RawQuery = [], req_Host = [], req_RemoteAddr = [], req_Header = (\<lambda>_. None),
     req_ContentLength = 0, req_Body = None, req_TLS = False\<rparr>"


section \<open>Names of the protocol\<close>

definition HeaderError :: string where "HeaderError = ''X-Error''"
definition HeaderAction :: string where "HeaderAction = ''X-Action''"
definition HeaderForwardedHost :: string where "HeaderForwardedHost = ''X-Forwarded-Host''"
definition HeaderForwardedProto :: string where "HeaderForwardedProto = ''X-Forwarded-Proto''"

definition ActionProxy :: string where "ActionProxy = ''proxy''"

definition HTTP :: string where "HTTP = ''http''"
definition HTTPS :: string where "HTTPS = ''https''"
definition TCP :: string where "TCP = ''tcp''"
definition TCP4 :: string where "TCP4 = ''tcp4''"
definition TCP6 :: string where "TCP6 = ''tcp6''"
definition UNIX :: string where "UNIX = ''unix''"
definition SNI :: string where "SNI = ''sni''"

lemmas header_names = HeaderError_def HeaderAction_def HeaderForwardedHost_def HeaderForwardedProto_def

lemmas protocol_names = HTTP_def HTTPS_def TCP_def TCP4_def TCP6_def UNIX_def SNI_def ActionProxy_def


section \<open>ControlMessage\<close>

record control_message =
  Action :: string
  ForwardedHost :: string
  ForwardedProto :: string
  RemoteAddr :: string

definition ReadControlMessage :: "request \<Rightarrow> go_error + control_message" where
  "ReadControlMessage r =
     (let msg = \<lparr>Action = header_get (req_Header r) HeaderAction,
                 ForwardedHost = header_get (req_Header r) HeaderForwardedHost,
                 ForwardedProto = header_get (req_Header r) HeaderForwardedProto,
                 RemoteAddr = req_RemoteAddr r\<rparr>;
          missing = [];
          missing = (if Action msg = [] then missing @ [HeaderAction] else missing);
          missing = (if ForwardedHost msg = [] then missing @ [HeaderForwardedHost] else missing);
          missing = (if ForwardedProto msg = [] then missing @ [HeaderForwardedProto] else missing)
      in if length missing \<noteq> 0
         then Inl (Errorf (''missing headers: ['' @ join '' '' missing @ '']''))
         else Inr msg)"

definition WriteToHeader :: "control_message \<Rightarrow> header \<Rightarrow> header" where
  "WriteToHeader c h =
     header_set (header_set (header_set h HeaderAction (Action c))
       HeaderForwardedHost (ForwardedHost c)) HeaderForwardedProto (ForwardedProto c)"

definition ctrl_headers :: "string list" where
  "ctrl_headers = [HeaderAction, HeaderForwardedHost, HeaderForwardedProto]"

definition complete_message :: "control_message \<Rightarrow> bool" where
  "complete_message c \<longleftrightarrow> Action c \<noteq> [] \<and> ForwardedHost c \<noteq> [] \<and> ForwardedProto c \<noteq> []"

text \<open>
  Reading a control message fails exactly when a required header is absent or empty, and the error
  lists precisely the missing headers in the order action, host, protocol; otherwise the message has
  the three header values and the address of the peer.
\<close>

theorem ReadControlMessage_spec:
  "ReadControlMessage r =
     (let missing = filter (\<lambda>k. header_get (req_Header r) k = []) ctrl_headers
      in if missing = []
         then Inr \<lparr>Action = header_get (req_Header r) ''X-Action'',
                   ForwardedHost = header_get (req_Header r) ''X-Forwarded-Host'',
                   ForwardedProto = header_get (req_Header r) ''X-Forwarded-Proto'',
                   RemoteAddr = req_RemoteAddr r\<rparr>
         else Inl (Errorf (''missing headers: ['' @ join '' '' missing @ '']'')))"
  by (simp add: ReadControlMessage_def ctrl_headers_def Let_def header_names)

lemma header_get_WriteToHeader:
  "header_get (WriteToHeader c h) HeaderAction = Action c"
  "header_get (WriteToHeader c h) HeaderForwardedHost = ForwardedHost c"
  "header_get (WriteToHeader c h) HeaderForwardedProto = ForwardedProto c"
  by (simp_all add: WriteToHeader_def header_names)

lemma header_get_WriteToHeader_other:
  "canonical_key k \<notin> set ctrl_headers \<Longrightarrow> header_get (WriteToHeader c h) k = header_get h k"
  by (auto simp: WriteToHeader_def ctrl_headers_def header_names)

lemma ReadControlMessage_complete:
  "complete_message c \<Longrightarrow>
   ReadControlMessage (r\<lparr>req_Header := WriteToHeader c h\<rparr>) = Inr (c\<lparr>RemoteAddr := req_RemoteAddr r\<rparr>)"
  by (cases c) (simp add: ReadControlMessage_def header_get_WriteToHeader complete_message_def Let_def)

text \<open>
  What the server writes into the headers of a request is what the client reads from it: any complete
  message survives, whatever the headers held before, except that the address is the one the client
  sees; an incomplete message is refused by the reader.
\<close>

theorem ReadControlMessage_WriteToHeader:
  "ReadControlMessage (r\<lparr>req_Header := WriteToHeader c h\<rparr>) =
     (if complete_message c then Inr (c\<lparr>RemoteAddr := req_RemoteAddr r\<rparr>)
      else Inl (Errorf (''missing headers: ['' @ join '' ''
        ((if Action c = [] then [''X-Action''] else []) @
         (if ForwardedHost c = [] then [''X-Forwarded-Host''] else []) @
         (if ForwardedProto c = [] then [''X-Forwarded-Proto''] else [])) @ '']'')))"
  by (cases c) (simp add: ReadControlMessage_def header_get_WriteToHeader complete_message_def Let_def,
      simp add: header_names)


section \<open>Tunnel\<close>

record tunnel =
  Protocol :: string
  tunnel_Host :: string
  tunnel_Auth :: string
  tunnel_Addr :: string

end
