(* ===== verification/Server_Core.thy ===== *)
theory Server_Core
  imports Registry Conn_Pool Control_Msg
begin

text \<open>
  The life of a client connection on the server (\<open>server.go\<close>): opening the control listener, accepting
  and admitting a client, the handshake, the tunnels a client asks for with their listeners and virtual
  hosts, and what happens when a client goes away. The state outside of the connection pool is the
  record \<open>world\<close>.
\<close>

section \<open>State\<close>

text \<open>
  Sockets are named by numbers: \<open>w_listeners\<close> and \<open>w_conns\<close> are those that are open, \<open>w_next\<close> is a name
  no socket has yet. \<open>w_vhosts\<close> is the registry of the TLS muxer (\<open>go-vhost\<close>), \<open>None\<close> when the server
  has no SNI address. A second close of a muxer listener closes a closed channel, which panics and is
  recorded in \<open>w_panic\<close>. \<open>w_notified\<close> are the calls of the subscription listener and \<open>w_errors\<close> the
  errors sent to clients, the last one first.
\<close>

datatype listener = NetListener nat | VhostListener string nat

fun handle :: "listener \<Rightarrow> nat" where
  "handle (NetListener n) = n"
| "handle (VhostListener name n) = n"

datatype notification = Subscribed ident | Unsubscribed ident

record world =
  w_reg :: "listener registry"
  w_vhosts :: "(string \<rightharpoonup> nat) option"
  w_listeners :: "nat set"
  w_conns :: "nat set"
  w_next :: nat
  w_panic :: bool
  w_notified :: "notification list"
  w_errors :: "(ident \<times> string) list"

text \<open>
  The configuration. Of the TLS configuration, the certificates and the logger only what the code
  decides on is kept: whether there is a TLS configuration. \<open>cfg_CanSubscribe\<close> is the method of the
  subscription listener, \<open>None\<close> when there is no such listener.
\<close>

record server_config =
  cfg_Addr :: string
  cfg_AutoSubscribe :: bool
  cfg_TLSConfig :: bool
  cfg_Listener :: "nat option"
  cfg_SNIAddr :: string
  cfg_CanSubscribe :: "(ident \<Rightarrow> byte list list \<Rightarrow> bool) option"

type_synonym pool = "(nat, nat, world) conn_pool"

type_synonym srv = "pool \<times> world"

text \<open>
  What one accepted connection sees of the network and of the libraries: TLS, HTTP/2, the handshake
  request, JSON and \<open>net.Listen\<close>, which answers an error or opens the next socket. A decoded map is
  the list of its entries in the order Go ranges over it; an entry is \<open>None\<close> when the JSON value is
  \<open>null\<close>.
\<close>

record conn_env =
  ce_IsTLS :: bool
  ce_sha256 :: "byte list \<Rightarrow> byte list"
  ce_Handshake :: "go_error option"
  ce_PeerCertificates :: "byte list list"
  ce_VerifiedChains :: "byte list list list"
  ce_SetDeadline :: "go_error option"
  ce_http2 :: "(nat, nat, world) http2_env"
  ce_NewRequest :: "string \<Rightarrow> go_error option"
  ce_Do :: "go_error + response"
  ce_Decode :: "string \<Rightarrow> go_error + (string \<times> tunnel option) list"
  ce_Listen :: "string \<Rightarrow> string \<Rightarrow> world \<Rightarrow> go_error option"


section \<open>Listeners\<close>

definition vhost_name :: "string \<Rightarrow> string" where
  "vhost_name name =
     map lower_byte (case split_host_port name of Inl err \<Rightarrow> name | Inr (host, port) \<Rightarrow> host)"

text \<open>\<open>TLSMuxer.Listen\<close> and the two \<open>Close\<close> methods; host names are ASCII.\<close>

definition vhost_Listen :: "string \<Rightarrow> (string \<rightharpoonup> nat) \<Rightarrow> world \<Rightarrow> go_error option \<times> listener \<times> world" where
  "vhost_Listen name m w =
     (let name = vhost_name name; l = VhostListener name (w_next w) in
      if m name \<noteq> None then (Some (Errorf (''name '' @ name @ '' is already bound'')), l, w)
      else (None, l, w\<lparr>w_vhosts := Some (m(name \<mapsto> w_next w)),
                       w_listeners := insert (w_next w) (w_listeners w), w_next := Suc (w_next w)\<rparr>))"

definition net_Listen :: "conn_env \<Rightarrow> string \<Rightarrow> string \<Rightarrow> world \<Rightarrow> go_error option \<times> listener \<times> world" where
  "net_Listen env network address w =
     (let l = NetListener (w_next w) in
      case ce_Listen env network address w of
        Some err \<Rightarrow> (Some err, l, w)
      | None \<Rightarrow> (None, l, w\<lparr>w_listeners := insert (w_next w) (w_listeners w), w_next := Suc (w_next w)\<rparr>))"

fun close_listener :: "listener \<Rightarrow> world \<Rightarrow> world" where
  "close_listener (NetListener n) w = w\<lparr>w_listeners := w_listeners w - {n}\<rparr>"
| "close_listener (VhostListener name n) w =
     (if n \<notin> w_listeners w then w\<lparr>w_panic := True\<rparr>
      else w\<lparr>w_vhosts := map_option (\<lambda>m. m(name := None)) (w_vhosts w),
             w_listeners := w_listeners w - {n}\<rparr>)"

definition close_conn :: "nat \<Rightarrow> world \<Rightarrow> world" where
  "close_conn c w = w\<lparr>w_conns := w_conns w - {c}\<rparr>"

text \<open>The control listener: \<open>listener\<close> chooses it, \<open>NewServer\<close> puts the server together.\<close>

definition control_listener ::
  "server_config \<Rightarrow> (string \<Rightarrow> string \<Rightarrow> go_error + nat) \<Rightarrow> go_error + nat" where
  "control_listener cfg net_listen =
     (case cfg_Listener cfg of
        Some l \<Rightarrow> Inr l
      | None \<Rightarrow>
          if cfg_Addr cfg = [] then Inl (Errorf ''missing Addr'')
          else if \<not> cfg_TLSConfig cfg then Inl (Errorf ''missing TLSConfig'')
          else net_listen ''tcp'' (cfg_Addr cfg))"


section \<open>Going away\<close>

text \<open>\<open>disconnected\<close> is what the pool calls when it closes the connection of a client.\<close>

definition disconnected :: "ident \<Rightarrow> world \<Rightarrow> world" where
  "disconnected identifier w =
     (let (i, r) = clear identifier (w_reg w);
          w = w\<lparr>w_reg := r\<rparr>
      in case i of
           None \<Rightarrow> w
         | Some i \<Rightarrow> fold close_listener (Listeners i) w)"

definition NewServer ::
  "server_config \<Rightarrow> (string \<Rightarrow> string \<Rightarrow> go_error + nat) \<Rightarrow> nat \<Rightarrow> go_error + (nat \<times> srv)" where
  "NewServer cfg net_listen next_handle =
     (case control_listener cfg net_listen of
        Inl err \<Rightarrow> Inl (Errorf (''listener failed: '' @ error_text err))
      | Inr l \<Rightarrow>
          let w = \<lparr>w_reg = newRegistry, w_vhosts = None, w_listeners = {l}, w_conns = {},
                   w_next = next_handle, w_panic = False, w_notified = [], w_errors = []\<rparr>;
              pool = newConnPool (Some disconnected)
          in if cfg_SNIAddr cfg \<noteq> [] then
               (case net_listen ''tcp'' (cfg_SNIAddr cfg) of
                  Inl err \<Rightarrow> Inl err
                | Inr sni \<Rightarrow>
                    Inr (l, pool, w\<lparr>w_vhosts := Some (\<lambda>_. None), w_listeners := {l, sni}\<rparr>))
             else Inr (l, pool, w))"

text \<open>Deleting a connection asks nothing of the network.\<close>

definition idle_http2 :: "(nat, nat, world) http2_env" where
  "idle_http2 =
     \<lparr>NewClientConn = (\<lambda>_. Inl (Extern [])), PingConn = (\<lambda>_. None), CanTakeNewRequest = (\<lambda>_. False),
      CloseConn = close_conn, Elapsed = 0\<rparr>"

definition server_DeleteConn :: "ident \<Rightarrow> srv \<Rightarrow> srv" where
  "server_DeleteConn i = DeleteConn idle_http2 i"

definition server_Unsubscribe :: "server_config \<Rightarrow> ident \<Rightarrow> srv \<Rightarrow> listener item_ref option \<times> srv" where
  "server_Unsubscribe cfg identifier = (\<lambda>(p, w).
     let w = (case cfg_CanSubscribe cfg of
                None \<Rightarrow> w
              | Some f \<Rightarrow> w\<lparr>w_notified := Unsubscribed identifier # w_notified w\<rparr>);
         (p, w) = server_DeleteConn identifier (p, w);
         (i, r) = Unsubscribe identifier (w_reg w)
     in (i, p, w\<lparr>w_reg := r\<rparr>))"


section \<open>The tunnels of a client\<close>

text \<open>
  The loop of \<open>addTunnels\<close> over the tunnels: it collects the hosts and opens the listeners. It ends
  early with an error; a \<open>nil\<close> tunnel is dereferenced, which panics.
\<close>

datatype batch_result = Batch_ok | Batch_error go_error | Batch_panic

definition add_host :: "tunnel \<Rightarrow> listener registry_item \<Rightarrow> listener registry_item" where
  "add_host t i =
     i\<lparr>Hosts := Hosts i @ [\<lparr>ha_Host = tunnel_Host t, ha_Auth = NewAuth (tunnel_Auth t)\<rparr>]\<rparr>"

definition add_listener :: "listener \<Rightarrow> listener registry_item \<Rightarrow> listener registry_item" where
  "add_listener l i = i\<lparr>Listeners := Listeners i @ [l]\<rparr>"

definition open_tunnel ::
  "conn_env \<Rightarrow> string \<Rightarrow> tunnel \<Rightarrow> listener registry_item \<Rightarrow> world \<Rightarrow>
   go_error option \<times> listener registry_item \<times> world" where
  "open_tunnel env name t i w =
     (if Protocol t = HTTP then (None, add_host t i, w)
      else if Protocol t \<in> set [TCP, TCP4, TCP6, UNIX] then
        (case net_Listen env (Protocol t) (tunnel_Addr t) w of
           (Some err, l, w) \<Rightarrow> (Some err, i, w)
         | (None, l, w) \<Rightarrow> (None, add_listener l i, w))
      else if Protocol t = SNI then
        (case w_vhosts w of
           None \<Rightarrow> (Some (Errorf (''unable to configure SNI for tunnel '' @ name @ '': '' @ Protocol t)), i, w)
         | Some m \<Rightarrow>
             (case vhost_Listen (tunnel_Host t) m w of
                (Some err, l, w) \<Rightarrow> (Some err, i, w)
              | (None, l, w) \<Rightarrow> (None, add_listener l i, w)))
      else (Some (Errorf (''unsupported protocol for tunnel '' @ name @ '': '' @ Protocol t)), i, w))"

fun open_tunnels ::
  "conn_env \<Rightarrow> (string \<times> tunnel option) list \<Rightarrow> listener registry_item \<Rightarrow> world \<Rightarrow>
   batch_result \<times> listener registry_item \<times> world" where
  "open_tunnels env [] i w = (Batch_ok, i, w)"
| "open_tunnels env ((name, None) # ts) i w = (Batch_panic, i, w)"
| "open_tunnels env ((name, Some t) # ts) i w =
     (case open_tunnel env name t i w of
        (Some err, i, w) \<Rightarrow> (Batch_error err, i, w)
      | (None, i, w) \<Rightarrow> open_tunnels env ts i w)"

definition rollback :: "listener registry_item \<Rightarrow> world \<Rightarrow> world" where
  "rollback i w = fold close_listener (Listeners i) w"

text \<open>\<open>addTunnels\<close>: on an error the listeners opened so far are closed. A panic skips that.\<close>

definition addTunnels ::
  "conn_env \<Rightarrow> (string \<times> tunnel option) list \<Rightarrow> ident \<Rightarrow> world \<Rightarrow> batch_result \<times> world" where
  "addTunnels env tunnels identifier w =
     (case open_tunnels env tunnels \<lparr>Hosts = [], Listeners = []\<rparr> w of
        (Batch_panic, i, w) \<Rightarrow> (Batch_panic, w)
      | (Batch_error err, i, w) \<Rightarrow> (Batch_error err, rollback i w)
      | (Batch_ok, i, w) \<Rightarrow>
          (case set_item i identifier (w_reg w) of
             (Some err, r) \<Rightarrow> (Batch_error err, rollback i (w\<lparr>w_reg := r\<rparr>))
           | (None, r) \<Rightarrow> (Batch_ok, w\<lparr>w_reg := r\<rparr>)))"


section \<open>A client connects\<close>

definition server_http2 :: "conn_env \<Rightarrow> (nat, nat, world) http2_env" where
  "server_http2 env = (ce_http2 env)\<lparr>CloseConn := close_conn\<rparr>"

definition peer_certs :: "conn_env \<Rightarrow> byte list list" where
  "peer_certs env =
     (case ce_VerifiedChains env of [] \<Rightarrow> ce_PeerCertificates env | c # cs \<Rightarrow> c)"

text \<open>Whether the client may connect; a new client is subscribed when that is allowed.\<close>

definition admit :: "server_config \<Rightarrow> conn_env \<Rightarrow> ident \<Rightarrow> world \<Rightarrow> bool \<times> world" where
  "admit cfg env identifier w =
     (if cfg_AutoSubscribe cfg then
        let w = w\<lparr>w_reg := Subscribe identifier (w_reg w)\<rparr>
        in (True, if cfg_CanSubscribe cfg \<noteq> None
                  then w\<lparr>w_notified := Subscribed identifier # w_notified w\<rparr> else w)
      else if \<not> IsSubscribed identifier (w_reg w) then
        (case cfg_CanSubscribe cfg of
           None \<Rightarrow> (False, w)
         | Some can \<Rightarrow>
             if can identifier (peer_certs env)
             then (True, w\<lparr>w_reg := Subscribe identifier (w_reg w),
                           w_notified := Subscribed identifier # w_notified w\<rparr>)
             else (False, w))
      else (True, w))"

text \<open>
  The handshake request and the checks of its response. The decoder reads at most 126976 bytes of
  the body.
\<close>

definition handshake :: "conn_env \<Rightarrow> ident \<Rightarrow> go_error + (string \<times> tunnel option) list" where
  "handshake env identifier =
     (case ce_NewRequest env (pool_URL identifier) of
        Some err \<Rightarrow> Inl err
      | None \<Rightarrow>
          (case ce_Do env of
             Inl err \<Rightarrow> Inl err
           | Inr resp \<Rightarrow>
               if resp_StatusCode resp \<noteq> 200 then Inl (Errorf (''Status '' @ resp_Status resp))
               else if resp_ContentLength resp = 0 then Inl (Errorf ''Tunnels Content-Legth: 0'')
               else
                 (case ce_Decode env (take 126976 (resp_Body resp)) of
                    Inl err \<Rightarrow> Inl err
                  | Inr tunnels \<Rightarrow>
                      if tunnels = [] then Inl (Errorf ''No tunnels'') else Inr tunnels)))"

definition notifyError :: "conn_env \<Rightarrow> go_error \<Rightarrow> ident \<Rightarrow> world \<Rightarrow> world" where
  "notifyError env serverError identifier w =
     (case ce_NewRequest env (pool_URL identifier) of
        Some err \<Rightarrow> w
      | None \<Rightarrow> w\<lparr>w_errors := (identifier, error_text serverError) # w_errors w\<rparr>)"

datatype handled = Connected | Rejected | Panicked

text \<open>The label \<open>reject\<close>, before and after the connection is in the pool.\<close>

definition reject :: "nat \<Rightarrow> srv \<Rightarrow> handled \<times> srv" where
  "reject conn = (\<lambda>(p, w). (Rejected, p, close_conn conn w))"

definition reject_pooled :: "conn_env \<Rightarrow> nat \<Rightarrow> ident \<Rightarrow> go_error \<Rightarrow> srv \<Rightarrow> handled \<times> srv" where
  "reject_pooled env conn identifier err = (\<lambda>(p, w).
     reject conn (server_DeleteConn identifier (p, notifyError env err identifier w)))"

definition handleClient :: "server_config \<Rightarrow> conn_env \<Rightarrow> nat \<Rightarrow> srv \<Rightarrow> handled \<times> srv" where
  "handleClient cfg env conn = (\<lambda>(p, w).
     if \<not> ce_IsTLS env then reject conn (p, w)
     else case PeerID (ce_sha256 env) (ce_Handshake env) (ce_PeerCertificates env) of
       Inl err \<Rightarrow> reject conn (p, w)
     | Inr identifier \<Rightarrow>
         (case admit cfg env identifier w of
            (False, w) \<Rightarrow> reject conn (p, w)
          | (True, w) \<Rightarrow>
              if ce_SetDeadline env \<noteq> None then reject conn (p, w)
              else
                (case AddConn (server_http2 env) conn identifier (p, w) of
                   (Some err, s) \<Rightarrow> reject conn s
                 | (None, p, w) \<Rightarrow>
                     (case handshake env identifier of
                        Inl err \<Rightarrow> reject_pooled env conn identifier err (p, w)
                      | Inr tunnels \<Rightarrow>
                          (case addTunnels env tunnels identifier w of
                             (Batch_panic, w) \<Rightarrow> (Panicked, p, w)
                           | (Batch_error err, w) \<Rightarrow> reject_pooled env conn identifier err (p, w)
                           | (Batch_ok, w) \<Rightarrow> (Connected, p, w))))))"

end
