(* ===== verification/Server_Inv.thy ===== *)
theory Server_Inv
  imports Server_Core
begin

text \<open>
  Who owns the listeners of the server: every open listener is the control listener, the SNI listener
  or belongs to exactly one client's item or to exactly one batch that a goroutine is just putting
  together. From this follow that a failed batch leaves nothing behind, that a client that goes away
  leaves nothing behind, and that no listener is closed twice.
\<close>

section \<open>Slots\<close>

text \<open>
  A slot is a place a listener can belong to: the batch of the goroutine that handles connection \<open>c\<close>
  (\<open>Inl c\<close>) or the item of client \<open>i\<close> (\<open>Inr i\<close>).
\<close>

type_synonym batches = "nat \<Rightarrow> listener list"

definition no_batch :: batches where
  "no_batch = (\<lambda>c. [])"

definition item_listeners :: "ident \<Rightarrow> world \<Rightarrow> listener list" where
  "item_listeners i w =
     (case items (w_reg w) i of Some (Item it) \<Rightarrow> Listeners it | _ \<Rightarrow> [])"

definition slot :: "batches \<Rightarrow> world \<Rightarrow> nat + ident \<Rightarrow> listener list" where
  "slot held w s = (case s of Inl c \<Rightarrow> held c | Inr i \<Rightarrow> item_listeners i w)"

definition handles :: "listener list \<Rightarrow> nat set" where
  "handles ls = handle ` set ls"

definition vhost_entry :: "string \<Rightarrow> world \<Rightarrow> nat option" where
  "vhost_entry name w = Option.bind (w_vhosts w) (\<lambda>m. m name)"

text \<open>
  \<open>accounted base held w\<close> describes the open listeners as the base listeners and those of the slots,
  without any overlap, and the muxer's registry as the virtual hosts of the slots.
\<close>

definition apart :: "nat set \<Rightarrow> ('s \<Rightarrow> listener list) \<Rightarrow> bool" where
  "apart base f \<longleftrightarrow>
     (\<forall>s. distinct (map handle (f s))) \<and>
     (\<forall>s t. s \<noteq> t \<longrightarrow> handles (f s) \<inter> handles (f t) = {}) \<and>
     (\<forall>s. base \<inter> handles (f s) = {})"

definition listeners_of :: "('s \<Rightarrow> listener list) \<Rightarrow> listener set" where
  "listeners_of f = (\<Union>s. set (f s))"

definition accounted :: "nat set \<Rightarrow> batches \<Rightarrow> world \<Rightarrow> bool" where
  "accounted base held w \<longleftrightarrow>
     apart base (slot held w) \<and>
     w_listeners w = base \<union> handle ` listeners_of (slot held w) \<and>
     (\<forall>n \<in> w_listeners w. n < w_next w) \<and>
     (\<forall>name n. vhost_entry name w = Some n \<longleftrightarrow> VhostListener name n \<in> listeners_of (slot held w)) \<and>
     \<not> w_panic w"

lemma handles_simps [simp]:
  "handles [] = {}" "handles (l # ls) = insert (handle l) (handles ls)" "handles (ls @ ms) = handles ls \<union> handles ms"
  by (auto simp: handles_def)

lemma handle_handles: "l \<in> set ls \<Longrightarrow> handle l \<in> handles ls"
  by (simp add: handles_def)

lemma slot_simps [simp]:
  "slot held w (Inl c) = held c" "slot held w (Inr i) = item_listeners i w"
  by (simp_all add: slot_def)

lemma slot_held: "(slot held w)(Inl c := ls) = slot (held(c := ls)) w"
  by (rule ext) (simp add: slot_def split: sum.split)

lemma slot_cong: "(\<And>i. item_listeners i w' = item_listeners i w) \<Longrightarrow> slot held w' = slot held w"
  by (rule ext) (simp add: slot_def split: sum.split)

lemma accounted_cong:
  assumes "w_reg w' = w_reg w" "w_listeners w' = w_listeners w" "w_next w' = w_next w"
    "w_vhosts w' = w_vhosts w" "w_panic w' = w_panic w"
  shows "accounted base held w' = accounted base held w"
proof -
  have "slot held w' = slot held w"
    by (rule slot_cong) (simp add: item_listeners_def assms(1))
  then show ?thesis by (simp add: accounted_def vhost_entry_def assms)
qed

lemma apartD:
  assumes "apart base f"
  shows "distinct (map handle (f s))" and "s \<noteq> t \<Longrightarrow> handles (f s) \<inter> handles (f t) = {}"
    and "base \<inter> handles (f s) = {}"
  using assms by (simp_all add: apart_def)

lemma apart_upd:
  assumes "apart base f" and "distinct (map handle ls)"
    and "\<And>t. t \<noteq> s \<Longrightarrow> handles ls \<inter> handles (f t) = {}" and "base \<inter> handles ls = {}"
  shows "apart base (f(s := ls))"
  unfolding apart_def
proof (intro conjI allI impI)
  fix t u
  show "distinct (map handle ((f(s := ls)) t))" using apartD(1) [OF assms(1)] assms(2) by simp
  show "base \<inter> handles ((f(s := ls)) t) = {}" using apartD(3) [OF assms(1)] assms(4) by simp
  show "handles ((f(s := ls)) t) \<inter> handles ((f(s := ls)) u) = {}" if "t \<noteq> u"
    using apartD(2) [OF assms(1) that] assms(3) [of t] assms(3) [of u] that by (auto simp: Int_commute)
qed

lemma apart_shrink:
  assumes "apart base f" and "distinct (map handle ls)" and "handles ls \<subseteq> handles (f s)"
  shows "apart base (f(s := ls))"
  using assms(1,2)
proof (rule apart_upd)
  show "handles ls \<inter> handles (f t) = {}" if "t \<noteq> s" for t
    using apartD(2) [OF assms(1), of s t] assms(3) that by blast
  show "base \<inter> handles ls = {}" using apartD(3) [OF assms(1), of s] assms(3) by blast
qed

lemma apart_move:
  assumes "apart base f" and "f t = []" and "s \<noteq> t"
  shows "apart base (f(s := [], t := f s))"
proof (rule apart_upd)
  show "apart base (f(s := []))" using assms(1) by (rule apart_shrink) auto
  show "distinct (map handle (f s))" by (rule apartD(1) [OF assms(1)])
  show "base \<inter> handles (f s) = {}" by (rule apartD(3) [OF assms(1)])
  show "handles (f s) \<inter> handles ((f(s := [])) u) = {}" if "u \<noteq> t" for u
    using apartD(2) [OF assms(1), of s u] by auto
qed

lemma listeners_of_append: "listeners_of (f(s := f s @ [l])) = insert l (listeners_of f)"
proof -
  have "(f(s := f s @ [l])) t = (if t = s then f t @ [l] else f t)" for t by simp
  then show ?thesis unfolding listeners_of_def by (auto split: if_splits)
qed

lemma listeners_of_drop:
  assumes "apart base f" and "f s = l # ls"
  shows "listeners_of (f(s := ls)) = listeners_of f - {l}"
    and "handle l \<notin> handle ` (listeners_of f - {l})"
proof -
  have other: "handle l \<noteq> handle m" if "m \<in> set (f t)" "t \<noteq> s" for m t
    using apartD(2) [OF assms(1) that(2)] that(1) assms(2) handle_handles [of m "f t"] by auto
  have own: "handle l \<notin> handle ` set ls"
    using apartD(1) [OF assms(1), of s] assms(2) by simp
  have "listeners_of f = insert l (listeners_of (f(s := ls)))"
  proof -
    have "set (f t) \<subseteq> insert l (set ((f(s := ls)) t))" for t using assms(2) by auto
    moreover have "set ((f(s := ls)) t) \<subseteq> set (f t)" for t using assms(2) by auto
    moreover have "l \<in> set (f s)" using assms(2) by simp
    ultimately show ?thesis unfolding listeners_of_def by blast
  qed
  moreover have notin: "handle l \<notin> handle ` listeners_of (f(s := ls))"
  proof
    assume "handle l \<in> handle ` listeners_of (f(s := ls))"
    then obtain m t where "handle l = handle m" "m \<in> set ((f(s := ls)) t)"
      unfolding listeners_of_def by blast
    with other [of m t] own show False by (cases "t = s") auto
  qed
  moreover from notin have "l \<notin> listeners_of (f(s := ls))" by blast
  ultimately show "listeners_of (f(s := ls)) = listeners_of f - {l}"
    and "handle l \<notin> handle ` (listeners_of f - {l})"
    by auto
qed

lemma listeners_of_move:
  assumes "f t = []" and "s \<noteq> t"
  shows "listeners_of (f(s := [], t := f s)) = listeners_of f"
proof -
  have "set ((f(s := [], t := f s)) u) \<subseteq> listeners_of f" for u
    using assms unfolding listeners_of_def by auto
  moreover have "set (f u) \<subseteq> (\<Union>v. set ((f(s := [], t := f s)) v))" for u
    using assms by (cases "u = s"; cases "u = t") (auto intro: exI [of _ t] exI [of _ u])
  ultimately show ?thesis unfolding listeners_of_def by blast
qed

lemma accountedD:
  assumes "accounted base held w"
  shows "apart base (slot held w)" and "w_listeners w = base \<union> handle ` listeners_of (slot held w)"
    and "n \<in> w_listeners w \<Longrightarrow> n < w_next w" and "\<not> w_panic w"
    and "vhost_entry name w = Some n \<longleftrightarrow> VhostListener name n \<in> listeners_of (slot held w)"
  using assms unfolding accounted_def by blast+

lemma accountedI:
  assumes "apart base f" and "slot held w = f"
    and "w_listeners w = base \<union> handle ` listeners_of f"
    and "\<And>n. n \<in> w_listeners w \<Longrightarrow> n < w_next w" and "\<not> w_panic w"
    and "\<And>name n. vhost_entry name w = Some n \<longleftrightarrow> VhostListener name n \<in> listeners_of f"
  shows "accounted base held w"
  using assms unfolding accounted_def by blast

lemma accounted_fresh:
  assumes "accounted base held w"
  shows "w_next w \<notin> handles (slot held w s)" and "w_next w \<notin> base"
proof -
  have "w_next w \<notin> w_listeners w" using accountedD(3) [OF assms, of "w_next w"] by auto
  then show "w_next w \<notin> handles (slot held w s)" and "w_next w \<notin> base"
    unfolding accountedD(2) [OF assms] by (auto simp: handles_def listeners_of_def)
qed


section \<open>Opening and closing\<close>

lemma accounted_open:
  assumes acc: "accounted base held w" and l: "handle l = w_next w"
    and reg: "w_reg w' = w_reg w" and listeners: "w_listeners w' = insert (w_next w) (w_listeners w)"
    and nxt: "w_next w' = Suc (w_next w)" and safe: "w_panic w' = w_panic w"
    and vhosts: "\<And>name n. vhost_entry name w' = Some n \<longleftrightarrow>
      vhost_entry name w = Some n \<or> VhostListener name n = l"
  shows "accounted base (held(c := held c @ [l])) w'"
proof (rule accountedI)
  let ?f = "(slot held w)(Inl c := slot held w (Inl c) @ [l])"
  have ap: "apart base (slot held w)" using acc by (rule accountedD)
  have fresh: "w_next w \<notin> handles (slot held w s)" for s using acc by (rule accounted_fresh)
  show "apart base ?f"
    using ap
  proof (rule apart_upd)
    show "distinct (map handle (slot held w (Inl c) @ [l]))"
      using apartD(1) [OF ap, of "Inl c"] fresh [of "Inl c"] by (simp add: l handles_def)
    show "handles (slot held w (Inl c) @ [l]) \<inter> handles (slot held w t) = {}" if "t \<noteq> Inl c" for t
      using apartD(2) [OF ap that] fresh [of t] by (auto simp: l)
    show "base \<inter> handles (slot held w (Inl c) @ [l]) = {}"
      using apartD(3) [OF ap, of "Inl c"] accounted_fresh(2) [OF acc] by (auto simp: l)
  qed
  show "slot (held(c := held c @ [l])) w' = ?f"
    unfolding slot_simps(1) slot_held by (rule slot_cong) (simp add: item_listeners_def reg)
  show "w_listeners w' = base \<union> handle ` listeners_of ?f"
    by (simp add: listeners_of_append listeners accountedD(2) [OF acc] l del: slot_simps)
  show "n < w_next w'" if "n \<in> w_listeners w'" for n
    using that accountedD(3) [OF acc, of n] by (auto simp: listeners nxt)
  show "\<not> w_panic w'" using accountedD(4) [OF acc] by (simp add: safe)
  show "vhost_entry name w' = Some n \<longleftrightarrow> VhostListener name n \<in> listeners_of ?f" for name n
    by (auto simp: listeners_of_append vhosts accountedD(5) [OF acc] simp del: slot_simps)
qed

lemma accounted_net_Listen:
  assumes "accounted base held w" and "net_Listen env network address w = (None, l, w')"
  shows "accounted base (held(c := held c @ [l])) w'"
  using assms by (auto simp: net_Listen_def Let_def vhost_entry_def split: option.splits intro!: accounted_open)

lemma accounted_vhost_Listen:
  assumes "accounted base held w" and "w_vhosts w = Some m" and "vhost_Listen name m w = (None, l, w')"
  shows "accounted base (held(c := held c @ [l])) w'"
  using assms by (auto simp: vhost_Listen_def Let_def vhost_entry_def split: if_splits intro!: accounted_open)

lemma accounted_close:
  assumes acc: "accounted base held w" and c: "held c = l # ls"
  shows "accounted base (held(c := ls)) (close_listener l w)"
proof (rule accountedI)
  let ?w = "close_listener l w" and ?f = "(slot held w)(Inl c := ls)"
  have ap: "apart base (slot held w)" using acc by (rule accountedD)
  note drop = listeners_of_drop [OF ap, of "Inl c" l ls, simplified, OF c]
  have mem: "l \<in> listeners_of (slot held w)"
    using c unfolding listeners_of_def by (auto intro!: exI [of _ "Inl c"])
  then have open_l: "handle l \<in> w_listeners w" unfolding accountedD(2) [OF acc] by blast
  have notbase: "handle l \<notin> base" using apartD(3) [OF ap, of "Inl c"] c by auto
  show "apart base ?f"
    using ap apartD(1) [OF ap, of "Inl c"] c by (intro apart_shrink) auto
  have "w_reg ?w = w_reg w" by (cases l) simp_all
  then have "slot (held(c := ls)) ?w = slot (held(c := ls)) w"
    by (intro slot_cong) (simp add: item_listeners_def)
  then show "slot (held(c := ls)) ?w = ?f" by (simp add: slot_held)
  have listeners: "w_listeners ?w = w_listeners w - {handle l}" and "w_next ?w = w_next w" and "\<not> w_panic ?w"
    using open_l accountedD(4) [OF acc] by (cases l; simp)+
  then show "n < w_next ?w" if "n \<in> w_listeners ?w" for n
    using that accountedD(3) [OF acc, of n] by auto
  show "\<not> w_panic ?w" by fact
  show "w_listeners ?w = base \<union> handle ` listeners_of ?f"
    unfolding drop(1) listeners accountedD(2) [OF acc] using drop(2) notbase by blast
  show "vhost_entry name ?w = Some n \<longleftrightarrow> VhostListener name n \<in> listeners_of ?f" for name n
  proof (cases l)
    case (NetListener k)
    then show ?thesis using accountedD(5) [OF acc, of name n] by (simp add: drop(1) vhost_entry_def)
  next
    case (VhostListener host k)
    have "vhost_entry name ?w = (if name = host then None else vhost_entry name w)"
      using open_l by (auto simp: VhostListener vhost_entry_def split: bind_splits)
    moreover have "vhost_entry host w = Some k" using mem accountedD(5) [OF acc, of host k] by (simp add: VhostListener)
    ultimately show ?thesis
      using accountedD(5) [OF acc, of name n] by (auto simp: drop(1) VhostListener)
  qed
qed

lemma accounted_rollback:
  "accounted base held w \<Longrightarrow> held c = ls \<Longrightarrow> accounted base (held(c := [])) (fold close_listener ls w)"
proof (induction ls arbitrary: held w)
  case Nil
  then show ?case by (simp add: fun_upd_idem)
next
  case (Cons l ls)
  have "accounted base (held(c := ls)) (close_listener l w)"
    using Cons.prems by (rule accounted_close)
  then have "accounted base ((held(c := ls))(c := [])) (fold close_listener ls (close_listener l w))"
    by (rule Cons.IH) simp
  then show ?case by (simp only: fun_upd_upd fold_simps)
qed


section \<open>Between batch and registry\<close>

lemma accounted_move:
  assumes acc: "accounted base held w" and "slot held w t = []" and "s \<noteq> t"
    and "slot held' w' = (slot held w)(s := [], t := slot held w s)"
    and "w' = w\<lparr>w_reg := r\<rparr>"
  shows "accounted base held' w'"
proof (rule accountedI)
  let ?f = "(slot held w)(s := [], t := slot held w s)"
  note move = listeners_of_move [of "slot held w", OF assms(2,3)]
  show "apart base ?f" using accountedD(1) [OF acc] assms(2,3) by (rule apart_move)
  show "slot held' w' = ?f" by fact
  show "w_listeners w' = base \<union> handle ` listeners_of ?f"
    unfolding move using accountedD(2) [OF acc] by (simp add: assms(5))
  show "n < w_next w'" if "n \<in> w_listeners w'" for n
    using that accountedD(3) [OF acc, of n] by (simp add: assms(5))
  show "\<not> w_panic w'" using accountedD(4) [OF acc] by (simp add: assms(5))
  show "vhost_entry name w' = Some n \<longleftrightarrow> VhostListener name n \<in> listeners_of ?f" for name n
    unfolding move using accountedD(5) [OF acc, of name n]
    by (simp add: assms(5) vhost_entry_def)
qed

text \<open>A successful \<open>set\<close> moves the batch into the item of the client.\<close>

lemma accounted_set_item:
  assumes acc: "accounted base held w" and batch: "held c = Listeners i"
    and ok: "fst (set_item i k (w_reg w)) = None"
  shows "accounted base (held(c := [])) (w\<lparr>w_reg := snd (set_item i k (w_reg w))\<rparr>)"
  using acc
proof (rule accounted_move [where s = "Inl c" and t = "Inr k"])
  show "slot held w (Inr k) = []"
    using set_item_fst_None(1) [OF ok] by (simp add: item_listeners_def)
  show "slot (held(c := [])) (w\<lparr>w_reg := snd (set_item i k (w_reg w))\<rparr>) =
      (slot held w)(Inl c := [], Inr k := slot held w (Inl c))"
    using set_item_fst_None(3) [OF ok]
    by (intro ext) (auto simp: slot_def item_listeners_def batch split: sum.split)
qed simp_all

text \<open>\<open>clear\<close> takes the listeners out of the registry, for \<open>disconnected\<close> to close.\<close>

definition cleared :: "ident \<Rightarrow> world \<Rightarrow> listener list" where
  "cleared k w = (case fst (clear k (w_reg w)) of None \<Rightarrow> [] | Some i \<Rightarrow> Listeners i)"

lemma cleared_eq: "cleared k w = item_listeners k w"
  by (auto simp: cleared_def clear_def item_listeners_def split: option.split item_ref.split)

lemma disconnected_eq:
  "disconnected k w = fold close_listener (cleared k w) (w\<lparr>w_reg := snd (clear k (w_reg w))\<rparr>)"
  by (auto simp: disconnected_def cleared_def Let_def split: prod.split option.split)

lemma accounted_clear:
  assumes acc: "accounted base held w" and "held c = []"
  shows "accounted base (held(c := cleared k w)) (w\<lparr>w_reg := snd (clear k (w_reg w))\<rparr>)"
  using acc
proof (rule accounted_move [where s = "Inr k" and t = "Inl c"])
  show "slot held w (Inl c) = []" using assms(2) by simp
  show "slot (held(c := cleared k w)) (w\<lparr>w_reg := snd (clear k (w_reg w))\<rparr>) =
      (slot held w)(Inr k := [], Inl c := slot held w (Inr k))"
    unfolding cleared_eq
    by (intro ext)
       (auto simp: slot_def item_listeners_def clear_def split: sum.split option.split item_ref.split)
qed simp_all

lemma accounted_disconnected:
  assumes "accounted base held w" and "held c = []"
  shows "accounted base held (disconnected k w)"
proof -
  have "held(c := cleared k w, c := []) = held" using assms(2) by (simp add: fun_upd_idem)
  with accounted_rollback [OF accounted_clear [OF assms, of k], of c "cleared k w"]
  show ?thesis by (simp add: disconnected_eq)
qed


section \<open>A batch of tunnels\<close>

text \<open>What the operations on listeners leave alone.\<close>

definition same_rest :: "world \<Rightarrow> world \<Rightarrow> bool" where
  "same_rest w w' \<longleftrightarrow>
     w_reg w' = w_reg w \<and> w_conns w' = w_conns w \<and> w_notified w' = w_notified w \<and>
     w_errors w' = w_errors w \<and> (w_vhosts w' = None \<longleftrightarrow> w_vhosts w = None)"

lemma same_rest_refl [simp]: "same_rest w w"
  by (simp add: same_rest_def)

lemma same_rest_trans: "same_rest u v \<Longrightarrow> same_rest v w \<Longrightarrow> same_rest u w"
  by (simp add: same_rest_def)

lemma same_rest_close: "same_rest w (close_listener l w)"
  by (cases l) (simp_all add: same_rest_def)

lemma same_rest_rollback: "same_rest w (fold close_listener ls w)"
  by (induction ls arbitrary: w) (auto intro: same_rest_trans same_rest_close)

lemma same_rest_net_Listen: "net_Listen env n a w = (err, l, w') \<Longrightarrow> same_rest w w'"
  by (auto simp: net_Listen_def Let_def same_rest_def split: option.splits)

lemma same_rest_vhost_Listen: "vhost_Listen name m w = (err, l, w') \<Longrightarrow> w_vhosts w \<noteq> None \<Longrightarrow> same_rest w w'"
  by (auto simp: vhost_Listen_def Let_def same_rest_def split: if_splits)

lemma net_Listen_error: "net_Listen env n a w = (Some e, l, w') \<Longrightarrow> w' = w"
  by (auto simp: net_Listen_def Let_def split: option.splits)

lemma vhost_Listen_error: "vhost_Listen name m w = (Some e, l, w') \<Longrightarrow> w' = w"
  by (auto simp: vhost_Listen_def Let_def split: if_splits)

lemma add_simps [simp]:
  "Listeners (add_host t i) = Listeners i"
  "Hosts (add_host t i) = Hosts i @ [\<lparr>ha_Host = tunnel_Host t, ha_Auth = NewAuth (tunnel_Auth t)\<rparr>]"
  "Listeners (add_listener l i) = Listeners i @ [l]"
  "Hosts (add_listener l i) = Hosts i"
  by (simp_all add: add_host_def add_listener_def)

text \<open>
  The outcomes of opening one tunnel: an error that changes nothing, a host, or a listener.
\<close>

lemma open_tunnel_cases:
  assumes "open_tunnel env name t i w = (res, i', w')"
  obtains (error) e where "res = Some e" "i' = i" "w' = w"
  | (host) "Protocol t = HTTP" "res = None" "i' = add_host t i" "w' = w"
  | (net) l where "Protocol t \<in> set [TCP, TCP4, TCP6, UNIX]" "res = None" "i' = add_listener l i"
      "net_Listen env (Protocol t) (tunnel_Addr t) w = (None, l, w')"
  | (vhost) l m where "Protocol t = SNI" "w_vhosts w = Some m" "res = None" "i' = add_listener l i"
      "vhost_Listen (tunnel_Host t) m w = (None, l, w')"
  using assms unfolding open_tunnel_def
  by (auto split: if_splits option.splits prod.splits dest: net_Listen_error vhost_Listen_error)

lemma open_tunnel_accounted:
  assumes "accounted base held w" and "held c = Listeners i"
    and "open_tunnel env name t i w = (res, i', w')"
  shows "accounted base (held(c := Listeners i')) w' \<and> same_rest w w'"
  using assms(3)
proof (cases rule: open_tunnel_cases)
  case (error e)
  with assms(1,2) show ?thesis by (simp add: fun_upd_idem)
next
  case host
  with assms(1,2) show ?thesis by (simp add: fun_upd_idem)
next
  case (net l)
  with accounted_net_Listen [OF assms(1) net(4), of c] same_rest_net_Listen [OF net(4)] assms(2)
  show ?thesis by simp
next
  case (vhost l m)
  with accounted_vhost_Listen [OF assms(1) vhost(2,5), of c] same_rest_vhost_Listen [OF vhost(5)] assms(2)
  show ?thesis by simp
qed

lemma open_tunnels_accounted:
  "accounted base held w \<Longrightarrow> held c = Listeners i \<Longrightarrow> open_tunnels env ts i w = (res, i', w') \<Longrightarrow>
   accounted base (held(c := Listeners i')) w' \<and> same_rest w w'"
proof (induction env ts i w arbitrary: held rule: open_tunnels.induct)
  case (1 env i w)
  then show ?case by (simp add: fun_upd_idem)
next
  case (2 env name ts i w)
  then show ?case by (simp add: fun_upd_idem)
next
  case (3 env name t ts i w)
  obtain res1 i1 w1 where one: "open_tunnel env name t i w = (res1, i1, w1)" by (metis prod_cases3)
  note step = open_tunnel_accounted [OF "3.prems"(1,2) one]
  show ?case
  proof (cases res1)
    case (Some e)
    with one "3.prems"(3) have "i' = i1" "w' = w1" by simp_all
    with step show ?thesis by blast
  next
    case None
    with "3.prems"(3) one have "open_tunnels env ts i1 w1 = (res, i', w')" by simp
    then have "accounted base ((held(c := Listeners i1))(c := Listeners i')) w' \<and> same_rest w1 w'"
      using step by (intro "3.IH" [OF one [symmetric] None refl]) (simp_all only: fun_upd_same)
    with step show ?thesis
      unfolding fun_upd_upd by (blast intro: same_rest_trans)
  qed
qed

lemma addTunnels_accounted:
  assumes "accounted base held w" and "held c = []" and "addTunnels env ts k w = (res, w')"
    and "res \<noteq> Batch_panic"
  shows "accounted base held w'"
    and "case res of Batch_error e \<Rightarrow> same_rest w w' | _ \<Rightarrow> True"
proof -
  let ?i0 = "\<lparr>Hosts = [], Listeners = []\<rparr> :: listener registry_item"
  obtain r1 i1 w1 where one: "open_tunnels env ts ?i0 w = (r1, i1, w1)" by (metis prod_cases3)
  have acc: "accounted base (held(c := Listeners i1)) w1" and rest: "same_rest w w1"
    using open_tunnels_accounted [OF assms(1) _ one, of c] assms(2) by auto
  have rb: "accounted base held (rollback i1 w1) \<and> same_rest w (rollback i1 w1)"
    using accounted_rollback [OF acc, of c "Listeners i1"] same_rest_rollback [of w1 "Listeners i1"] rest
    by (auto simp: rollback_def fun_upd_idem assms(2) intro: same_rest_trans)
  have set_ok: "accounted base held (w1\<lparr>w_reg := r\<rparr>)" if "set_item i1 k (w_reg w1) = (None, r)" for r
    using accounted_set_item [OF acc, of c i1 k] that by (simp add: fun_upd_idem assms(2))
  have "accounted base held w' \<and> (case res of Batch_error e \<Rightarrow> same_rest w w' | _ \<Rightarrow> True)"
  proof (cases r1)
    case Batch_panic
    with one assms(3,4) show ?thesis by (simp add: addTunnels_def)
  next
    case (Batch_error e)
    with one assms(3) rb show ?thesis by (auto simp: addTunnels_def)
  next
    case Batch_ok
    then show ?thesis
    proof (cases rule: set_item_cases [of i1 k "w_reg w1"])
      case (1 e)
      with one Batch_ok assms(3) rb show ?thesis by (auto simp: addTunnels_def)
    next
      case 2
      with one Batch_ok assms(3) set_ok show ?thesis by (auto simp: addTunnels_def)
    qed
  qed
  then show "accounted base held w'" and "case res of Batch_error e \<Rightarrow> same_rest w w' | _ \<Rightarrow> True"
    by blast+
qed

end
