(* ===== verification/Server_Client.thy ===== *)
theory Server_Client
  imports Server_Inv
begin

text \<open>
  What \<open>handleClient\<close>, \<open>addTunnels\<close> and \<open>disconnected\<close> promise: the invariant of the server, the
  outcome of a connection on every branch, and that a client that is refused or goes away leaves
  neither routes nor listeners behind.
\<close>

section \<open>The invariant of the server\<close>

definition srv_ok :: "nat set \<Rightarrow> batches \<Rightarrow> srv \<Rightarrow> bool" where
  "srv_ok base held s \<longleftrightarrow>
     free (fst s) = Some disconnected \<and> dom (conns (fst s)) \<subseteq> range pool_addr \<and>
     registry_inv (w_reg (snd s)) \<and> accounted base held (snd s)"

lemma srv_okD:
  assumes "srv_ok base held (p, w)"
  shows "free p = Some disconnected" and "dom (conns p) \<subseteq> range pool_addr"
    and "registry_inv (w_reg w)" and "accounted base held w"
  using assms by (simp_all add: srv_ok_def)

text \<open>Nothing is gained from \<open>w\<close> to \<open>w'\<close>: no route and no open listener is new.\<close>

definition no_gain :: "world \<Rightarrow> world \<Rightarrow> bool" where
  "no_gain w w' \<longleftrightarrow>
     (\<forall>h v. routes (w_reg w') h = Some v \<longrightarrow> routes (w_reg w) h = Some v) \<and>
     w_listeners w' \<subseteq> w_listeners w \<and> w_conns w' \<subseteq> w_conns w"

lemma no_gain_refl [simp]: "no_gain w w"
  by (simp add: no_gain_def)

lemma no_gain_trans: "no_gain u v \<Longrightarrow> no_gain v w \<Longrightarrow> no_gain u w"
  by (auto simp: no_gain_def)

lemma close_listener_frame [simp]:
  "w_reg (close_listener l w) = w_reg w" "w_conns (close_listener l w) = w_conns w"
  "w_notified (close_listener l w) = w_notified w" "w_errors (close_listener l w) = w_errors w"
  by (cases l; simp)+

lemma close_listener_subset: "w_listeners (close_listener l w) \<subseteq> w_listeners w"
  by (cases l) auto

lemma close_all_frame [simp]:
  "w_reg (fold close_listener ls w) = w_reg w" "w_conns (fold close_listener ls w) = w_conns w"
  "w_notified (fold close_listener ls w) = w_notified w" "w_errors (fold close_listener ls w) = w_errors w"
  by (induction ls arbitrary: w) simp_all

lemma close_all_subset: "w_listeners (fold close_listener ls w) \<subseteq> w_listeners w"
proof (induction ls arbitrary: w)
  case (Cons l ls)
  then show ?case using close_listener_subset [of l w] by fastforce
qed simp

lemma disconnected_frame [simp]:
  "w_reg (disconnected k w) = snd (clear k (w_reg w))" "w_conns (disconnected k w) = w_conns w"
  "w_notified (disconnected k w) = w_notified w" "w_errors (disconnected k w) = w_errors w"
  by (simp_all add: disconnected_eq)

lemma disconnected_no_gain: "registry_inv (w_reg w) \<Longrightarrow> no_gain w (disconnected k w)"
  using close_all_subset [of "cleared k w" "w\<lparr>w_reg := snd (clear k (w_reg w))\<rparr>"]
  by (auto simp: no_gain_def routing.lookup_release disconnected_eq split: option.splits if_splits)

lemma close_conn_frame [simp]:
  "w_reg (close_conn c w) = w_reg w" "w_listeners (close_conn c w) = w_listeners w"
  "w_conns (close_conn c w) = w_conns w - {c}" "w_vhosts (close_conn c w) = w_vhosts w"
  "w_next (close_conn c w) = w_next w" "w_panic (close_conn c w) = w_panic w"
  "w_notified (close_conn c w) = w_notified w" "w_errors (close_conn c w) = w_errors w"
  by (simp_all add: close_conn_def)

lemma accounted_close_conn [simp]: "accounted base held (close_conn c w) = accounted base held w"
  by (rule accounted_cong) simp_all

lemma no_gain_close_conn [simp]: "no_gain w (close_conn c w)"
  by (auto simp: no_gain_def)


section \<open>Each stage keeps the invariant\<close>

lemma server_DeleteConn_eq:
  assumes "free p = Some disconnected"
  shows "server_DeleteConn i (p, w) =
    (case session_conn i p of
       None \<Rightarrow> (p, w)
     | Some cp \<Rightarrow> (p\<lparr>conns := (conns p)(pool_addr i := None)\<rparr>, disconnected i (close_conn (cp_conn cp) w)))"
  using assms
  by (simp add: server_DeleteConn_def DeleteConn_eq freed_def idle_http2_def split: option.split)

lemma srv_ok_pool:
  assumes "srv_ok base held (p, w)" and "dom m \<subseteq> range pool_addr" and "registry_inv (w_reg w')"
    and "accounted base held w'"
  shows "srv_ok base held (p\<lparr>conns := m\<rparr>, w')"
  using assms by (simp add: srv_ok_def)

lemma srv_ok_DeleteConn:
  assumes "srv_ok base held (p, w)" and "held c = []"
  shows "srv_ok base held (server_DeleteConn i (p, w)) \<and> no_gain w (snd (server_DeleteConn i (p, w)))"
proof (cases "session_conn i p")
  case None
  with assms srv_okD(1) [OF assms(1)] show ?thesis by (simp add: server_DeleteConn_eq)
next
  case (Some cp)
  let ?w = "disconnected i (close_conn (cp_conn cp) w)"
  have "accounted base held ?w"
    using srv_okD(4) [OF assms(1)] assms(2) by (intro accounted_disconnected) simp_all
  moreover have "registry_inv (w_reg ?w)"
    using srv_okD(3) [OF assms(1)] by (simp add: registry_inv_clear)
  moreover have "dom ((conns p)(pool_addr i := None)) \<subseteq> range pool_addr"
    using srv_okD(2) [OF assms(1)] by auto
  moreover have "no_gain w ?w"
    using disconnected_no_gain [of "close_conn (cp_conn cp) w" i] srv_okD(3) [OF assms(1)]
    by (auto intro: no_gain_trans [OF no_gain_close_conn])
  ultimately show ?thesis
    using Some srv_okD(1) [OF assms(1)] by (simp add: server_DeleteConn_eq srv_ok_pool [OF assms(1)])
qed

lemma AddConn_DeleteConn:
  "DeleteConn (server_http2 env) i (p, w) = server_DeleteConn i (p, w)"
  by (simp add: server_DeleteConn_def DeleteConn_eq server_http2_def idle_http2_def split: option.split)

lemma srv_ok_AddConn:
  assumes "srv_ok base held (p, w)" and "held c = []"
  shows "srv_ok base held (snd (AddConn (server_http2 env) conn i (p, w))) \<and>
    no_gain w (snd (snd (AddConn (server_http2 env) conn i (p, w))))"
proof -
  obtain p' w' where d: "(if session_conn i p = None then (p, w) else server_DeleteConn i (p, w)) = (p', w')"
    by fastforce
  have ok: "srv_ok base held (p', w')" "no_gain w w'"
    using srv_ok_DeleteConn [OF assms, of i] d assms(1) by (auto split: if_splits)
  have "dom ((conns p')(pool_addr i \<mapsto> cp)) \<subseteq> range pool_addr" for cp
    using srv_okD(2) [OF ok(1)] by auto
  with ok assms(1) show ?thesis
    unfolding AddConn_eq AddConn_DeleteConn d
    by (auto simp: srv_ok_pool srv_okD split: sum.split)
qed

lemma srv_ok_world:
  assumes "srv_ok base held (p, w)" and "registry_inv (w_reg w')" and "accounted base held w'"
  shows "srv_ok base held (p, w')"
  using assms by (simp add: srv_ok_def)

lemma accounted_Subscribe: "accounted base held (w\<lparr>w_reg := Subscribe i (w_reg w)\<rparr>) = accounted base held w"
proof -
  have "slot held (w\<lparr>w_reg := Subscribe i (w_reg w)\<rparr>) = slot held w"
    by (rule slot_cong) (auto simp: item_listeners_def Subscribe_def)
  then show ?thesis by (simp add: accounted_def vhost_entry_def)
qed

lemma accounted_notified [simp]: "accounted base held (w\<lparr>w_notified := ns\<rparr>) = accounted base held w"
  by (rule accounted_cong) simp_all

lemma accounted_errors [simp]: "accounted base held (w\<lparr>w_errors := es\<rparr>) = accounted base held w"
  by (rule accounted_cong) simp_all

lemma no_gain_Subscribe: "no_gain w (w\<lparr>w_reg := Subscribe i (w_reg w)\<rparr>)"
  by (simp add: no_gain_def routes_def)

lemma srv_ok_admit:
  assumes "srv_ok base held (p, w)" and "admit cfg env i w = (ok, w')"
  shows "srv_ok base held (p, w') \<and> no_gain w w'"
  using assms srv_okD [OF assms(1)]
  by (auto simp: admit_def Let_def srv_ok_def accounted_Subscribe no_gain_def routes_def
      split: if_splits option.splits)

lemma srv_ok_notifyError:
  "srv_ok base held (p, w) \<Longrightarrow> srv_ok base held (p, notifyError env err i w) \<and> no_gain w (notifyError env err i w)"
  by (auto simp: notifyError_def srv_ok_def no_gain_def split: option.split)


section \<open>A batch of tunnels\<close>

text \<open>The hosts and the number of listeners a batch asks for.\<close>

definition tunnel_hosts :: "(string \<times> tunnel option) list \<Rightarrow> host_auth list" where
  "tunnel_hosts ts =
     concat (map (\<lambda>(name, t). case t of
        None \<Rightarrow> []
      | Some t \<Rightarrow>
          if Protocol t = HTTP then [\<lparr>ha_Host = tunnel_Host t, ha_Auth = NewAuth (tunnel_Auth t)\<rparr>] else []) ts)"

definition listening_tunnels :: "(string \<times> tunnel option) list \<Rightarrow> (string \<times> tunnel option) list" where
  "listening_tunnels ts = filter (\<lambda>(name, t). t \<noteq> None \<and> Protocol (the t) \<noteq> HTTP) ts"

lemma http_not_listening: "HTTP \<notin> set [TCP, TCP4, TCP6, UNIX]" "SNI \<notin> set [TCP, TCP4, TCP6, UNIX]" "SNI \<noteq> HTTP"
  by (simp_all add: protocol_names)

lemma open_tunnel_ok:
  assumes "open_tunnel env name t i w = (None, i', w')"
  shows "Hosts i' = Hosts i @ tunnel_hosts [(name, Some t)]"
    and "length (Listeners i') = length (Listeners i) + length (listening_tunnels [(name, Some t)])"
  using assms http_not_listening
  by (cases rule: open_tunnel_cases; auto simp: tunnel_hosts_def listening_tunnels_def)+

lemma open_tunnels_ok:
  "open_tunnels env ts i w = (Batch_ok, i', w') \<Longrightarrow>
   Hosts i' = Hosts i @ tunnel_hosts ts \<and>
   length (Listeners i') = length (Listeners i) + length (listening_tunnels ts)"
proof (induction env ts i w rule: open_tunnels.induct)
  case (1 env i w)
  then show ?case by (simp add: tunnel_hosts_def listening_tunnels_def)
next
  case (2 env name ts i w)
  then show ?case by simp
next
  case (3 env name t ts i w)
  obtain res1 i1 w1 where one: "open_tunnel env name t i w = (res1, i1, w1)" by (metis prod_cases3)
  show ?case
  proof (cases res1)
    case (Some e)
    with one "3.prems" show ?thesis by simp
  next
    case None
    with one "3.prems" have "open_tunnels env ts i1 w1 = (Batch_ok, i', w')" by simp
    from "3.IH" [OF one [symmetric] None refl this] open_tunnel_ok [OF one [unfolded None]]
    show ?thesis by (simp add: tunnel_hosts_def listening_tunnels_def)
  qed
qed

lemma addTunnels_ok:
  assumes "addTunnels env ts k w = (Batch_ok, w')" and "accounted base held w" and "held c = []"
  shows "\<exists>ls. items (w_reg w') k = Some (Item \<lparr>Hosts = tunnel_hosts ts, Listeners = ls\<rparr>) \<and>
      length ls = length (listening_tunnels ts) \<and>
      set_item \<lparr>Hosts = tunnel_hosts ts, Listeners = ls\<rparr> k (w_reg w) = (None, w_reg w')"
    and "w_conns w' = w_conns w"
proof -
  let ?i0 = "\<lparr>Hosts = [], Listeners = []\<rparr> :: listener registry_item"
  obtain r1 i1 w1 where one: "open_tunnels env ts ?i0 w = (r1, i1, w1)" by (metis prod_cases3)
  have "same_rest w w1"
    using open_tunnels_accounted [OF assms(2) _ one, of c] assms(3) by simp
  then have rest: "w_reg w1 = w_reg w" "w_conns w1 = w_conns w" by (simp_all add: same_rest_def)
  have r1: "r1 = Batch_ok" using assms(1) one by (cases r1) (auto simp: addTunnels_def)
  with assms(1) one rest(1) obtain r where r: "set_item i1 k (w_reg w) = (None, r)" "w' = w1\<lparr>w_reg := r\<rparr>"
    by (auto simp: addTunnels_def split: prod.splits option.splits)
  have i1: "\<lparr>Hosts = tunnel_hosts ts, Listeners = Listeners i1\<rparr> = i1"
    using open_tunnels_ok [OF one [unfolded r1]] by (cases i1) simp
  have "items r k = Some (Item i1)" using set_item_NoneD(3) [OF r(1)] by simp
  moreover have "w_reg w' = r" "w_conns w' = w_conns w" using r(2) rest(2) by simp_all
  ultimately show "\<exists>ls. items (w_reg w') k = Some (Item \<lparr>Hosts = tunnel_hosts ts, Listeners = ls\<rparr>) \<and>
      length ls = length (listening_tunnels ts) \<and>
      set_item \<lparr>Hosts = tunnel_hosts ts, Listeners = ls\<rparr> k (w_reg w) = (None, w_reg w')"
    and "w_conns w' = w_conns w"
    using r(1) open_tunnels_ok [OF one [unfolded r1]] by (auto simp: i1 intro!: exI [of _ "Listeners i1"])
qed

lemma same_world_parts:
  assumes "accounted base held w" and "accounted base held w'" and "same_rest w w'"
  shows "w_listeners w' = w_listeners w" and "w_vhosts w' = w_vhosts w"
proof -
  have rest: "w_reg w' = w_reg w" "w_vhosts w' = None \<longleftrightarrow> w_vhosts w = None"
    using assms(3) by (simp_all add: same_rest_def)
  have slots: "slot held w' = slot held w"
    by (rule slot_cong) (simp add: item_listeners_def rest(1))
  show "w_listeners w' = w_listeners w"
    using accountedD(2) [OF assms(1)] accountedD(2) [OF assms(2)] by (simp add: slots)
  have "vhost_entry name w' = vhost_entry name w" for name
    using accountedD(5) [OF assms(1), of name] accountedD(5) [OF assms(2), of name]
    by (metis not_None_eq slots)
  with rest(2) show "w_vhosts w' = w_vhosts w"
    by (cases "w_vhosts w"; cases "w_vhosts w'") (auto simp: vhost_entry_def fun_eq_iff)
qed

lemma srv_ok_addTunnels:
  assumes "srv_ok base held (p, w)" and "held c = []" and "addTunnels env ts k w = (res, w')"
    and "res \<noteq> Batch_panic"
  shows "srv_ok base held (p, w')" and "res = Batch_error e \<Longrightarrow> no_gain w w'"
proof -
  note acc = addTunnels_accounted [OF srv_okD(4) [OF assms(1)] assms(2-4)]
  have same: "same_rest w w'" if "res = Batch_error e" for e using acc(2) that by simp
  show "no_gain w w'" if "res = Batch_error e"
    using same_world_parts(1) [OF srv_okD(4) [OF assms(1)] acc(1) same [OF that]] same [OF that]
    by (simp add: no_gain_def same_rest_def)
  have "registry_inv (w_reg w')"
  proof (cases res)
    case Batch_ok
    from addTunnels_ok(1) [OF assms(3) [unfolded Batch_ok] srv_okD(4) [OF assms(1)] assms(2)]
    obtain i where "set_item i k (w_reg w) = (None, w_reg w')" by blast
    with registry_inv_set_item [OF srv_okD(3) [OF assms(1)], of i k] show ?thesis by simp
  next
    case (Batch_error e)
    with same [OF Batch_error] srv_okD(3) [OF assms(1)] show ?thesis by (simp add: same_rest_def)
  qed (use assms(4) in simp)
  with assms(1) acc(1) show "srv_ok base held (p, w')" by (simp add: srv_ok_def)
qed

text \<open>
  \<open>addTunnels\<close> is all or nothing: when any tunnel of the batch cannot be added, because a listener
  cannot be opened, a virtual host or a host is taken, the protocol is unknown or the client already
  has tunnels, then every listener and virtual host opened for the batch is closed again, the registry
  is as before, and no listener was closed twice.
\<close>

theorem addTunnels_rollback:
  assumes "accounted base held w" and "held c = []"
    and "fst (addTunnels env ts k w) = Batch_error e"
  shows "w_reg (snd (addTunnels env ts k w)) = w_reg w \<and>
    w_listeners (snd (addTunnels env ts k w)) = w_listeners w \<and>
    w_vhosts (snd (addTunnels env ts k w)) = w_vhosts w \<and>
    w_conns (snd (addTunnels env ts k w)) = w_conns w \<and> \<not> w_panic (snd (addTunnels env ts k w))"
proof -
  obtain w' where w': "addTunnels env ts k w = (Batch_error e, w')" using assms(3) by (metis prod.collapse)
  note acc = addTunnels_accounted [OF assms(1,2) w']
  have same: "same_rest w w'" using acc(2) by simp
  then have "w_reg w' = w_reg w" "w_conns w' = w_conns w" by (simp_all add: same_rest_def)
  with w' same_world_parts [OF assms(1) acc(1) same] accountedD(4) [OF acc(1)]
  show ?thesis by (simp (no_asm_simp))
qed

text \<open>
  When the batch is accepted, the client's item holds exactly the hosts of its HTTP tunnels, in
  order and with their credentials, and one listener for each of its other tunnels; it was stored by
  \<open>set\<close>, so that every host now leads to this client.
\<close>

theorem addTunnels_stored:
  assumes "accounted base held w" and "held c = []" and "fst (addTunnels env ts k w) = Batch_ok"
  shows "\<exists>ls. items (w_reg (snd (addTunnels env ts k w))) k =
      Some (Item \<lparr>Hosts = tunnel_hosts ts, Listeners = ls\<rparr>) \<and>
    length ls = length (listening_tunnels ts) \<and>
    (\<forall>h \<in> set (tunnel_hosts ts). \<exists>a. Subscriber (ha_Host h) (w_reg (snd (addTunnels env ts k w))) = Some (k, a))"
proof -
  obtain w' where w': "addTunnels env ts k w = (Batch_ok, w')" using assms(3) by (metis prod.collapse)
  from addTunnels_ok(1) [OF w' assms(1,2)] obtain ls where ls:
    "items (w_reg w') k = Some (Item \<lparr>Hosts = tunnel_hosts ts, Listeners = ls\<rparr>)"
    "length ls = length (listening_tunnels ts)"
    "set_item \<lparr>Hosts = tunnel_hosts ts, Listeners = ls\<rparr> k (w_reg w) = (None, w_reg w')" by blast
  have "\<exists>a. Subscriber (ha_Host h) (w_reg w') = Some (k, a)" if "h \<in> set (tunnel_hosts ts)" for h
  proof -
    have "trimPort (ha_Host h) \<in> host_keys (tunnel_hosts ts)" using that by (auto simp: host_keys_def)
    from assign_hosts_some [OF this, of k "hosts (w_reg w)"] set_item_NoneD(3) [OF ls(3)]
    show ?thesis by (auto simp: Subscriber_def)
  qed
  with ls w' show ?thesis by auto
qed


section \<open>A new server\<close>

lemma accounted_initial:
  assumes "items (w_reg w) = (\<lambda>_. None)" and "\<forall>n \<in> w_listeners w. n < w_next w"
    and "\<forall>m. w_vhosts w = Some m \<longrightarrow> m = (\<lambda>_. None)" and "\<not> w_panic w"
  shows "accounted (w_listeners w) no_batch w"
proof -
  have slots: "slot no_batch w = (\<lambda>s. [])"
    by (rule ext) (simp add: slot_def no_batch_def item_listeners_def assms(1) split: sum.split)
  have "vhost_entry name w = None" for name
    using assms(3) by (cases "w_vhosts w") (auto simp: vhost_entry_def)
  with assms(2,4) show ?thesis
    by (simp add: accounted_def slots apart_def listeners_of_def)
qed

lemma NewServer_srv_ok:
  assumes "NewServer cfg net_listen n = Inr (l, s)"
    and "\<forall>network addr h. net_listen network addr = Inr h \<longrightarrow> h < n"
    and "\<forall>h. cfg_Listener cfg = Some h \<longrightarrow> h < n"
  shows "srv_ok (w_listeners (snd s)) no_batch s"
proof -
  have "h < n" if "control_listener cfg net_listen = Inr h" for h
    using that assms(2,3) by (auto simp: control_listener_def split: option.splits if_splits)
  with assms(1,2) show ?thesis
    by (auto simp: NewServer_def Let_def srv_ok_def newConnPool_def newRegistry_def
        registry_inv_newRegistry [unfolded newRegistry_def] split: sum.splits if_splits
        intro!: accounted_initial)
qed


section \<open>An example\<close>

text \<open>A server with one control listener, to which connection 7 has been made, and a client of it.\<close>

definition demo_cfg :: "bool \<Rightarrow> server_config" where
  "demo_cfg auto =
     \<lparr>cfg_Addr = [], cfg_AutoSubscribe = auto, cfg_TLSConfig = True, cfg_Listener = Some 0,
      cfg_SNIAddr = [], cfg_CanSubscribe = None\<rparr>"

definition demo_server :: srv where
  "demo_server =
     (newConnPool (Some disconnected),
      \<lparr>w_reg = newRegistry, w_vhosts = None, w_listeners = {0}, w_conns = {7}, w_next = 1,
       w_panic = False, w_notified = [], w_errors = []\<rparr>)"

definition demo_env :: "(string \<times> tunnel option) list \<Rightarrow> conn_env" where
  "demo_env ts =
     \<lparr>ce_IsTLS = True, ce_sha256 = (\<lambda>cert. replicate 32 0), ce_Handshake = None,
      ce_PeerCertificates = [[1]], ce_VerifiedChains = [], ce_SetDeadline = None,
      ce_http2 = \<lparr>NewClientConn = Inr, PingConn = (\<lambda>_. None), CanTakeNewRequest = (\<lambda>_. True),
                  CloseConn = close_conn, Elapsed = 0\<rparr>,
      ce_NewRequest = (\<lambda>_. None),
      ce_Do = Inr \<lparr>resp_StatusCode = 200, resp_Status = ''200 OK'', resp_Header = (\<lambda>_. None),
                   resp_ContentLength = 2, resp_Body = ''{}''\<rparr>,
      ce_Decode = (\<lambda>_. Inr ts), ce_Listen = (\<lambda>_ _ _. None)\<rparr>"

definition demo_http :: tunnel where
  "demo_http = \<lparr>Protocol = HTTP, tunnel_Host = ''a.b'', tunnel_Auth = [], tunnel_Addr = []\<rparr>"

definition demo_tcp :: tunnel where
  "demo_tcp = \<lparr>Protocol = TCP, tunnel_Host = [], tunnel_Auth = [], tunnel_Addr = '':1''\<rparr>"

definition demo_bad :: tunnel where
  "demo_bad = \<lparr>Protocol = ''ftp'', tunnel_Host = [], tunnel_Auth = [], tunnel_Addr = []\<rparr>"

lemma demo_ok: "srv_ok {0} no_batch demo_server"
  using accounted_initial [of "snd demo_server"]
  by (simp add: srv_ok_def demo_server_def newConnPool_def newRegistry_def
      registry_inv_newRegistry [unfolded newRegistry_def])

lemma demo_accounted: "accounted {0} no_batch (snd demo_server)"
  using demo_ok by (simp add: srv_ok_def)

lemma no_batch_apply: "no_batch c = []"
  by (simp add: no_batch_def)

lemma demo_peer:
  "PeerID (ce_sha256 (demo_env ts)) (ce_Handshake (demo_env ts)) (ce_PeerCertificates (demo_env ts)) = Inr zero_ident"
  by (simp add: PeerID_def demo_env_def New_def ident_eq_iff bytes_of_copy)

lemma demo_handshake:
  "handshake (demo_env ts) i = (if ts = [] then Inl (Errorf ''No tunnels'') else Inr ts)"
  by (simp add: handshake_def demo_env_def)

lemma demo_admit:
  "admit (demo_cfg auto) (demo_env ts) i (snd demo_server) =
     (if auto then (True, (snd demo_server)\<lparr>w_reg := Subscribe i newRegistry\<rparr>) else (False, snd demo_server))"
  by (simp add: admit_def demo_cfg_def demo_server_def IsSubscribed_def newRegistry_def)

lemma demo_AddConn:
  "AddConn (server_http2 (demo_env ts)) 7 i (fst demo_server, w) =
     (None, (fst demo_server)\<lparr>conns := [pool_addr i \<mapsto> \<lparr>cp_conn = 7, clientConn = 7\<rparr>]\<rparr>, w)"
  by (simp add: AddConn_def demo_server_def newConnPool_def server_http2_def demo_env_def)

lemma demo_handleClient:
  "handleClient (demo_cfg True) (demo_env ts) 7 demo_server =
     (let p = (fst demo_server)\<lparr>conns := [pool_addr zero_ident \<mapsto> \<lparr>cp_conn = 7, clientConn = 7\<rparr>]\<rparr>;
          w = (snd demo_server)\<lparr>w_reg := Subscribe zero_ident newRegistry\<rparr>
      in if ts = [] then reject_pooled (demo_env ts) 7 zero_ident (Errorf ''No tunnels'') (p, w)
         else case addTunnels (demo_env ts) ts zero_ident w of
             (Batch_panic, w) \<Rightarrow> (Panicked, p, w)
           | (Batch_error err, w) \<Rightarrow> reject_pooled (demo_env ts) 7 zero_ident err (p, w)
           | (Batch_ok, w) \<Rightarrow> (Connected, p, w))"
proof -
  have tls: "ce_IsTLS (demo_env ts)" "ce_SetDeadline (demo_env ts) = None" by (simp_all add: demo_env_def)
  obtain p w where s: "demo_server = (p, w)" by fastforce
  show ?thesis
    using demo_admit [of True ts zero_ident] demo_AddConn [of ts zero_ident]
    by (simp add: handleClient_def s tls demo_peer demo_handshake Let_def)
qed

section \<open>The outcome of a connection\<close>

lemma srv_ok_reject:
  "srv_ok base held (p, w) \<Longrightarrow> srv_ok base held (snd (reject c (p, w)))"
  by (simp add: reject_def srv_ok_def)

lemma reject_pooled_ok:
  assumes "srv_ok base held (p, w)" and "held c = []"
  shows "srv_ok base held (snd (reject_pooled env conn i err (p, w))) \<and>
    no_gain w (snd (snd (reject_pooled env conn i err (p, w)))) \<and>
    conn \<notin> w_conns (snd (snd (reject_pooled env conn i err (p, w)))) \<and>
    fst (reject_pooled env conn i err (p, w)) = Rejected"
proof -
  have n: "srv_ok base held (p, notifyError env err i w)" "no_gain w (notifyError env err i w)"
    using srv_ok_notifyError [OF assms(1)] by blast+
  obtain p' w' where d: "server_DeleteConn i (p, notifyError env err i w) = (p', w')" by fastforce
  have "srv_ok base held (p', w')" "no_gain (notifyError env err i w) w'"
    using srv_ok_DeleteConn [OF n(1) assms(2), of i] by (simp_all add: d)
  with n(2) show ?thesis
    by (auto simp: reject_pooled_def d reject_def srv_ok_def
        intro: no_gain_trans [OF _ no_gain_trans] no_gain_trans)
qed

text \<open>
  The stages of \<open>handleClient\<close>: refused before the pool, refused in the pool, accepted, or a panic.
\<close>

text \<open>Up to the pool a connection is closed without a word, from then on it is told what is wrong.\<close>

lemma handleClient_entry:
  obtains (early) p' w' where "handleClient cfg env conn (p, w) = (Rejected, p', close_conn conn w')"
      "\<And>base held. srv_ok base held (p, w) \<Longrightarrow> held c = [] \<Longrightarrow> srv_ok base held (p', w') \<and> no_gain w w'"
  | (pooled) i p' w' where "handleClient cfg env conn (p, w) =
        (case handshake env i of
           Inl e \<Rightarrow> reject_pooled env conn i e (p', w')
         | Inr ts \<Rightarrow>
             (case addTunnels env ts i w' of
                (Batch_panic, w'') \<Rightarrow> (Panicked, p', w'')
              | (Batch_error e, w'') \<Rightarrow> reject_pooled env conn i e (p', w'')
              | (Batch_ok, w'') \<Rightarrow> (Connected, p', w'')))"
      "PeerID (ce_sha256 env) (ce_Handshake env) (ce_PeerCertificates env) = Inr i"
      "session_of (p', w') i = Some conn"
      "\<And>base held. srv_ok base held (p, w) \<Longrightarrow> held c = [] \<Longrightarrow> srv_ok base held (p', w') \<and> no_gain w w'"
proof (cases "ce_IsTLS env")
  case False
  with early [of p w] show ?thesis by (simp add: handleClient_def reject_def)
next
  case tls: True
  show ?thesis
  proof (cases "PeerID (ce_sha256 env) (ce_Handshake env) (ce_PeerCertificates env)")
    case (Inl err)
    with tls early [of p w] show ?thesis by (simp add: handleClient_def reject_def)
  next
    case peer: (Inr i)
    obtain ok w1 where admit: "admit cfg env i w = (ok, w1)" by fastforce
    have ok1: "srv_ok base held (p, w1) \<and> no_gain w w1" if "srv_ok base held (p, w)" for base held
      using srv_ok_admit [OF that admit] .
    show ?thesis
    proof (cases "ok \<and> ce_SetDeadline env = None")
      case False
      with tls peer admit ok1 early [of p w1] show ?thesis
        by (cases ok) (auto simp: handleClient_def reject_def)
    next
      case True
      obtain err p2 w2 where add: "AddConn (server_http2 env) conn i (p, w1) = (err, p2, w2)"
        by (metis prod_cases3)
      have ok2: "srv_ok base held (p2, w2) \<and> no_gain w w2" if "srv_ok base held (p, w)" "held c = []" for base held
        using srv_ok_AddConn [of base held p w1 c env conn i] ok1 [OF that(1)] that(2)
        by (auto simp: add intro: no_gain_trans)
      show ?thesis
      proof (cases err)
        case (Some e)
        with tls peer admit True add ok2 early [of p2 w2] show ?thesis
          by (simp add: handleClient_def reject_def)
      next
        case None
        have "session_of (p2, w2) i = Some conn" using sessions.add_self [OF add [unfolded None]] .
        with tls peer admit True add None ok2 pooled [of i p2 w2] show ?thesis by (simp add: handleClient_def)
      qed
    qed
  qed
qed

lemma handleClient_cases:
  obtains (early) p' w' where "handleClient cfg env conn (p, w) = (Rejected, p', close_conn conn w')"
      "\<And>base held. srv_ok base held (p, w) \<Longrightarrow> held c = [] \<Longrightarrow> srv_ok base held (p', w') \<and> no_gain w w'"
  | (late) i e p' w' where "handleClient cfg env conn (p, w) = reject_pooled env conn i e (p', w')"
      "\<And>base held. srv_ok base held (p, w) \<Longrightarrow> held c = [] \<Longrightarrow> srv_ok base held (p', w') \<and> no_gain w w'"
  | (connected) i ts p1 w1 w2 where "handleClient cfg env conn (p, w) = (Connected, p1, w2)"
      "PeerID (ce_sha256 env) (ce_Handshake env) (ce_PeerCertificates env) = Inr i"
      "handshake env i = Inr ts" "addTunnels env ts i w1 = (Batch_ok, w2)"
      "session_of (p1, w1) i = Some conn"
      "\<And>base held. srv_ok base held (p, w) \<Longrightarrow> held c = [] \<Longrightarrow> srv_ok base held (p1, w1)"
  | (panicked) i ts p1 w1 w2 where "handleClient cfg env conn (p, w) = (Panicked, p1, w2)"
      "handshake env i = Inr ts" "addTunnels env ts i w1 = (Batch_panic, w2)"
proof (cases rule: handleClient_entry [of cfg env conn p w c])
  case (early p' w')
  with that(1) show ?thesis by blast
next
  case (pooled i p2 w2)
  note entered = pooled(4)
  show ?thesis
  proof (cases "handshake env i")
    case (Inl e)
    with pooled that(2) [of i e p2 w2] show ?thesis by simp
  next
    case hs: (Inr ts)
    obtain res w3 where tun: "addTunnels env ts i w2 = (res, w3)" by fastforce
    have gained: "srv_ok base held (p2, w3) \<and> no_gain w w3"
      if "srv_ok base held (p, w)" "held c = []" "res = Batch_error e" for base held e
    proof -
      have before: "srv_ok base held (p2, w2)" "no_gain w w2" using entered [OF that(1,2)] by simp_all
      have "srv_ok base held (p2, w3)" "no_gain w2 w3"
        using srv_ok_addTunnels [OF before(1) that(2) tun] that(3) by simp_all
      with before show ?thesis by (blast intro: no_gain_trans)
    qed
    show ?thesis
    proof (cases res)
      case Batch_ok
      with pooled hs tun that(3) [of p2 w3 i ts w2] show ?thesis by simp
    next
      case (Batch_error e)
      with pooled(1) hs tun gained that(2) [of i e p2 w3] show ?thesis by simp
    next
      case Batch_panic
      with pooled(1) hs tun that(4) [of p2 w3 i ts w2] show ?thesis by simp
    qed
  qed
qed


text \<open>
  C1. Handling a connection keeps the invariant of the server, whatever the client sends and however the
  network answers, as long as the process does not panic: the registry's maps agree, every open
  listener has exactly one owner, the muxer knows exactly the virtual hosts in use and no listener
  has been closed twice.
\<close>

theorem handleClient_srv_ok:
  assumes "srv_ok base held s" and "held c = []" and "fst (handleClient cfg env conn s) \<noteq> Panicked"
  shows "srv_ok base held (snd (handleClient cfg env conn s))"
proof -
  obtain p w where s: "s = (p, w)" by fastforce
  note ok = assms(1) [unfolded s]
  show ?thesis
    unfolding s
  proof (cases rule: handleClient_cases [of cfg env conn p w c])
    case (early p' w')
    with early(2) [OF ok assms(2)] show "srv_ok base held (snd (handleClient cfg env conn (p, w)))"
      by (simp add: srv_ok_def)
  next
    case (late i e p' w')
    with reject_pooled_ok [of base held p' w' c env conn i e] ok assms(2)
    show "srv_ok base held (snd (handleClient cfg env conn (p, w)))" by simp
  next
    case (connected i ts p1 w1 w2)
    with srv_ok_addTunnels(1) [of base held p1 w1 c env ts i Batch_ok w2] ok assms(2)
    show "srv_ok base held (snd (handleClient cfg env conn (p, w)))" by simp
  next
    case (panicked i ts p1 w1 w2)
    with assms(3) s show "srv_ok base held (snd (handleClient cfg env conn (p, w)))" by simp
  qed
qed

text \<open>
  C15. A connection that is rejected is closed and gains nothing: no host leads to anybody it did not lead
  to before, no listener and no connection is open that was not open before.
\<close>

theorem handleClient_rejected:
  assumes "srv_ok base held s" and "held c = []" and "fst (handleClient cfg env conn s) = Rejected"
  shows "conn \<notin> w_conns (snd (snd (handleClient cfg env conn s))) \<and>
    no_gain (snd s) (snd (snd (handleClient cfg env conn s)))"
proof -
  obtain p w where s: "s = (p, w)" by fastforce
  note ok = assms(1) [unfolded s]
  show ?thesis
    unfolding s
  proof (cases rule: handleClient_cases [of cfg env conn p w c])
    case (early p' w')
    with no_gain_trans [OF conjunct2 [OF early(2) [OF ok assms(2)]] no_gain_close_conn, of conn]
    show "conn \<notin> w_conns (snd (snd (handleClient cfg env conn (p, w)))) \<and>
        no_gain (snd (p, w)) (snd (snd (handleClient cfg env conn (p, w))))"
      by simp
  next
    case (late i e p' w')
    with reject_pooled_ok [of base held p' w' c env conn i e] ok assms(2)
    show "conn \<notin> w_conns (snd (snd (handleClient cfg env conn (p, w)))) \<and>
        no_gain (snd (p, w)) (snd (snd (handleClient cfg env conn (p, w))))"
      by (auto intro: no_gain_trans)
  qed (use assms(3) s in simp_all)
qed

text \<open>
  A connection is accepted only when the peer proved its identity with exactly one certificate, its
  answer to the handshake was in order, and its whole batch of tunnels was added; then the pool has
  this connection for the client, and the client's item holds the hosts and listeners it asked for.
\<close>

theorem handleClient_connected:
  assumes "srv_ok base held s" and "held c = []" and "fst (handleClient cfg env conn s) = Connected"
  shows "\<exists>i ts ls cert. ce_PeerCertificates env = [cert] \<and> i = New (ce_sha256 env) cert \<and>
    handshake env i = Inr ts \<and> session_of (snd (handleClient cfg env conn s)) i = Some conn \<and>
    items (w_reg (snd (snd (handleClient cfg env conn s)))) i =
      Some (Item \<lparr>Hosts = tunnel_hosts ts, Listeners = ls\<rparr>) \<and>
    length ls = length (listening_tunnels ts)"
proof -
  obtain p w where s: "s = (p, w)" by fastforce
  note ok = assms(1) [unfolded s]
  show ?thesis
  proof (cases rule: handleClient_cases [of cfg env conn p w c])
    case (connected i ts p1 w1 w2)
    have acc: "accounted base held w1"
      using connected(6) [OF ok assms(2)] by (simp add: srv_ok_def)
    from connected(2) obtain cert where "ce_PeerCertificates env = [cert]" "i = New (ce_sha256 env) cert"
      by (auto simp: PeerID_def length_Suc_conv split: option.splits if_splits)
    moreover have "session_of (p1, w2) i = Some conn" using connected(5) by simp
    ultimately show ?thesis
      using connected(1,3) addTunnels_ok(1) [OF connected(4) acc assms(2)] s by auto
  next
    case (late i e p' w')
    with assms(3) s show ?thesis by (simp add: reject_pooled_def reject_def split: prod.splits)
  qed (use assms(3) s in simp_all)
qed

lemma unknown_refused:
  assumes "\<not> cfg_AutoSubscribe cfg"
    and "\<And>i can. PeerID (ce_sha256 env) (ce_Handshake env) (ce_PeerCertificates env) = Inr i \<Longrightarrow>
      \<not> IsSubscribed i (w_reg w) \<and> (cfg_CanSubscribe cfg = Some can \<longrightarrow> \<not> can i (peer_certs env))"
  shows "handleClient cfg env conn (p, w) = (Rejected, p, close_conn conn w)"
  using assms
  by (auto simp: handleClient_def admit_def reject_def split: sum.split option.split)

text \<open>
  A client that is not subscribed is refused without any effect when the server does not subscribe
  clients on its own and nobody vouches for it: only its connection is closed.
\<close>

theorem handleClient_unknown:
  assumes "\<not> cfg_AutoSubscribe cfg"
    and "\<And>i can. PeerID (ce_sha256 env) (ce_Handshake env) (ce_PeerCertificates env) = Inr i \<Longrightarrow>
      \<not> IsSubscribed i (w_reg w) \<and> (cfg_CanSubscribe cfg = Some can \<longrightarrow> \<not> can i (peer_certs env))"
  shows "handleClient cfg env conn (p, w) = (Rejected, p, close_conn conn w)"
  using assms by (rule unknown_refused)

section \<open>The example runs\<close>

lemma demo_subscribed:
  "accounted {0} no_batch ((snd demo_server)\<lparr>w_reg := Subscribe i newRegistry\<rparr>)"
proof -
  have "w_reg (snd demo_server) = newRegistry" by (simp add: demo_server_def)
  with demo_accounted accounted_Subscribe [where w = "snd demo_server" and i = i] show ?thesis by simp
qed

lemma demo_addTunnels:
  "addTunnels (demo_env ts) [(''web'', Some demo_http)] zero_ident
      ((snd demo_server)\<lparr>w_reg := Subscribe zero_ident newRegistry\<rparr>) =
    (Batch_ok, (snd demo_server)\<lparr>w_reg := snd (set_item
       \<lparr>Hosts = [\<lparr>ha_Host = ''a.b'', ha_Auth = None\<rparr>], Listeners = []\<rparr> zero_ident (Subscribe zero_ident newRegistry))\<rparr>)"
  by (simp add: addTunnels_def open_tunnel_def demo_http_def add_host_def set_item_def Subscribe_def
      newRegistry_def NewAuth_def)

lemma addTunnels_stored_witness:
  "\<exists>ls. items (w_reg (snd (addTunnels (demo_env []) [(''web'', Some demo_http)] zero_ident
      ((snd demo_server)\<lparr>w_reg := Subscribe zero_ident newRegistry\<rparr>)))) zero_ident =
    Some (Item \<lparr>Hosts = tunnel_hosts [(''web'', Some demo_http)], Listeners = ls\<rparr>)"
  using addTunnels_stored [OF demo_subscribed [of zero_ident] no_batch_apply, of "demo_env []" "[(''web'', Some demo_http)]" zero_ident]
  unfolding demo_addTunnels by auto

lemma addTunnels_rollback_witness:
  "w_listeners (snd (addTunnels (demo_env []) [(''ssh'', Some demo_tcp), (''x'', Some demo_bad)] zero_ident
     (snd demo_server))) = {0}"
proof -
  have "\<exists>e. fst (addTunnels (demo_env []) [(''ssh'', Some demo_tcp), (''x'', Some demo_bad)] zero_ident
      (snd demo_server)) = Batch_error e"
    by (simp add: addTunnels_def open_tunnel_def demo_tcp_def demo_bad_def net_Listen_def demo_env_def
        protocol_names split: option.splits)
  then show ?thesis
    using addTunnels_rollback [OF demo_accounted no_batch_apply] by (auto simp: demo_server_def)
qed

lemma demo_connected:
  "fst (handleClient (demo_cfg True) (demo_env [(''web'', Some demo_http)]) 7 demo_server) = Connected"
  by (simp add: demo_handleClient demo_addTunnels Let_def)

lemma demo_rejected: "fst (handleClient (demo_cfg True) (demo_env []) 7 demo_server) = Rejected"
  by (simp add: demo_handleClient Let_def reject_pooled_def reject_def split: prod.split)

lemma handleClient_srv_ok_witness:
  "srv_ok {0} no_batch (snd (handleClient (demo_cfg True) (demo_env [(''web'', Some demo_http)]) 7 demo_server))"
  by (rule handleClient_srv_ok [OF demo_ok no_batch_apply]) (simp add: demo_connected)

lemma handleClient_rejected_witness:
  "7 \<notin> w_conns (snd (snd (handleClient (demo_cfg True) (demo_env []) 7 demo_server)))"
  using handleClient_rejected [OF demo_ok no_batch_apply demo_rejected] by blast

lemma handleClient_connected_witness:
  "\<exists>i. session_of (snd (handleClient (demo_cfg True) (demo_env [(''web'', Some demo_http)]) 7 demo_server)) i = Some 7"
  using handleClient_connected [OF demo_ok no_batch_apply demo_connected] by blast

lemma handleClient_unknown_witness:
  "handleClient (demo_cfg False) (demo_env []) 7 demo_server =
     (Rejected, fst demo_server, close_conn 7 (snd demo_server))"
proof -
  have "handleClient (demo_cfg False) (demo_env []) 7 (fst demo_server, snd demo_server) =
      (Rejected, fst demo_server, close_conn 7 (snd demo_server))"
    by (rule handleClient_unknown)
       (simp_all add: demo_cfg_def demo_server_def IsSubscribed_def newRegistry_def)
  then show ?thesis by simp
qed

text \<open>
  A client can crash the server: when the decoded map has a \<open>null\<close> tunnel and only HTTP tunnels are
  visited before it, \<open>addTunnels\<close> dereferences a nil pointer, and nothing recovers the panic.
\<close>

theorem addTunnels_nil_panics:
  assumes "list_all (\<lambda>(name, t). \<exists>u. t = Some u \<and> Protocol u = HTTP) ts"
  shows "addTunnels env (ts @ (name, None) # us) k w = (Batch_panic, w)"
proof -
  have "\<exists>i'. open_tunnels env (ts @ (name, None) # us) i w = (Batch_panic, i', w)" for i
    using assms by (induction ts arbitrary: i) (auto simp: open_tunnel_def)
  then obtain i' where "open_tunnels env (ts @ (name, None) # us) \<lparr>Hosts = [], Listeners = []\<rparr> w = (Batch_panic, i', w)"
    by blast
  then show ?thesis by (simp add: addTunnels_def)
qed

lemma addTunnels_nil_panics_witness:
  "addTunnels (demo_env []) ([(''web'', Some demo_http)] @ (''x'', None) # []) zero_ident (snd demo_server) =
     (Batch_panic, snd demo_server)"
  by (rule addTunnels_nil_panics) (simp add: demo_http_def)

end
