(* ===== verification/Server_Steps.thy ===== *)
theory Server_Steps
  imports Server_Client
begin

text \<open>
  The server with its goroutines interleaved: handlers of client connections, the HTTP/2 transport that
  marks connections dead, and callers of \<open>Unsubscribe\<close>. A step is what runs under one mutex or on one
  listener: an operation of the registry, the pool's part of an operation, opening or closing one
  listener. The pool's mutex is held while \<open>disconnected\<close> runs; the registry's never is.
\<close>

section \<open>Phases\<close>

text \<open>What a goroutine goes on with after the pool has let a connection go.\<close>

datatype aim = To_add conn_env ident | To_reject | To_end | To_remove ident

text \<open>
  The program counter of a goroutine with its local variables. \<open>Starting\<close> to \<open>Finished\<close> are the stages of
  \<open>handleClient\<close>, with \<open>Opening\<close> and \<open>Rolling\<close> inside of \<open>addTunnels\<close>; \<open>Deleting\<close> is \<open>DeleteConn\<close>;
  \<open>Freeing\<close> and \<open>Closing\<close> are \<open>disconnected\<close>; \<open>Removing\<close> is the end of \<open>Unsubscribe\<close>, which returns the
  item and its listeners to the caller (\<open>Done\<close>).
\<close>

datatype phase =
    Idle
  | Starting conn_env
  | Admitted conn_env ident
  | Adding conn_env ident
  | Pooled conn_env ident
  | Opening conn_env ident "(string \<times> tunnel option) list" "listener registry_item"
  | Rolling conn_env ident go_error "listener list"
  | Failing conn_env ident go_error
  | Deleting ident aim
  | Freeing ident aim
  | Closing "listener list" aim
  | Rejecting
  | Removing ident
  | Finished handled
  | Done "listener list"

fun resume :: "aim \<Rightarrow> phase" where
  "resume (To_add env i) = Adding env i"
| "resume To_reject = Rejecting"
| "resume To_end = Done []"
| "resume (To_remove i) = Removing i"

text \<open>The pool's mutex stays held when \<open>AddConn\<close> goes on after closing a dead connection.\<close>

fun keeps_lock :: "aim \<Rightarrow> bool" where
  "keeps_lock (To_add env i) = True"
| "keeps_lock _ = False"

type_synonym local = "phase \<times> pool \<times> world \<times> nat option"

text \<open>The pool's \<open>close\<close> up to the call of \<open>free\<close>, by goroutine \<open>c\<close>.\<close>

definition drop_conn ::
  "nat \<Rightarrow> (nat, nat) conn_pair \<Rightarrow> string \<Rightarrow> aim \<Rightarrow> pool \<Rightarrow> world \<Rightarrow> local" where
  "drop_conn c cp addr aim p w =
     (Freeing (pool_identifier addr) aim, p\<lparr>conns := (conns p)(addr := None)\<rparr>, close_conn (cp_conn cp) w, Some c)"

definition add_conn :: "nat \<Rightarrow> conn_env \<Rightarrow> ident \<Rightarrow> pool \<Rightarrow> world \<Rightarrow> local" where
  "add_conn c env i p w =
     (case NewClientConn (server_http2 env) c of
        Inl err \<Rightarrow> (Rejecting, p, w, None)
      | Inr d \<Rightarrow> (Pooled env i, p\<lparr>conns := (conns p)(pool_addr i \<mapsto> \<lparr>cp_conn = c, clientConn = d\<rparr>)\<rparr>, w, None))"

text \<open>
  One step of goroutine \<open>c\<close>, which handles connection \<open>c\<close> if it handles one: \<open>None\<close> when it waits for
  the mutex or has nothing left to do. Dereferencing a nil tunnel ends the process, so there is no step
  for it.
\<close>

fun advance :: "server_config \<Rightarrow> nat \<Rightarrow> phase \<Rightarrow> pool \<Rightarrow> world \<Rightarrow> nat option \<Rightarrow> local option" where
  "advance cfg c (Starting env) p w lk =
     (if \<not> ce_IsTLS env then Some (Rejecting, p, w, lk)
      else case PeerID (ce_sha256 env) (ce_Handshake env) (ce_PeerCertificates env) of
        Inl err \<Rightarrow> Some (Rejecting, p, w, lk)
      | Inr i \<Rightarrow>
          (case admit cfg env i w of
             (False, w) \<Rightarrow> Some (Rejecting, p, w, lk)
           | (True, w) \<Rightarrow>
               Some (if ce_SetDeadline env \<noteq> None then Rejecting else Admitted env i, p, w, lk)))"
| "advance cfg c (Admitted env i) p w lk =
     (if lk \<noteq> None then None
      else case conns p (pool_addr i) of
        None \<Rightarrow> Some (add_conn c env i p w)
      | Some cp \<Rightarrow>
          (case ping (server_http2 env) cp of
             Some err \<Rightarrow> Some (drop_conn c cp (pool_addr i) (To_add env i) p w)
           | None \<Rightarrow> Some (Rejecting, p, w, None)))"
| "advance cfg c (Adding env i) p w lk = Some (add_conn c env i p w)"
| "advance cfg c (Pooled env i) p w lk =
     (case handshake env i of
        Inl err \<Rightarrow> Some (Failing env i err, p, w, lk)
      | Inr ts \<Rightarrow> Some (Opening env i ts \<lparr>Hosts = [], Listeners = []\<rparr>, p, w, lk))"
| "advance cfg c (Opening env i [] it) p w lk =
     (case set_item it i (w_reg w) of
        (Some err, r) \<Rightarrow> Some (Rolling env i err (Listeners it), p, w\<lparr>w_reg := r\<rparr>, lk)
      | (None, r) \<Rightarrow> Some (Finished Connected, p, w\<lparr>w_reg := r\<rparr>, lk))"
| "advance cfg c (Opening env i ((name, None) # ts) it) p w lk = None"
| "advance cfg c (Opening env i ((name, Some t) # ts) it) p w lk =
     (case open_tunnel env name t it w of
        (Some err, it, w) \<Rightarrow> Some (Rolling env i err (Listeners it), p, w, lk)
      | (None, it, w) \<Rightarrow> Some (Opening env i ts it, p, w, lk))"
| "advance cfg c (Rolling env i err (l # ls)) p w lk = Some (Rolling env i err ls, p, close_listener l w, lk)"
| "advance cfg c (Rolling env i err []) p w lk = Some (Failing env i err, p, w, lk)"
| "advance cfg c (Failing env i err) p w lk =
     Some (Deleting i To_reject, p, notifyError env err i w, lk)"
| "advance cfg c (Deleting i aim) p w lk =
     (if lk \<noteq> None then None
      else case conns p (pool_addr i) of
        None \<Rightarrow> Some (Closing [] aim, p, w, Some c)
      | Some cp \<Rightarrow> Some (drop_conn c cp (pool_addr i) aim p w))"
| "advance cfg c (Freeing i aim) p w lk =
     (case clear i (w_reg w) of
        (it, r) \<Rightarrow> Some (Closing (case it of None \<Rightarrow> [] | Some it \<Rightarrow> Listeners it) aim, p, w\<lparr>w_reg := r\<rparr>, lk))"
| "advance cfg c (Closing (l # ls) aim) p w lk = Some (Closing ls aim, p, close_listener l w, lk)"
| "advance cfg c (Closing [] aim) p w lk = Some (resume aim, p, w, if keeps_lock aim then lk else None)"
| "advance cfg c Rejecting p w lk = Some (Finished Rejected, p, close_conn c w, lk)"
| "advance cfg c (Removing i) p w lk =
     (case Unsubscribe i (w_reg w) of
        (it, r) \<Rightarrow> Some (Done (case it of Some (Item it) \<Rightarrow> Listeners it | _ \<Rightarrow> []), p, w\<lparr>w_reg := r\<rparr>, lk))"
| "advance cfg c Idle p w lk = None"
| "advance cfg c (Finished h) p w lk = None"
| "advance cfg c (Done ls) p w lk = None"


section \<open>The system\<close>

record system =
  sy_pool :: pool
  sy_world :: world
  sy_lock :: "nat option"
  sy_pc :: "nat \<Rightarrow> phase"

definition put :: "system \<Rightarrow> nat \<Rightarrow> local \<Rightarrow> system" where
  "put s c = (\<lambda>(ph, p, w, lk). \<lparr>sy_pool = p, sy_world = w, sy_lock = lk, sy_pc = (sy_pc s)(c := ph)\<rparr>)"

text \<open>
  Events: a connection is accepted, the transport reports a dead HTTP/2 connection, somebody
  unsubscribes a client, or a goroutine makes a step. \<open>MarkDead\<close> scans the pool for the connection in one
  step, under the mutex.
\<close>

datatype event =
    Accepted nat conn_env
  | Dead nat nat ident
  | Unsubscribing nat ident
  | Step nat

inductive sys_step :: "server_config \<Rightarrow> system \<Rightarrow> event \<Rightarrow> system \<Rightarrow> bool"
  for cfg :: server_config where
  accepted: "sy_pc s c = Idle \<Longrightarrow>
    sys_step cfg s (Accepted c env)
      (put s c (Starting env, sy_pool s, (sy_world s)\<lparr>w_conns := insert c (w_conns (sy_world s))\<rparr>, sy_lock s))"
| dead: "sy_pc s c = Idle \<Longrightarrow> sy_lock s = None \<Longrightarrow>
    session_conn i (sy_pool s) = Some cp \<Longrightarrow> clientConn cp = d \<Longrightarrow>
    sys_step cfg s (Dead c d i) (put s c (drop_conn c cp (pool_addr i) To_end (sy_pool s) (sy_world s)))"
| unsubscribing: "sy_pc s c = Idle \<Longrightarrow>
    sys_step cfg s (Unsubscribing c i)
      (put s c (Deleting i (To_remove i), sy_pool s,
        (case cfg_CanSubscribe cfg of
           None \<Rightarrow> sy_world s
         | Some f \<Rightarrow> (sy_world s)\<lparr>w_notified := Unsubscribed i # w_notified (sy_world s)\<rparr>), sy_lock s))"
| step: "advance cfg c (sy_pc s c) (sy_pool s) (sy_world s) (sy_lock s) = Some l \<Longrightarrow>
    sys_step cfg s (Step c) (put s c l)"

inductive_cases sys_stepE: "sys_step cfg s e t"


section \<open>Ownership under interleaving\<close>

text \<open>The listeners a goroutine has in its hands.\<close>

fun batch :: "phase \<Rightarrow> listener list" where
  "batch (Opening env i ts it) = Listeners it"
| "batch (Rolling env i err ls) = ls"
| "batch (Closing ls aim) = ls"
| "batch (Done ls) = ls"
| "batch _ = []"

lemma batch_resume [simp]: "batch (resume aim) = []"
  by (cases aim) simp_all

definition sys_ok :: "nat set \<Rightarrow> system \<Rightarrow> bool" where
  "sys_ok base s \<longleftrightarrow> accounted base (\<lambda>c. batch (sy_pc s c)) (sy_world s)"

lemma batch_put: "(\<lambda>d. batch (((sy_pc s)(c := ph)) d)) = (\<lambda>d. batch (sy_pc s d))(c := batch ph)"
  by auto

lemma accounted_same:
  assumes "accounted base held w" and "held c = ls"
    and "w_reg w' = w_reg w" "w_listeners w' = w_listeners w" "w_next w' = w_next w"
    "w_vhosts w' = w_vhosts w" "w_panic w' = w_panic w"
  shows "accounted base (held(c := ls)) w'"
proof -
  have "held(c := ls) = held" using assms(2) by (simp add: fun_upd_idem)
  with accounted_cong [OF assms(3-7), of base held] assms(1) show ?thesis by simp
qed

lemma accounted_Unsubscribe:
  assumes acc: "accounted base held w" and "held c = []"
  shows "accounted base (held(c := item_listeners k w)) (w\<lparr>w_reg := snd (Unsubscribe k (w_reg w))\<rparr>)"
  using acc
proof (rule accounted_move [where s = "Inr k" and t = "Inl c"])
  show "slot held w (Inl c) = []" using assms(2) by simp
  show "slot (held(c := item_listeners k w)) (w\<lparr>w_reg := snd (Unsubscribe k (w_reg w))\<rparr>) =
      (slot held w)(Inr k := [], Inl c := slot held w (Inr k))"
    by (intro ext)
       (auto simp: slot_def item_listeners_def Unsubscribe_def split: sum.split option.split item_ref.split)
qed simp_all

lemma accounted_admit:
  "accounted base held w \<Longrightarrow> admit cfg env i w = (b, w') \<Longrightarrow> accounted base held w'"
  by (auto simp: admit_def Let_def accounted_Subscribe split: if_splits option.splits)

lemma notifyError_frame [simp]:
  "w_reg (notifyError env e i w) = w_reg w" "w_listeners (notifyError env e i w) = w_listeners w"
  "w_next (notifyError env e i w) = w_next w" "w_vhosts (notifyError env e i w) = w_vhosts w"
  "w_panic (notifyError env e i w) = w_panic w"
  by (simp_all add: notifyError_def split: option.split)

lemma add_conn_accounted:
  assumes "accounted base held w" and "held c = []" and "add_conn c env i p w = (ph, p', w', lk')"
  shows "accounted base (held(c := batch ph)) w'"
  using assms by (auto simp: add_conn_def fun_upd_idem split: sum.splits)

lemma drop_conn_accounted:
  assumes "accounted base held w" and "held c = []" and "drop_conn c cp addr aim p w = (ph, p', w', lk')"
  shows "accounted base (held(c := batch ph)) w'"
  using assms by (auto simp: drop_conn_def fun_upd_idem)

lemma set_item_error: "set_item it i r = (Some e, r') \<Longrightarrow> r' = r"
  by (rule set_item_cases [of it i r]) auto

text \<open>Each step of a goroutine moves listeners between the slots, opens or closes one, or neither.\<close>

lemma opening_accounted:
  assumes "accounted base held w" and "held c = Listeners it"
    and "advance cfg c (Opening env i ts it) p w lk = Some (ph', p', w', lk')"
  shows "accounted base (held(c := batch ph')) w'"
proof (cases ts)
  case Nil
  show ?thesis
  proof (cases "fst (set_item it i (w_reg w))")
    case None
    with accounted_set_item [OF assms(1,2) None] Nil assms(3) show ?thesis
      by (auto split: prod.splits option.splits)
  next
    case (Some e)
    then obtain r where r: "set_item it i (w_reg w) = (Some e, r)" by (metis prod.collapse)
    with set_item_error [OF r] Nil assms show ?thesis by (auto simp: fun_upd_idem)
  qed
next
  case (Cons e ts')
  with assms(3) obtain name t where e: "e = (name, Some t)" by (cases e; cases "snd e") auto
  obtain res it1 w1 where one: "open_tunnel env name t it w = (res, it1, w1)" by (metis prod_cases3)
  with open_tunnel_accounted [OF assms(1,2) one] Cons e assms(3) show ?thesis
    by (auto split: option.splits)
qed

lemma advance_accounted:
  assumes "accounted base held w" and "held c = batch ph" and "advance cfg c ph p w lk = Some (ph', p', w', lk')"
  shows "accounted base (held(c := batch ph')) w'"
proof (cases ph)
  case (Starting env)
  with assms show ?thesis
    by (auto simp: fun_upd_idem split: if_splits sum.splits prod.splits bool.splits intro: accounted_admit)
next
  case (Admitted env i)
  with assms show ?thesis
    by (auto simp: fun_upd_idem split: if_splits option.splits intro: add_conn_accounted drop_conn_accounted)
next
  case (Adding env i)
  with assms show ?thesis by (auto intro: add_conn_accounted)
next
  case (Pooled env i)
  with assms show ?thesis by (auto simp: fun_upd_idem split: sum.splits)
next
  case (Opening env i ts it)
  with opening_accounted [OF assms(1)] assms(2,3) show ?thesis by simp
next
  case (Rolling env i err ls)
  with accounted_close [OF assms(1), of c] assms show ?thesis
    by (cases ls) (auto simp: fun_upd_idem)
next
  case (Deleting i aim)
  with assms show ?thesis
    by (auto simp: fun_upd_idem split: if_splits option.splits intro: drop_conn_accounted)
next
  case (Freeing i aim)
  with accounted_clear [OF assms(1), of c i] assms show ?thesis
    by (auto simp: cleared_def split: prod.splits)
next
  case (Closing ls aim)
  with accounted_close [OF assms(1), of c] assms show ?thesis
    by (cases ls) (auto simp: fun_upd_idem)
next
  case (Removing i)
  have "item_listeners i w = (case fst (Unsubscribe i (w_reg w)) of Some (Item it) \<Rightarrow> Listeners it | _ \<Rightarrow> [])"
    by (auto simp: item_listeners_def Unsubscribe_def split: option.split item_ref.split)
  with accounted_Unsubscribe [OF assms(1), of c i] Removing assms show ?thesis
    by (auto split: prod.splits)
qed (use assms in \<open>auto simp: fun_upd_idem intro: accounted_same\<close>)

lemma sys_ok_put:
  assumes "sys_ok base s" and "advance cfg c (sy_pc s c) (sy_pool s) (sy_world s) (sy_lock s) = Some l"
  shows "sys_ok base (put s c l)"
proof -
  obtain ph p w lk where l: "l = (ph, p, w, lk)" by (cases l)
  have "accounted base ((\<lambda>d. batch (sy_pc s d))(c := batch ph)) w"
    using assms by (intro advance_accounted [of _ _ "sy_world s" c "sy_pc s c"]) (simp_all add: sys_ok_def l)
  then show ?thesis by (simp only: sys_ok_def l put_def prod.case system.simps batch_put)
qed

lemma sys_ok_enter:
  assumes "sys_ok base s" and "sy_pc s c = Idle" and "batch ph = []"
    and "accounted base (\<lambda>d. batch (sy_pc s d)) w"
  shows "sys_ok base (put s c (ph, p, w, lk))"
proof -
  have "(\<lambda>d. batch (((sy_pc s)(c := ph)) d)) = (\<lambda>d. batch (sy_pc s d))" using assms(2,3) by auto
  then show ?thesis using assms(4) by (simp only: sys_ok_def put_def prod.case system.simps)
qed

lemma sys_ok_step: "sys_step cfg s e t \<Longrightarrow> sys_ok base s \<Longrightarrow> sys_ok base t"
proof (erule sys_stepE)
  fix c env assume ok: "sys_ok base s" and "sy_pc s c = Idle"
    and t: "t = put s c (Starting env, sy_pool s, (sy_world s)\<lparr>w_conns := insert c (w_conns (sy_world s))\<rparr>, sy_lock s)"
  moreover have "accounted base (\<lambda>d. batch (sy_pc s d)) ((sy_world s)\<lparr>w_conns := insert c (w_conns (sy_world s))\<rparr>)"
    using ok unfolding sys_ok_def by (subst accounted_cong) simp_all
  ultimately show "sys_ok base t" by (simp add: sys_ok_enter)
next
  fix c i cp d assume ok: "sys_ok base s" and "sy_pc s c = Idle"
    and t: "t = put s c (drop_conn c cp (pool_addr i) To_end (sy_pool s) (sy_world s))"
  show "sys_ok base t"
    unfolding t drop_conn_def using ok \<open>sy_pc s c = Idle\<close> by (intro sys_ok_enter) (simp_all add: sys_ok_def)
next
  fix c i assume ok: "sys_ok base s" and "sy_pc s c = Idle"
    and t: "t = put s c (Deleting i (To_remove i), sy_pool s,
        (case cfg_CanSubscribe cfg of None \<Rightarrow> sy_world s
         | Some f \<Rightarrow> (sy_world s)\<lparr>w_notified := Unsubscribed i # w_notified (sy_world s)\<rparr>), sy_lock s)"
  show "sys_ok base t"
    unfolding t using ok \<open>sy_pc s c = Idle\<close> by (intro sys_ok_enter) (simp_all add: sys_ok_def split: option.split)
next
  fix c l assume "sys_ok base s" and "advance cfg c (sy_pc s c) (sy_pool s) (sy_world s) (sy_lock s) = Some l"
    and t: "t = put s c l"
  then show "sys_ok base t" by (simp add: sys_ok_put)
qed

definition sys_initial :: "nat set \<Rightarrow> system \<Rightarrow> bool" where
  "sys_initial base s \<longleftrightarrow> accounted base no_batch (sy_world s) \<and> sy_lock s = None \<and> (\<forall>c. sy_pc s c = Idle)"

text \<open>The mutex of the pool: it is held exactly by the goroutine that closes a connection or adds one after that.\<close>

fun in_pool :: "phase \<Rightarrow> bool" where
  "in_pool (Adding env i) = True"
| "in_pool (Freeing i aim) = True"
| "in_pool (Closing ls aim) = True"
| "in_pool _ = False"

definition lock_ok :: "system \<Rightarrow> bool" where
  "lock_ok s \<longleftrightarrow> (\<forall>c. in_pool (sy_pc s c) \<longleftrightarrow> sy_lock s = Some c)"

lemma in_pool_resume: "in_pool (resume aim) = keeps_lock aim"
  by (cases aim) simp_all

lemma advance_lock:
  assumes "advance cfg c ph p w lk = Some (ph', p', w', lk')" and "in_pool ph \<longleftrightarrow> lk = Some c"
  shows "(in_pool ph' \<longleftrightarrow> lk' = Some c) \<and> (\<forall>d. d \<noteq> c \<longrightarrow> (lk' = Some d) = (lk = Some d))"
  using assms
proof (induction cfg c ph p w lk rule: advance.induct)
qed (auto simp: add_conn_def drop_conn_def in_pool_resume split: if_splits option.splits sum.splits prod.splits bool.splits)

lemma lock_ok_enter:
  assumes "lock_ok s" and "sy_pc s c = Idle" and "\<not> in_pool ph"
  shows "lock_ok (put s c (ph, p, w, sy_lock s))"
proof -
  have "sy_lock s \<noteq> Some c" using assms(1,2) unfolding lock_ok_def by (metis in_pool.simps(4))
  with assms show ?thesis by (auto simp: lock_ok_def put_def)
qed

lemma lock_ok_step:
  assumes "sys_step cfg s e t" and "lock_ok s" shows "lock_ok t"
  using assms(1)
proof cases
  case (accepted c env)
  then show ?thesis using lock_ok_enter [OF assms(2) accepted(3)] by simp
next
  case (dead c i cp d)
  then show ?thesis using assms(2) by (auto simp: lock_ok_def put_def drop_conn_def)
next
  case (unsubscribing c i)
  then show ?thesis using lock_ok_enter [OF assms(2) unsubscribing(3)] by simp
next
  case (step c l)
  obtain ph p w lk where l: "l = (ph, p, w, lk)" by (cases l)
  have own: "in_pool (sy_pc s c) \<longleftrightarrow> sy_lock s = Some c" using assms(2) by (simp add: lock_ok_def)
  from advance_lock [OF step(3) [unfolded l] own] assms(2) show ?thesis
    by (auto simp: lock_ok_def step(2) l put_def)
qed

interpretation serving: invariant_machine "sys_initial base" "sys_step cfg" "\<lambda>s. sys_ok base s \<and> lock_ok s"
proof (rule invariant_machine.intro)
  show "sys_ok base s \<and> lock_ok s" if "sys_initial base s" for s
    using that by (simp add: sys_initial_def sys_ok_def lock_ok_def no_batch_def)
  show "sys_ok base t \<and> lock_ok t" if "sys_ok base s \<and> lock_ok s" "sys_step cfg s e t" for s e t
    using that sys_ok_step lock_ok_step by blast
qed


section \<open>Safety of every interleaving\<close>

text \<open>A goroutine has no more to do, or is about to dereference a nil tunnel, which ends the process.\<close>

fun ended :: "phase \<Rightarrow> bool" where
  "ended Idle = True"
| "ended (Finished h) = True"
| "ended (Done ls) = True"
| "ended (Opening env i ((name, None) # ts) it) = True"
| "ended _ = False"

lemma advance_enabled: "lk = None \<or> in_pool ph \<Longrightarrow> \<not> ended ph \<Longrightarrow> advance cfg c ph p w lk \<noteq> None"
  by (induction cfg c ph p w lk rule: advance.induct)
     (auto simp: add_conn_def drop_conn_def split: sum.split prod.split bool.split option.split)

text \<open>
  C2. However the handlers of clients, dead connections and calls of \<open>Unsubscribe\<close> interleave, no listener
  is ever closed twice, every open listener is the control or SNI listener, or is owned by exactly one
  client's item or one goroutine, and the multiplexer knows exactly the virtual hosts in use. When all
  goroutines have ended without a panic, the open listeners are those of the base, of the items, and
  those handed to callers of \<open>Unsubscribe\<close>.
\<close>

theorem interleaved_listeners:
  assumes "sys_initial base s" and "run (sys_step cfg) s es t"
  shows "\<not> w_panic (sy_world t) \<and>
    w_listeners (sy_world t) = base \<union> handle ` (\<Union>c. set (batch (sy_pc t c))) \<union>
      handle ` (\<Union>i. set (item_listeners i (sy_world t))) \<and>
    (\<forall>i j. i \<noteq> j \<longrightarrow> handles (item_listeners i (sy_world t)) \<inter> handles (item_listeners j (sy_world t)) = {}) \<and>
    (\<forall>c d. c \<noteq> d \<longrightarrow> handles (batch (sy_pc t c)) \<inter> handles (batch (sy_pc t d)) = {}) \<and>
    (\<forall>c i. handles (batch (sy_pc t c)) \<inter> handles (item_listeners i (sy_world t)) = {})"
proof -
  let ?held = "\<lambda>c. batch (sy_pc t c)"
  have acc: "accounted base ?held (sy_world t)"
    using serving.inv_reachable [OF assms] by (simp add: sys_ok_def)
  have "listeners_of (slot ?held (sy_world t)) =
      (\<Union>c. set (batch (sy_pc t c))) \<union> (\<Union>i. set (item_listeners i (sy_world t)))"
    by (simp add: listeners_of_def UNIV_sum slot_def)
  then have "w_listeners (sy_world t) = base \<union> handle ` (\<Union>c. set (batch (sy_pc t c))) \<union>
      handle ` (\<Union>i. set (item_listeners i (sy_world t)))"
    using accountedD(2) [OF acc] by (simp add: image_Un Un_assoc)
  moreover have "handles (slot ?held (sy_world t) x) \<inter> handles (slot ?held (sy_world t) y) = {}" if "x \<noteq> y" for x y
    using apartD(2) [OF accountedD(1) [OF acc] that] .
  from this [of "Inr i" "Inr j" for i j] this [of "Inl c" "Inl d" for c d] this [of "Inl c" "Inr i" for c i]
  have "(\<forall>i j. i \<noteq> j \<longrightarrow> handles (item_listeners i (sy_world t)) \<inter> handles (item_listeners j (sy_world t)) = {}) \<and>
    (\<forall>c d. c \<noteq> d \<longrightarrow> handles (batch (sy_pc t c)) \<inter> handles (batch (sy_pc t d)) = {}) \<and>
    (\<forall>c i. handles (batch (sy_pc t c)) \<inter> handles (item_listeners i (sy_world t)) = {})"
    by simp
  ultimately show ?thesis using accountedD(4) [OF acc] by blast
qed

text \<open>
  C26. The goroutines never block each other for good: in every reachable state in which some goroutine has
  not ended, some goroutine can make a step, because the holder of the pool's mutex always can.
\<close>

theorem interleaved_progress:
  assumes "sys_initial base s" and "run (sys_step cfg) s es t" and "\<not> ended (sy_pc t c)"
  shows "\<exists>d u. sys_step cfg t (Step d) u"
proof -
  have lock: "in_pool (sy_pc t d) \<longleftrightarrow> sy_lock t = Some d" for d
    using serving.inv_reachable [OF assms(1,2)] by (simp add: lock_ok_def)
  have step: "\<exists>u. sys_step cfg t (Step d) u" if "sy_lock t = None \<or> in_pool (sy_pc t d)" "\<not> ended (sy_pc t d)" for d
    using advance_enabled [OF that, of cfg d "sy_pool t" "sy_world t"] by (blast intro: sys_step.step)
  show ?thesis
  proof (cases "sy_lock t")
    case None
    with step [of c] assms(3) show ?thesis by blast
  next
    case (Some d)
    with lock have "in_pool (sy_pc t d)" by simp
    moreover from this have "\<not> ended (sy_pc t d)" by (cases "sy_pc t d") simp_all
    ultimately show ?thesis using step by blast
  qed
qed

end
