(* ===== verification/Server_Solo.thy ===== *)
theory Server_Solo
  imports Server_Steps
begin

text \<open>
  Consequences of the interleaved server: a goroutine that runs alone computes the function
  \<open>handleClient\<close>, so the function is what the machine refines to; an interleaving that the function does
  not show; and an example run.
\<close>

section \<open>One goroutine alone is the function\<close>

definition solo :: "server_config \<Rightarrow> nat \<Rightarrow> system \<Rightarrow> system \<Rightarrow> bool" where
  "solo cfg c s t \<longleftrightarrow> (\<exists>n. run (sys_step cfg) s (replicate n (Step c)) t)"

lemma solo_refl: "solo cfg c s s"
  unfolding solo_def by (rule exI [of _ 0]) simp

lemma put_simps [simp]:
  "sy_pc (put s c (ph, p, w, lk)) c = ph" "sy_pool (put s c (ph, p, w, lk)) = p"
  "sy_world (put s c (ph, p, w, lk)) = w" "sy_lock (put s c (ph, p, w, lk)) = lk"
  "put (put s c l) c l' = put s c l'"
  by (simp_all add: put_def split: prod.split)

lemma solo_next:
  assumes "advance cfg c ph p w lk = Some l" and "solo cfg c (put s c l) t"
  shows "solo cfg c (put s c (ph, p, w, lk)) t"
proof -
  from assms(2) obtain n where n: "run (sys_step cfg) (put s c l) (replicate n (Step c)) t"
    by (auto simp: solo_def)
  have "sys_step cfg (put s c (ph, p, w, lk)) (Step c) (put s c l)"
    using sys_step.step [of cfg c "put s c (ph, p, w, lk)" l] assms(1) by simp
  with n have "run (sys_step cfg) (put s c (ph, p, w, lk)) (replicate (Suc n) (Step c)) t"
    by (auto simp: run_Cons_iff)
  then show ?thesis unfolding solo_def by blast
qed

lemma solo_closing:
  "solo cfg c (put s c (resume aim, p, fold close_listener ls w, if keeps_lock aim then lk else None)) t \<Longrightarrow>
   solo cfg c (put s c (Closing ls aim, p, w, lk)) t"
  by (induction ls arbitrary: w) (auto intro: solo_next)

lemma solo_drop:
  assumes "solo cfg c (put s c (resume aim, p\<lparr>conns := (conns p)(pool_addr i := None)\<rparr>,
      disconnected i (close_conn (cp_conn cp) w), if keeps_lock aim then Some c else None)) t"
  shows "solo cfg c (put s c (drop_conn c cp (pool_addr i) aim p w)) t"
proof -
  let ?w = "close_conn (cp_conn cp) w" and ?p = "p\<lparr>conns := (conns p)(pool_addr i := None)\<rparr>"
  obtain it r where cl: "clear i (w_reg ?w) = (it, r)" by fastforce
  let ?ls = "case it of None \<Rightarrow> [] | Some it \<Rightarrow> Listeners it"
  have "disconnected i ?w = fold close_listener ?ls (?w\<lparr>w_reg := r\<rparr>)"
    using cl by (simp add: disconnected_def split: option.split)
  with assms have "solo cfg c (put s c (Closing ?ls aim, ?p, ?w\<lparr>w_reg := r\<rparr>, Some c)) t"
    by (intro solo_closing) simp
  moreover have "advance cfg c (Freeing i aim) ?p ?w (Some c) = Some (Closing ?ls aim, ?p, ?w\<lparr>w_reg := r\<rparr>, Some c)"
    using cl by simp
  ultimately show ?thesis unfolding drop_conn_def pool_identifier_addr by (intro solo_next)
qed

lemma solo_deleting:
  assumes "free p = Some disconnected" and "\<not> keeps_lock aim" and "server_DeleteConn i (p, w) = (p', w')"
    and "solo cfg c (put s c (resume aim, p', w', None)) t"
  shows "solo cfg c (put s c (Deleting i aim, p, w, None)) t"
proof (cases "session_conn i p")
  case None
  with assms have "p' = p" "w' = w" by (simp_all add: server_DeleteConn_eq)
  with assms(2,4) have "solo cfg c (put s c (Closing [] aim, p, w, Some c)) t" by (intro solo_closing) simp
  then show ?thesis using None by (intro solo_next) (simp_all add: session_conn_def)
next
  case (Some cp)
  with assms have "p' = p\<lparr>conns := (conns p)(pool_addr i := None)\<rparr>" "w' = disconnected i (close_conn (cp_conn cp) w)"
    by (auto simp: server_DeleteConn_eq)
  with assms(2,4) have "solo cfg c (put s c (drop_conn c cp (pool_addr i) aim p w)) t" by (intro solo_drop) simp
  then show ?thesis using Some by (intro solo_next) (simp_all add: session_conn_def)
qed

lemma solo_failing:
  assumes "free p = Some disconnected" and "reject_pooled env c i e (p, w) = (h, p', w')"
    and "solo cfg c (put s c (Finished h, p', w', None)) t"
  shows "solo cfg c (put s c (Failing env i e, p, w, None)) t"
proof -
  obtain p1 w1 where d: "server_DeleteConn i (p, notifyError env e i w) = (p1, w1)" by fastforce
  with assms(2) have r: "h = Rejected" "p' = p1" "w' = close_conn c w1"
    by (simp_all add: reject_pooled_def reject_def)
  have "solo cfg c (put s c (Rejecting, p1, w1, None)) t"
    using assms(3) r by (intro solo_next) simp_all
  then have "solo cfg c (put s c (Deleting i To_reject, p, notifyError env e i w, None)) t"
    using assms(1) d by (intro solo_deleting) simp_all
  then show ?thesis by (intro solo_next) simp_all
qed

lemma solo_rolling:
  "solo cfg c (put s c (Failing env i e, p, fold close_listener ls w, lk)) t \<Longrightarrow>
   solo cfg c (put s c (Rolling env i e ls, p, w, lk)) t"
  by (induction ls arbitrary: w) (auto intro: solo_next)

lemma solo_open_tunnels:
  assumes "open_tunnels env ts it w = (res, it', w')" and "res \<noteq> Batch_panic"
    and "solo cfg c (put s c (case res of Batch_error e \<Rightarrow> Rolling env i e (Listeners it') | _ \<Rightarrow> Opening env i [] it', p, w', lk)) t"
  shows "solo cfg c (put s c (Opening env i ts it, p, w, lk)) t"
  using assms
proof (induction env ts it w rule: open_tunnels.induct)
  case (1 env it w)
  then show ?case by auto
next
  case (2 env name ts it w)
  then show ?case by simp
next
  case (3 env name tun ts it w)
  obtain r1 it1 w1 where one: "open_tunnel env name tun it w = (r1, it1, w1)" by (metis prod_cases3)
  show ?case
  proof (cases r1)
    case (Some e)
    with 3 one have "solo cfg c (put s c (Rolling env i e (Listeners it1), p, w1, lk)) t" by auto
    then show ?thesis by (-, rule solo_next [rotated]) (simp add: one Some)
  next
    case None
    with "3.prems"(1) one have "open_tunnels env ts it1 w1 = (res, it', w')" by simp
    from "3.IH" [OF one [symmetric] None refl this "3.prems"(2,3)]
    show ?thesis by (-, rule solo_next [rotated]) (simp add: one None)
  qed
qed

lemma solo_addTunnels:
  assumes "addTunnels env ts i w = (res, w')" and "res \<noteq> Batch_panic"
    and "solo cfg c (put s c (case res of Batch_error e \<Rightarrow> Failing env i e | _ \<Rightarrow> Finished Connected, p, w', lk)) t"
  shows "solo cfg c (put s c (Opening env i ts \<lparr>Hosts = [], Listeners = []\<rparr>, p, w, lk)) t"
proof -
  obtain r1 it w1 where one: "open_tunnels env ts \<lparr>Hosts = [], Listeners = []\<rparr> w = (r1, it, w1)" by (metis prod_cases3)
  show ?thesis
  proof (cases r1)
    case Batch_panic
    with one assms(1,2) show ?thesis by (simp add: addTunnels_def)
  next
    case (Batch_error e)
    with one assms(1) have r: "res = Batch_error e" "w' = rollback it w1" by (simp_all add: addTunnels_def)
    with assms(3) have "solo cfg c (put s c (Rolling env i e (Listeners it), p, w1, lk)) t"
      by (intro solo_rolling) (simp add: rollback_def)
    with solo_open_tunnels [OF one] Batch_error show ?thesis by simp
  next
    case Batch_ok
    obtain err r where set: "set_item it i (w_reg w1) = (err, r)" by fastforce
    have "solo cfg c (put s c (Opening env i [] it, p, w1, lk)) t"
    proof (cases err)
      case None
      with one Batch_ok set assms(1,3) have "solo cfg c (put s c (Finished Connected, p, w1\<lparr>w_reg := r\<rparr>, lk)) t"
        by (auto simp: addTunnels_def)
      then show ?thesis by (-, rule solo_next [rotated]) (simp add: set None)
    next
      case (Some e)
      with one Batch_ok set assms(1) have "res = Batch_error e" "w' = rollback it (w1\<lparr>w_reg := r\<rparr>)"
        by (simp_all add: addTunnels_def)
      with assms(3) have "solo cfg c (put s c (Rolling env i e (Listeners it), p, w1\<lparr>w_reg := r\<rparr>, lk)) t"
        by (intro solo_rolling) (simp add: rollback_def)
      then show ?thesis by (-, rule solo_next [rotated]) (simp add: set Some)
    qed
    with solo_open_tunnels [OF one] Batch_ok show ?thesis by simp
  qed
qed

lemma solo_AddConn:
  assumes "free p = Some disconnected" and "AddConn (server_http2 env) c i (p, w) = (err, p', w')"
    and "solo cfg c (put s c (if err = None then Pooled env i else Rejecting, p', w', None)) t"
  shows "solo cfg c (put s c (Admitted env i, p, w, None)) t"
proof -
  have add: "add_conn c env i p w = (if err = None then Pooled env i else Rejecting, p', w', None)"
    if "(case NewClientConn (server_http2 env) c of
           Inl e \<Rightarrow> (Some e, p, w)
         | Inr d \<Rightarrow> (None, p\<lparr>conns := (conns p)(pool_addr i \<mapsto> \<lparr>cp_conn = c, clientConn = d\<rparr>)\<rparr>, w)) = (err, p', w')" for p w
    using that by (auto simp: add_conn_def split: sum.splits)
  show ?thesis
  proof (cases "conns p (pool_addr i)")
    case None
    with assms(2) have "add_conn c env i p w = (if err = None then Pooled env i else Rejecting, p', w', None)"
      by (intro add) (simp add: AddConn_def Let_def)
    with None assms(3) solo_next [of cfg c "Admitted env i" p w None "add_conn c env i p w" s t] show ?thesis by simp
  next
    case (Some cp)
    show ?thesis
    proof (cases "ping (server_http2 env) cp")
      case None
      with Some assms(2) have "err \<noteq> None" "p' = p" "w' = w" by (auto simp: AddConn_def Let_def)
      with Some None assms(3) solo_next [of cfg c "Admitted env i" p w None "(Rejecting, p, w, None)" s t]
      show ?thesis by simp
    next
      case dead: (Some e)
      let ?p = "p\<lparr>conns := (conns p)(pool_addr i := None)\<rparr>" and ?w = "disconnected i (close_conn (cp_conn cp) w)"
      have cl: "pool_close (server_http2 env) cp (pool_addr i) (p, w) = (?p, ?w)"
        using assms(1) by (simp add: pool_close_addr freed_def server_http2_def)
      with assms(2) Some dead have "add_conn c env i ?p ?w = (if err = None then Pooled env i else Rejecting, p', w', None)"
        by (intro add) (simp add: AddConn_def Let_def)
      with assms(3) solo_next [of cfg c "Adding env i" ?p ?w "Some c" "add_conn c env i ?p ?w" s t]
      have "solo cfg c (put s c (Adding env i, ?p, ?w, Some c)) t" by simp
      then have "solo cfg c (put s c (drop_conn c cp (pool_addr i) (To_add env i) p w)) t"
        by (intro solo_drop) simp
      then show ?thesis using Some dead by (intro solo_next) simp_all
    qed
  qed
qed

lemma AddConn_free: "AddConn env c i (p, w) = (err, p', w') \<Longrightarrow> free p' = free p"
  by (auto simp: AddConn_def Let_def pool_close_def split: option.splits sum.splits)

text \<open>The handshake and what follows, as in \<open>handleClient\<close> once the connection is in the pool.\<close>

definition after_pool :: "conn_env \<Rightarrow> nat \<Rightarrow> ident \<Rightarrow> pool \<Rightarrow> world \<Rightarrow> handled \<times> srv" where
  "after_pool env c i p w =
     (case handshake env i of
        Inl err \<Rightarrow> reject_pooled env c i err (p, w)
      | Inr tunnels \<Rightarrow>
          (case addTunnels env tunnels i w of
             (Batch_panic, w) \<Rightarrow> (Panicked, p, w)
           | (Batch_error err, w) \<Rightarrow> reject_pooled env c i err (p, w)
           | (Batch_ok, w) \<Rightarrow> (Connected, p, w)))"

lemma handleClient_after_pool:
  assumes "ce_IsTLS env" and "PeerID (ce_sha256 env) (ce_Handshake env) (ce_PeerCertificates env) = Inr i"
    and "admit cfg env i w = (True, w1)" and "ce_SetDeadline env = None"
    and "AddConn (server_http2 env) c i (p, w1) = (err, p2, w2)"
  shows "handleClient cfg env c (p, w) =
    (if err = None then after_pool env c i p2 w2 else (Rejected, p2, close_conn c w2))"
  using assms by (simp add: handleClient_def after_pool_def reject_def split: option.split)

lemma solo_pooled:
  assumes "free p = Some disconnected" and "after_pool env c i p w = (h, p', w')" and "h \<noteq> Panicked"
  shows "solo cfg c (put s c (Pooled env i, p, w, None)) (put s c (Finished h, p', w', None))" (is "solo cfg c _ ?t")
proof (cases "handshake env i")
  case (Inl e)
  with assms(2) have "reject_pooled env c i e (p, w) = (h, p', w')" by (simp add: after_pool_def)
  then have "solo cfg c (put s c (Failing env i e, p, w, None)) ?t"
    by (rule solo_failing [OF assms(1) _ solo_refl])
  with Inl solo_next [of cfg c "Pooled env i" p w None "(Failing env i e, p, w, None)" s ?t]
  show ?thesis by simp
next
  case hs: (Inr ts)
  obtain res w3 where tun: "addTunnels env ts i w = (res, w3)" by fastforce
  have out: "(case res of Batch_panic \<Rightarrow> (Panicked, p, w3) | Batch_error e \<Rightarrow> reject_pooled env c i e (p, w3)
      | Batch_ok \<Rightarrow> (Connected, p, w3)) = (h, p', w')"
    using assms(2) hs tun by (auto simp: after_pool_def split: batch_result.split)
  then have "solo cfg c (put s c (case res of Batch_error e \<Rightarrow> Failing env i e | _ \<Rightarrow> Finished Connected, p, w3, None)) ?t"
    using assms(3) by (cases res) (auto intro: solo_refl solo_failing [OF assms(1) _ solo_refl])
  with solo_addTunnels [OF tun] out assms(3)
  have "solo cfg c (put s c (Opening env i ts \<lparr>Hosts = [], Listeners = []\<rparr>, p, w, None)) ?t"
    by (cases res) auto
  with hs solo_next [of cfg c "Pooled env i" p w None "(Opening env i ts \<lparr>Hosts = [], Listeners = []\<rparr>, p, w, None)" s ?t]
  show ?thesis by simp
qed

lemma handleClient_solo:
  assumes "free p = Some disconnected" and "handleClient cfg env c (p, w) = (h, p', w')" and "h \<noteq> Panicked"
  shows "solo cfg c (put s c (Starting env, p, w, None)) (put s c (Finished h, p', w', None))" (is "solo cfg c _ ?t")
proof -
  note hc = assms(2) [unfolded handleClient_def prod.case reject_def]
  have rejecting: "solo cfg c (put s c (Rejecting, p', w1, None)) ?t" if "h = Rejected" "w' = close_conn c w1" for w1
    using solo_next [OF _ solo_refl, of cfg c Rejecting p' w1 None _ s] that by simp
  show ?thesis
  proof (cases "ce_IsTLS env")
    case False
    with hc rejecting [of w] solo_next [of cfg c "Starting env" p w None "(Rejecting, p, w, None)" s ?t]
    show ?thesis by auto
  next
    case tls: True
    show ?thesis
    proof (cases "PeerID (ce_sha256 env) (ce_Handshake env) (ce_PeerCertificates env)")
      case (Inl err)
      with tls hc rejecting [of w] solo_next [of cfg c "Starting env" p w None "(Rejecting, p, w, None)" s ?t]
      show ?thesis by auto
    next
      case peer: (Inr i)
      obtain ok w1 where admit: "admit cfg env i w = (ok, w1)" by fastforce
      show ?thesis
      proof (cases "ok \<and> ce_SetDeadline env = None")
        case False
        with tls peer admit hc rejecting [of w1] solo_next [of cfg c "Starting env" p w None "(Rejecting, p, w1, None)" s ?t]
        show ?thesis by (cases ok) auto
      next
        case True
        obtain err p2 w2 where add: "AddConn (server_http2 env) c i (p, w1) = (err, p2, w2)" by (metis prod_cases3)
        have fr: "free p2 = Some disconnected" using AddConn_free [OF add] assms(1) by simp
        have "solo cfg c (put s c (if err = None then Pooled env i else Rejecting, p2, w2, None)) ?t"
        proof (cases err)
          case (Some e)
          with tls peer admit True add hc rejecting [of w2] show ?thesis by auto
        next
          case None
          with handleClient_after_pool [OF tls peer _ _ add] admit True assms(2)
          have "after_pool env c i p2 w2 = (h, p', w')" by simp
          with None solo_pooled [OF fr _ assms(3)] show ?thesis by simp
        qed
        then have "solo cfg c (put s c (Admitted env i, p, w1, None)) ?t" using assms(1) add by (intro solo_AddConn)
        with tls peer admit True solo_next [of cfg c "Starting env" p w None "(Admitted env i, p, w1, None)" s ?t]
        show ?thesis by auto
      qed
    qed
  qed
qed

text \<open>
  C3. Run without interference, the steps of one goroutine compute \<open>handleClient\<close>: from any state of the
  pool and the server, with the mutex free, the goroutine that starts with a connection ends with the
  outcome, the pool and the server state of the function, for every outcome but a panic.
\<close>

theorem handleClient_refined:
  assumes "free p = Some disconnected" and "handleClient cfg env c (p, w) = (h, p', w')" and "h \<noteq> Panicked"
  shows "\<exists>n. run (sys_step cfg) (put s c (Starting env, p, w, None)) (replicate n (Step c))
    (put s c (Finished h, p', w', None))"
  using handleClient_solo [OF assms] by (simp add: solo_def)


section \<open>A connection that dies while its tunnels are added\<close>

lemma open_tunnel_reg: "open_tunnel env name t it w = (res, it', w') \<Longrightarrow> w_reg w' = w_reg w"
  by (erule open_tunnel_cases)
     (auto simp: net_Listen_def vhost_Listen_def Let_def split: option.splits if_splits)

lemma open_tunnels_reg: "open_tunnels env ts it w = (res, it', w') \<Longrightarrow> w_reg w' = w_reg w"
proof (induction env ts it w rule: open_tunnels.induct)
  case (3 env name t ts it w)
  obtain r1 it1 w1 where one: "open_tunnel env name t it w = (r1, it1, w1)" by (metis prod_cases3)
  show ?case
  proof (cases r1)
    case None
    with 3 one open_tunnel_reg [OF one] show ?thesis by simp
  next
    case (Some e)
    with 3 one open_tunnel_reg [OF one] show ?thesis by simp
  qed
qed simp_all

text \<open>\<open>set\<close> refuses a client whose item is filled, so no batch is added for it.\<close>

lemma addTunnels_filled:
  assumes "items (w_reg w) i = Some (Item it)"
  shows "fst (addTunnels env ts i w) \<noteq> Batch_ok"
proof
  assume ok: "fst (addTunnels env ts i w) = Batch_ok"
  obtain r1 it1 w1 where one: "open_tunnels env ts \<lparr>Hosts = [], Listeners = []\<rparr> w = (r1, it1, w1)" by (metis prod_cases3)
  from ok one have "fst (set_item it1 i (w_reg w1)) = None"
    by (cases r1) (auto simp: addTunnels_def split: prod.splits option.splits)
  from set_item_fst_None(1) [OF this] open_tunnels_reg [OF one] assms show False by simp
qed

lemma admit_items:
  "admit cfg env k w = (ok, w') \<Longrightarrow> items (w_reg w) i = Some it \<Longrightarrow> items (w_reg w') i = Some it"
  by (auto simp: admit_def Let_def Subscribe_def split: if_splits option.splits)

lemma filled_not_connected:
  assumes "items (w_reg w) i = Some (Item it)" and "session_conn i p = None"
    and "PeerID (ce_sha256 env) (ce_Handshake env) (ce_PeerCertificates env) = Inr i"
  shows "fst (handleClient cfg env c (p, w)) \<noteq> Connected"
proof
  assume con: "fst (handleClient cfg env c (p, w)) = Connected"
  then have tls: "ce_IsTLS env" by (auto simp: handleClient_def reject_def split: if_splits)
  obtain ok w1 where admit: "admit cfg env i w = (ok, w1)" by fastforce
  with con tls assms(3) have ok: "ok" "ce_SetDeadline env = None"
    by (auto simp: handleClient_def reject_def split: bool.splits if_splits)
  obtain err p2 w2 where add: "AddConn (server_http2 env) c i (p, w1) = (err, p2, w2)" by (metis prod_cases3)
  then have w2: "w2 = w1" using assms(2) by (auto simp: AddConn_eq split: sum.splits)
  from handleClient_after_pool [OF tls assms(3) _ ok(2) add] admit ok(1) con
  have "fst (after_pool env c i p2 w2) = Connected" by (cases "err = None") auto
  moreover have "items (w_reg w2) i = Some (Item it)" using admit_items [OF admit assms(1)] w2 by simp
  moreover from this have "addTunnels env ts i w2 \<noteq> (Batch_ok, w3)" for ts w3
    using addTunnels_filled [of w2 i it env ts] by auto
  ultimately show False
    by (auto simp: after_pool_def reject_pooled_def reject_def split: sum.splits prod.splits batch_result.splits)
qed

text \<open>
  C29. A client whose connection dies while its tunnels are being added is registered all the same: the
  transport's report finds nothing to clear yet, and the batch is stored after it. The routes and
  listeners of a client that is not connected stay, and its next connection is refused because
  its tunnels are already there.
\<close>

theorem disconnect_during_batch:
  assumes "sy_pc s c = Opening env i [] it" and "sy_pc s j = Idle" and "sy_lock s = None"
    and "session_conn i (sy_pool s) = Some cp" and "fst (set_item it i (w_reg (sy_world s))) = None"
  shows "\<exists>t. run (sys_step cfg) s [Dead j (clientConn cp) i, Step j, Step j, Step c] t \<and>
    sy_pc t c = Finished Connected \<and> sy_pc t j = Done [] \<and> session_conn i (sy_pool t) = None \<and>
    items (w_reg (sy_world t)) i = Some (Item it) \<and>
    (\<forall>cfg' env' c'. PeerID (ce_sha256 env') (ce_Handshake env') (ce_PeerCertificates env') = Inr i \<longrightarrow>
      fst (handleClient cfg' env' c' (sy_pool t, sy_world t)) \<noteq> Connected)"
proof -
  have cj: "c \<noteq> j" using assms(1,2) by auto
  let ?p = "(sy_pool s)\<lparr>conns := (conns (sy_pool s))(pool_addr i := None)\<rparr>"
  let ?w = "close_conn (cp_conn cp) (sy_world s)"
  obtain r where set: "set_item it i (w_reg (sy_world s)) = (None, r)" using assms(5) by (metis prod.collapse)
  let ?s1 = "put s j (Freeing i To_end, ?p, ?w, Some j)"
  let ?s2 = "put s j (Closing [] To_end, ?p, ?w, Some j)"
  let ?s3 = "put s j (Done [], ?p, ?w, None)"
  let ?t = "put ?s3 c (Finished Connected, ?p, ?w\<lparr>w_reg := r\<rparr>, None)"
  have void: "items (w_reg (sy_world s)) i = Some VoidItem" and stored: "items r i = Some (Item it)"
    using set_item_NoneD [OF set] by simp_all
  have clear: "clear i (w_reg (sy_world s)) = (None, w_reg (sy_world s))"
    using void by (simp add: clear_def)
  have "sys_step cfg s (Dead j (clientConn cp) i) ?s1"
    using sys_step.dead [OF assms(2,3,4) refl] by (simp add: drop_conn_def)
  moreover have "sys_step cfg ?s1 (Step j) ?s2"
    using sys_step.step [of cfg j ?s1 "(Closing [] To_end, ?p, ?w, Some j)"] by (simp add: clear)
  moreover have "sys_step cfg ?s2 (Step j) ?s3"
    using sys_step.step [of cfg j ?s2 "(Done [], ?p, ?w, None)"] by simp
  moreover have "sys_step cfg ?s3 (Step c) ?t"
  proof -
    have "sy_pc ?s3 c = Opening env i [] it" using assms(1) cj by (simp add: put_def)
    moreover have "set_item it i (w_reg ?w) = (None, r)" using set by simp
    ultimately show ?thesis
      using sys_step.step [of cfg c ?s3 "(Finished Connected, ?p, ?w\<lparr>w_reg := r\<rparr>, None)"] by simp
  qed
  ultimately have run: "run (sys_step cfg) s [Dead j (clientConn cp) i, Step j, Step j, Step c] ?t"
    by (meson run_Cons run_Nil)
  have "sy_pc ?t j = Done []" using cj by (simp add: put_def)
  moreover have "session_conn i ?p = None" by simp
  moreover from this have "fst (handleClient cfg' env' c' (?p, ?w\<lparr>w_reg := r\<rparr>)) \<noteq> Connected"
    if "PeerID (ce_sha256 env') (ce_Handshake env') (ce_PeerCertificates env') = Inr i" for cfg' env' c'
    using that stored by (intro filled_not_connected [where it = it]) simp_all
  ultimately show ?thesis using run stored by (intro exI [of _ ?t]) simp
qed


section \<open>An example run\<close>

definition demo_system :: system where
  "demo_system = \<lparr>sy_pool = fst demo_server, sy_world = snd demo_server, sy_lock = None, sy_pc = (\<lambda>c. Idle)\<rparr>"

lemma demo_initial: "sys_initial {0} demo_system"
  using demo_accounted by (simp add: sys_initial_def demo_system_def)

definition demo_subscribed_world :: world where
  "demo_subscribed_world =
     (snd demo_server)\<lparr>w_conns := {7}, w_reg := Subscribe zero_ident newRegistry\<rparr>"

definition demo_pool :: pool where
  "demo_pool = (fst demo_server)\<lparr>conns := [pool_addr zero_ident \<mapsto> \<lparr>cp_conn = 7, clientConn = 7\<rparr>]\<rparr>"

definition demo_web :: "(string \<times> tunnel option) list" where
  "demo_web = [(''web'', Some demo_http)]"

definition demo_item :: "listener registry_item" where
  "demo_item = \<lparr>Hosts = [\<lparr>ha_Host = ''a.b'', ha_Auth = None\<rparr>], Listeners = []\<rparr>"

definition demo_opening :: system where
  "demo_opening = put demo_system 7 (Opening (demo_env demo_web) zero_ident [] demo_item, demo_pool, demo_subscribed_world, None)"

lemma demo_run:
  "run (sys_step (demo_cfg True)) demo_system
     [Accepted 7 (demo_env demo_web), Step 7, Step 7, Step 7, Step 7] demo_opening"
proof -
  let ?env = "demo_env demo_web" and ?cfg = "demo_cfg True"
  let ?p = "fst demo_server" and ?w = "(snd demo_server)\<lparr>w_conns := {7}\<rparr>"
  have w: "?w = snd demo_server" by (simp add: demo_server_def)
  let ?s1 = "put demo_system 7 (Starting ?env, ?p, ?w, None)"
  let ?s2 = "put demo_system 7 (Admitted ?env zero_ident, ?p, demo_subscribed_world, None)"
  let ?s3 = "put demo_system 7 (Pooled ?env zero_ident, demo_pool, demo_subscribed_world, None)"
  let ?s4 = "put demo_system 7 (Opening ?env zero_ident demo_web \<lparr>Hosts = [], Listeners = []\<rparr>, demo_pool, demo_subscribed_world, None)"
  have a1: "sys_step ?cfg demo_system (Accepted 7 ?env) ?s1"
    using sys_step.accepted [of demo_system 7 ?cfg ?env] by (simp add: demo_system_def demo_server_def)
  have flags: "ce_IsTLS ?env" "ce_SetDeadline ?env = None" by (simp_all add: demo_env_def)
  have "advance ?cfg 7 (sy_pc ?s1 7) (sy_pool ?s1) (sy_world ?s1) (sy_lock ?s1) =
      Some (Admitted ?env zero_ident, ?p, demo_subscribed_world, None)"
    using demo_admit [of True demo_web zero_ident] flags
    by (simp add: demo_peer w demo_subscribed_world_def demo_server_def)
  from sys_step.step [OF this] have a2: "sys_step ?cfg ?s1 (Step 7) ?s2" by (simp only: put_simps)
  have new: "NewClientConn (server_http2 ?env) 7 = Inr 7" by (simp add: server_http2_def demo_env_def)
  have "advance ?cfg 7 (sy_pc ?s2 7) (sy_pool ?s2) (sy_world ?s2) (sy_lock ?s2) =
      Some (Pooled ?env zero_ident, demo_pool, demo_subscribed_world, None)"
    using new by (simp add: add_conn_def demo_pool_def demo_server_def newConnPool_def)
  from sys_step.step [OF this] have a3: "sys_step ?cfg ?s2 (Step 7) ?s3" by (simp only: put_simps)
  have "advance ?cfg 7 (sy_pc ?s3 7) (sy_pool ?s3) (sy_world ?s3) (sy_lock ?s3) =
      Some (Opening ?env zero_ident demo_web \<lparr>Hosts = [], Listeners = []\<rparr>, demo_pool, demo_subscribed_world, None)"
    by (simp add: demo_handshake demo_web_def)
  from sys_step.step [OF this] have a4: "sys_step ?cfg ?s3 (Step 7) ?s4" by (simp only: put_simps)
  have "advance ?cfg 7 (sy_pc ?s4 7) (sy_pool ?s4) (sy_world ?s4) (sy_lock ?s4) =
      Some (Opening ?env zero_ident [] demo_item, demo_pool, demo_subscribed_world, None)"
    by (simp add: demo_web_def open_tunnel_def demo_http_def add_host_def NewAuth_def demo_item_def)
  from sys_step.step [OF this] have a5: "sys_step ?cfg ?s4 (Step 7) demo_opening"
    by (simp only: put_simps demo_opening_def)
  note go = run_Cons [of "sys_step ?cfg"]
  show ?thesis by (rule go [OF a1 go [OF a2 go [OF a3 go [OF a4 go [OF a5 run_Nil]]]]])
qed

lemma interleaved_listeners_witness:
  "\<not> w_panic (sy_world demo_opening) \<and> w_listeners (sy_world demo_opening) =
     {0} \<union> handle ` (\<Union>c. set (batch (sy_pc demo_opening c))) \<union> handle ` (\<Union>i. set (item_listeners i (sy_world demo_opening)))"
  using conjunct1 [OF interleaved_listeners [OF demo_initial demo_run]]
    conjunct1 [OF conjunct2 [OF interleaved_listeners [OF demo_initial demo_run]]]
  by (rule conjI)

lemma interleaved_progress_witness: "\<exists>d u. sys_step (demo_cfg True) demo_opening (Step d) u"
  by (rule interleaved_progress [OF demo_initial demo_run, of 7]) (simp add: demo_opening_def)

lemma handleClient_refined_witness:
  "\<exists>n p w. run (sys_step (demo_cfg True)) (put demo_system 7 (Starting (demo_env demo_web), fst demo_server, snd demo_server, None))
     (replicate n (Step 7)) (put demo_system 7 (Finished Connected, p, w, None))"
proof -
  obtain p w where h: "handleClient (demo_cfg True) (demo_env demo_web) 7 (fst demo_server, snd demo_server) = (Connected, p, w)"
    using demo_connected by (metis demo_web_def prod.collapse)
  have "free (fst demo_server) = Some disconnected" by (simp add: demo_server_def newConnPool_def)
  from handleClient_refined [OF this h] show ?thesis by blast
qed

lemma disconnect_during_batch_witness:
  "\<exists>t. run (sys_step (demo_cfg True)) demo_opening [Dead 8 7 zero_ident, Step 8, Step 8, Step 7] t \<and>
     session_conn zero_ident (sy_pool t) = None \<and> items (w_reg (sy_world t)) zero_ident = Some (Item demo_item)"
proof -
  have "session_conn zero_ident (sy_pool demo_opening) = Some \<lparr>cp_conn = 7, clientConn = 7\<rparr>"
    by (simp add: demo_opening_def demo_pool_def session_conn_def)
  moreover have "fst (set_item demo_item zero_ident (w_reg (sy_world demo_opening))) = None"
    by (simp add: demo_opening_def demo_subscribed_world_def demo_item_def set_item_def Subscribe_def newRegistry_def)
  moreover have "sy_pc demo_opening 7 = Opening (demo_env demo_web) zero_ident [] demo_item"
    "sy_pc demo_opening 8 = Idle" "sy_lock demo_opening = None"
    by (simp_all add: demo_opening_def put_def demo_system_def)
  ultimately show ?thesis
    using disconnect_during_batch [of demo_opening 7 "demo_env demo_web" zero_ident demo_item 8
        "\<lparr>cp_conn = 7, clientConn = 7\<rparr>" "demo_cfg True"] by auto
qed

end
