(* ===== verification/Logging.thy ===== *)
theory Logging
  imports Prelude
begin

text \<open>
  The package \<open>log\<close>: loggers that drop, print, filter by level or add context. A logger is built
  from these four, and \<open>Log\<close> gives the lines that reach the standard logger.
\<close>

section \<open>Loggers\<close>

text \<open>The values a caller passes; only strings and integers are ever inspected.\<close>

datatype keyval = KStr string | KInt int | KErr go_error | KAny nat

datatype logger =
    NopLogger
  | StdLogger
  | FilterLogger int logger
  | Context "keyval list" "keyval list" logger

definition NewNopLogger :: logger where "NewNopLogger = NopLogger"

definition NewStdLogger :: logger where "NewStdLogger = StdLogger"

definition NewFilterLogger :: "logger \<Rightarrow> int \<Rightarrow> logger" where
  "NewFilterLogger l level = FilterLogger level l"

definition NewContext :: "logger \<Rightarrow> logger" where
  "NewContext l = Context [] [] l"

text \<open>\<open>With\<close> and \<open>WithPrefix\<close> are methods of a \<open>Context\<close>; other loggers do not have them.\<close>

fun With :: "logger \<Rightarrow> keyval list \<Rightarrow> logger" where
  "With (Context prefix suffix l) keyvals = Context prefix (suffix @ keyvals) l"
| "With l keyvals = l"

fun WithPrefix :: "logger \<Rightarrow> keyval list \<Rightarrow> logger" where
  "WithPrefix (Context prefix suffix l) keyvals = Context (prefix @ keyvals) suffix l"
| "WithPrefix l keyvals = l"

text \<open>
  The loop of the filter over the keys, at every second position: \<open>True\<close> when it returns without
  logging. A value of \<open>level\<close> that is missing or no integer ends the loop.
\<close>

fun filtered :: "int \<Rightarrow> keyval list \<Rightarrow> bool" where
  "filtered n [] = False"
| "filtered n [k] = False"
| "filtered n (k # v # kvs) =
     (if k = KStr ''level'' then
        (case v of
           KInt level \<Rightarrow> if level > n then True else filtered n kvs
         | _ \<Rightarrow> False)
      else filtered n kvs)"

fun Log :: "logger \<Rightarrow> keyval list \<Rightarrow> keyval list list" where
  "Log NopLogger keyvals = []"
| "Log StdLogger keyvals = [keyvals]"
| "Log (FilterLogger n l) keyvals = (if filtered n keyvals then [] else Log l keyvals)"
| "Log (Context prefix suffix l) keyvals = Log l (prefix @ keyvals @ suffix)"


section \<open>Filtering under a context\<close>

text \<open>Keys and values come in pairs and \<open>level\<close> is none of the keys.\<close>

fun plain_pairs :: "keyval list \<Rightarrow> bool" where
  "plain_pairs [] = True"
| "plain_pairs [k] = False"
| "plain_pairs (k # v # kvs) = (k \<noteq> KStr ''level'' \<and> plain_pairs kvs)"

lemma filtered_plain_prefix: "plain_pairs p \<Longrightarrow> filtered n (p @ kvs) = filtered n kvs"
  by (induction p rule: plain_pairs.induct) auto

lemma filtered_plain: "plain_pairs p \<Longrightarrow> filtered n p = False"
  by (induction p rule: plain_pairs.induct) auto

lemma filtered_plain_suffix: "plain_pairs s \<Longrightarrow> filtered n (KStr ''level'' # KInt m # kvs @ s) =
    (m > n \<or> filtered n (kvs @ s))"
  by simp

lemma filtered_append_plain:
  "plain_pairs s \<Longrightarrow> even (length kvs) \<Longrightarrow> filtered n (kvs @ s) = filtered n kvs"
proof (induction n kvs rule: filtered.induct)
  case (1 n)
  then show ?case by (simp add: filtered_plain)
next
  case (2 n k)
  then show ?case by simp
next
  case (3 n k v kvs)
  then show ?case by (cases v) auto
qed

lemma Log_WithPrefix_With:
  "Log (WithPrefix (With (NewContext l) s) p) kvs = Log l (p @ kvs @ s)"
  "Log (With (WithPrefix (NewContext l) p) s) kvs = Log l (p @ kvs @ s)"
  by (simp_all add: NewContext_def)

text \<open>
  Context does not interfere with levels: a message of the program, which starts with its level,
  reaches the standard logger through any context of key-value pairs exactly when its level is at
  most that of the filter, and then with the prefix before it and the suffix after it.
\<close>

theorem Log_level_context:
  assumes "plain_pairs p" and "plain_pairs s" and "plain_pairs kvs"
  shows "Log (With (WithPrefix (NewContext (NewFilterLogger NewStdLogger n)) p) s)
      (KStr ''level'' # KInt m # kvs) =
    (if m \<le> n then [p @ (KStr ''level'' # KInt m # kvs) @ s] else [])"
proof -
  have "even (length kvs)" using assms(3) by (induction kvs rule: plain_pairs.induct) auto
  with assms have "filtered n (kvs @ s) = False"
    by (simp add: filtered_append_plain filtered_plain)
  with assms(1) show ?thesis
    by (auto simp: NewContext_def NewFilterLogger_def NewStdLogger_def filtered_plain_prefix)
qed

lemma Log_level_context_witness:
  "Log (With (WithPrefix (NewContext (NewFilterLogger NewStdLogger 1)) [KStr ''proxy'', KStr ''TCP''])
      [KStr ''dst'', KStr ''a.b'']) [KStr ''level'', KInt 3, KStr ''bytes'', KInt 9] = []"
  by (subst Log_level_context) simp_all

end
