(* ===== verification/Http_Data.thy ===== *)
theory Http_Data
  imports Control_Msg Logging
begin

text \<open>
  The helpers of the data path (\<open>utils.go\<close>): copying streams and headers, the forwarding header, and
  the writers around a connection.
\<close>

section \<open>Copying a stream\<close>

text \<open>
  A reader is what \<open>io.Copy\<close> gets from it: the bytes it delivers and the error that ends it, \<open>None\<close>
  at the end of the stream. Writing is as long as the writer takes bytes: \<open>room\<close> is the number of
  bytes it accepts and the error after that, \<open>None\<close> for a writer that never fails.
\<close>

type_synonym reader = "string \<times> go_error option"

type_synonym room = "(nat \<times> go_error) option"

definition io_Copy :: "room \<Rightarrow> reader \<Rightarrow> string \<times> go_error option" where
  "io_Copy room src =
     (case room of
        None \<Rightarrow> src
      | Some (n, err) \<Rightarrow> if n < length (fst src) then (take n (fst src), Some err) else src)"

definition transfer :: "logger \<Rightarrow> room \<Rightarrow> reader \<Rightarrow> string \<times> keyval list list" where
  "transfer logger room src =
     (let (out, err) = io_Copy room src in
      (out,
       (case err of
          None \<Rightarrow> []
        | Some e \<Rightarrow>
            if \<not> contains (error_text e) ''context canceled'' \<and> \<not> contains (error_text e) ''CANCEL''
            then Log logger [KStr ''level'', KInt 2, KStr ''msg'', KStr ''copy error'', KStr ''err'', KErr e]
            else []) @
       Log logger [KStr ''level'', KInt 3, KStr ''action'', KStr ''transferred'', KStr ''bytes'', KInt (int (length out))]))"


section \<open>Headers\<close>

definition setXForwardedFor :: "header \<Rightarrow> string \<Rightarrow> header" where
  "setXForwardedFor h remoteAddr =
     (case split_host_port remoteAddr of
        Inl err \<Rightarrow> h
      | Inr (clientIP, port) \<Rightarrow>
          header_set h ''X-Forwarded-For''
            (case h ''X-Forwarded-For'' of
               None \<Rightarrow> clientIP
             | Some prior \<Rightarrow> join '', '' prior @ '', '' @ clientIP))"

text \<open>\<open>cloneHeader\<close> makes fresh slices with the same values; \<open>copyHeader\<close> overwrites key by key.\<close>

definition cloneHeader :: "header \<Rightarrow> header" where
  "cloneHeader h = (\<lambda>k. map_option (\<lambda>vv. vv) (h k))"

definition copyHeader :: "header \<Rightarrow> header \<Rightarrow> header" where
  "copyHeader dst src = dst ++ src"

lemma cloneHeader_id [simp]: "cloneHeader h = h"
  by (rule ext) (simp add: cloneHeader_def option.map_ident)

lemma setXForwardedFor_other:
  "k \<noteq> ''X-Forwarded-For'' \<Longrightarrow> setXForwardedFor h a k = h k"
  by (auto simp: setXForwardedFor_def header_set_def split: sum.split prod.split)

text \<open>The addresses a header names, one after the other.\<close>

definition forwarded_list :: "header \<Rightarrow> string list" where
  "forwarded_list h = (case h ''X-Forwarded-For'' of None \<Rightarrow> [] | Some vs \<Rightarrow> vs)"

lemma join_snoc: "ws \<noteq> [] \<Longrightarrow> join sep (ws @ [w]) = join sep ws @ sep @ w"
  by (induction sep ws rule: join.induct) auto

text \<open>
  The forwarding header names every hop in order: after \<open>setXForwardedFor\<close> the single value is the
  earlier values and the peer's host joined by commas, and a peer address without a port changes
  nothing. A header that is present with no value at all gets an empty first element.
\<close>

theorem setXForwardedFor_appends:
  assumes "split_host_port remoteAddr = Inr (ip, port)"
  shows "forwarded_list (setXForwardedFor h remoteAddr) =
    [if forwarded_list h = [] \<and> h ''X-Forwarded-For'' \<noteq> None then '', '' @ ip
     else join '', '' (forwarded_list h @ [ip])]"
  using assms
  by (auto simp: forwarded_list_def setXForwardedFor_def header_set_def join_snoc split: option.split)

lemma setXForwardedFor_appends_witness:
  "forwarded_list (setXForwardedFor [''X-Forwarded-For'' \<mapsto> [''1.1.1.1'', ''2.2.2.2'']] ''3.3.3.3:99'') =
     [''1.1.1.1, 2.2.2.2, 3.3.3.3'']"
proof -
  have "split_host_port (''3.3.3.3'' @ CHR '':'' # ''99'') = Inr (''3.3.3.3'', ''99'')"
    by (rule split_host_port_plain) (simp_all add: plain_def)
  then have "split_host_port ''3.3.3.3:99'' = Inr (''3.3.3.3'', ''99'')" by simp
  from setXForwardedFor_appends [OF this, of "[''X-Forwarded-For'' \<mapsto> [''1.1.1.1'', ''2.2.2.2'']]"]
  show ?thesis by (simp add: forwarded_list_def)
qed


section \<open>Writers\<close>

text \<open>
  \<open>countWriter\<close> counts what the inner writer took, \<open>flushWriter\<close> flushes after every write when it can.
  An inner writer answers the number of bytes it took and an error.
\<close>

definition countWriter_Write :: "(string \<Rightarrow> nat \<times> go_error option) \<Rightarrow> string \<Rightarrow> int \<Rightarrow> (nat \<times> go_error option) \<times> int" where
  "countWriter_Write w p count = (let (n, err) = w p in ((n, err), count + int n))"

definition flushWriter_Write ::
  "(string \<Rightarrow> nat \<times> go_error option) \<Rightarrow> bool \<Rightarrow> string \<Rightarrow> nat \<Rightarrow> (nat \<times> go_error option) \<times> nat" where
  "flushWriter_Write w can_flush p flushes =
     (let (n, err) = w p in ((n, err), if can_flush then Suc flushes else flushes))"

fun count_writes :: "(string \<Rightarrow> nat \<times> go_error option) \<Rightarrow> string list \<Rightarrow> int \<Rightarrow> int" where
  "count_writes w [] count = count"
| "count_writes w (p # ps) count = count_writes w ps (snd (countWriter_Write w p count))"

lemma count_writes_total:
  "count_writes w ps count = count + int (sum_list (map (\<lambda>p. fst (w p)) ps))"
  by (induction ps arbitrary: count) (simp_all add: countWriter_Write_def split: prod.split)

end
