(* ===== verification/Server_Http.thy ===== *)
theory Server_Http
  imports Registry Conn_Pool Http_Data
begin

text \<open>
  The data path of the server for HTTP (\<open>server.go\<close>): a public request finds its client, is checked
  against the host's credential, gets its forwarding headers and travels to the client inside the body
  of a request of the tunnel; the client's answer is the answer to the public request.
\<close>

section \<open>The request of the tunnel\<close>

text \<open>
  What the data path asks of \<open>net/http\<close> and HTTP/2: making a request for a URL, the bytes of a request
  on the wire, and the answer to a request of the tunnel.
\<close>

record http_env =
  he_NewRequest :: "string \<Rightarrow> go_error option"
  he_Write :: "request \<Rightarrow> string"
  he_Do :: "request \<Rightarrow> go_error + response"
  he_BodyError :: "go_error option"
  he_Room :: room
  he_Logger :: logger

definition connectRequest :: "http_env \<Rightarrow> ident \<Rightarrow> control_message \<Rightarrow> string \<Rightarrow> go_error + request" where
  "connectRequest env identifier msg body =
     (case he_NewRequest env (pool_URL identifier) of
        Some err \<Rightarrow> Inl (Errorf (''could not create request: '' @ error_text err))
      | None \<Rightarrow>
          let req = empty_request\<lparr>req_Method := ''PUT'', req_Scheme := HTTPS,
                req_URLHost := ident_text identifier, req_Host := ident_text identifier,
                req_ContentLength := -1, req_Body := Some body\<rparr>
          in Inr (req\<lparr>req_Header := WriteToHeader msg (req_Header req)\<rparr>))"

definition proxyHTTP :: "http_env \<Rightarrow> ident \<Rightarrow> request \<Rightarrow> control_message \<Rightarrow> go_error + response" where
  "proxyHTTP env identifier r msg =
     (case connectRequest env identifier msg (he_Write env r) of
        Inl err \<Rightarrow> Inl (Errorf (''proxy request error: '' @ error_text err))
      | Inr req \<Rightarrow>
          (case he_Do env req of
             Inl err \<Rightarrow> Inl (Errorf (''io error: '' @ error_text err))
           | Inr resp \<Rightarrow> Inr resp))"


section \<open>RoundTrip and ServeHTTP\<close>

definition request_scheme :: "request \<Rightarrow> string" where
  "request_scheme r =
     (if req_Scheme r = [] then (if req_TLS r then HTTPS else HTTP) else req_Scheme r)"

text \<open>The headers of the request that is sent on.\<close>

definition out_header :: "auth option \<Rightarrow> request \<Rightarrow> header" where
  "out_header auth r =
     (let h = cloneHeader (req_Header r);
          h = (if auth = None then h else header_del h ''Authorization'');
          h = setXForwardedFor h (req_RemoteAddr r)
      in if header_get (req_Header r) ''X-Forwarded-Host'' = []
         then header_set (header_set h ''X-Forwarded-Host'' (req_Host r)) ''X-Forwarded-Proto'' (request_scheme r)
         else h)"

text \<open>\<open>route_request\<close> is \<open>RoundTrip\<close> up to its last line, the call of \<open>proxyHTTP\<close>.\<close>

definition route_request :: "'l registry \<Rightarrow> request \<Rightarrow> go_error + ident \<times> request \<times> control_message" where
  "route_request reg r =
     (case Subscriber (req_Host r) reg of
        None \<Rightarrow> Inl ErrClientNotSubscribed
      | Some (identifier, auth) \<Rightarrow>
          let outr = (if req_ContentLength r = 0 then r\<lparr>req_Body := None\<rparr> else r);
              (user, password, ok) = BasicAuth (req_Header r)
          in if (case auth of None \<Rightarrow> False | Some a \<Rightarrow> User a \<noteq> user \<or> Password a \<noteq> password)
             then Inl ErrUnauthorised
             else
               Inr (identifier, outr\<lparr>req_Header := out_header auth r\<rparr>,
                 \<lparr>Action = ActionProxy, ForwardedHost = req_Host r, ForwardedProto = request_scheme r, RemoteAddr = []\<rparr>))"

definition RoundTrip :: "'l registry \<Rightarrow> http_env \<Rightarrow> request \<Rightarrow> go_error + response" where
  "RoundTrip reg env r =
     (case route_request reg r of
        Inl err \<Rightarrow> Inl err
      | Inr (identifier, outr, msg) \<Rightarrow> proxyHTTP env identifier outr msg)"

text \<open>What the public user is answered, by way of \<open>http.Error\<close> for errors.\<close>

record user_response =
  ur_Status :: int
  ur_Header :: header
  ur_Body :: string

definition http_Error :: "header \<Rightarrow> string \<Rightarrow> int \<Rightarrow> user_response" where
  "http_Error h error code =
     \<lparr>ur_Status = code,
      ur_Header = header_set (header_set h ''Content-Type'' ''text/plain; charset=utf-8'')
        ''X-Content-Type-Options'' ''nosniff'',
      ur_Body = error @ [CHR 0x0A]\<rparr>"

definition answer_user :: "http_env \<Rightarrow> header \<Rightarrow> request \<Rightarrow> go_error + response \<Rightarrow> user_response" where
  "answer_user env h r res =
     (case res of
        Inl err \<Rightarrow>
          if err = ErrUnauthorised
          then http_Error (header_set h ''WWW-Authenticate'' ''Basic realm=\"User Visible Realm\"'') (error_text err) 401
          else http_Error h (error_text err) 502
      | Inr resp \<Rightarrow>
          \<lparr>ur_Status = resp_StatusCode resp, ur_Header = copyHeader h (resp_Header resp),
           ur_Body = fst (transfer (With (NewContext (he_Logger env))
             [KStr ''dir'', KStr ''client to user'', KStr ''dst'', KStr (req_RemoteAddr r), KStr ''src'', KStr (req_Host r)])
             (he_Room env) (resp_Body resp, he_BodyError env))\<rparr>)"

definition ServeHTTP :: "'l registry \<Rightarrow> http_env \<Rightarrow> header \<Rightarrow> request \<Rightarrow> user_response" where
  "ServeHTTP reg env h r = answer_user env h r (RoundTrip reg env r)"


section \<open>Who gets through\<close>

lemma route_request_InrD:
  assumes "route_request reg r = Inr (i, outr, msg)"
  obtains auth ok where "Subscriber (req_Host r) reg = Some (i, auth)"
    "auth = None \<or> BasicAuth (req_Header r) = (User (the auth), Password (the auth), ok)"
    "outr = (if req_ContentLength r = 0 then r\<lparr>req_Body := None\<rparr> else r)\<lparr>req_Header := out_header auth r\<rparr>"
    "msg = \<lparr>Action = ActionProxy, ForwardedHost = req_Host r, ForwardedProto = request_scheme r, RemoteAddr = []\<rparr>"
  using assms
  by (auto simp: route_request_def Let_def split: option.splits prod.splits if_splits)

lemma stored_user:
  assumes "registry_inv reg" and "Subscriber h reg = Some (i, Some a)"
  shows "User a \<noteq> []"
  using assms registry_inv_auth [OF assms(1), of "trimPort h"]
  by (auto simp: Subscriber_def good_auth_def split: option.splits)

text \<open>Headers by their canonical key: what \<open>out_header\<close> does to each header of interest.\<close>

lemma get_canonical:
  "canonical_key k = k \<Longrightarrow> h k = h' k \<Longrightarrow> header_get h k = header_get h' k"
  by (simp add: header_get_def)

lemma header_get_setXForwardedFor:
  "canonical_key k = k \<Longrightarrow> k \<noteq> ''X-Forwarded-For'' \<Longrightarrow> header_get (setXForwardedFor h a) k = header_get h k"
  by (rule get_canonical) (simp_all add: setXForwardedFor_other)

lemma out_header_get:
  "header_get (out_header auth r) ''X-Forwarded-Host'' =
     (if header_get (req_Header r) ''X-Forwarded-Host'' = [] then req_Host r
      else header_get (req_Header r) ''X-Forwarded-Host'')"
  "header_get (out_header auth r) ''X-Forwarded-Proto'' =
     (if header_get (req_Header r) ''X-Forwarded-Host'' = [] then request_scheme r
      else header_get (req_Header r) ''X-Forwarded-Proto'')"
  "header_get (out_header auth r) ''Authorization'' =
     (if auth = None then header_get (req_Header r) ''Authorization'' else [])"
  by (simp_all add: out_header_def Let_def header_get_setXForwardedFor)

text \<open>
  A host protected by a credential is reached only with that credential: when a request is routed to
  a client under a host with a user and a password, its Authorization header really is well-formed Basic
  authentication with exactly this user and password, and the header is not passed on to the client.
  This rests on the invariant of the registry: with a stored empty user a request without any
  credential would pass.
\<close>

theorem route_request_authorised:
  assumes "registry_inv reg" and "Subscriber (req_Host r) reg = Some (k, Some a)"
    and "route_request reg r = Inr (i, outr, msg)"
  shows "i = k \<and> BasicAuth (req_Header r) = (User a, Password a, True) \<and>
    header_get (req_Header outr) ''Authorization'' = []"
  using assms(3)
proof (cases rule: route_request_InrD)
  case (1 auth ok)
  with assms(2) have k: "i = k" "auth = Some a" by simp_all
  with 1 have "BasicAuth (req_Header r) = (User a, Password a, ok)" by simp
  moreover have "User a \<noteq> []" using assms(1,2) by (rule stored_user)
  ultimately have "ok" using BasicAuth_not_ok [of "req_Header r" "User a" "Password a"] by (cases ok) auto
  with 1 k show ?thesis by (simp add: out_header_get)
qed

text \<open>
  The right credential is accepted: for a host of a client, a request that carries the host's user and
  password as Basic authentication is routed to the client.
\<close>

theorem route_request_accepts:
  assumes "Subscriber (req_Host r) reg = Some (i, Some a)" and "CHR '':'' \<notin> set (User a)"
    and "header_get (req_Header r) ''Authorization'' = basic_auth_header (User a) (Password a)"
  shows "\<exists>outr msg. route_request reg r = Inr (i, outr, msg)"
  using assms(1) BasicAuth_header [OF assms(2,3)]
  by (simp add: route_request_def Let_def)

text \<open>
  Forwarding headers: the client's service sees the public host and scheme unless the request already
  named a forwarded host, in which case both headers are passed on as they came; an Authorization
  header meant for the service passes when the host has no credential of its own; the rest of the
  request is as it was.
\<close>

theorem route_request_headers:
  assumes "route_request reg r = Inr (i, outr, msg)"
  shows "header_get (req_Header outr) ''X-Forwarded-Host'' =
      (if header_get (req_Header r) ''X-Forwarded-Host'' = [] then req_Host r
       else header_get (req_Header r) ''X-Forwarded-Host'') \<and>
    header_get (req_Header outr) ''X-Forwarded-Proto'' =
      (if header_get (req_Header r) ''X-Forwarded-Host'' = [] then request_scheme r
       else header_get (req_Header r) ''X-Forwarded-Proto'') \<and>
    (Subscriber (req_Host r) reg = Some (i, None) \<longrightarrow>
       header_get (req_Header outr) ''Authorization'' = header_get (req_Header r) ''Authorization'') \<and>
    outr\<lparr>req_Header := req_Header r\<rparr> = (if req_ContentLength r = 0 then r\<lparr>req_Body := None\<rparr> else r)"
  using assms by (cases rule: route_request_InrD) (simp add: out_header_get)

lemma routed_message:
  assumes "route_request reg r = Inr (i, outr, msg)" and "connectRequest env i msg body = Inr req"
    and "req_Host r \<noteq> []"
  shows "ReadControlMessage (req\<lparr>req_RemoteAddr := a\<rparr>) =
    Inr \<lparr>Action = ''proxy'', ForwardedHost = req_Host r, ForwardedProto = request_scheme r, RemoteAddr = a\<rparr> \<and>
    req_Method req = ''PUT'' \<and> req_URLHost req = ident_text i"
  using assms(1)
proof (cases rule: route_request_InrD)
  case (1 auth ok)
  have "request_scheme r \<noteq> []" by (simp add: request_scheme_def protocol_names)
  with 1 assms(3) have complete: "complete_message msg" by (simp add: complete_message_def ActionProxy_def)
  from assms(2) obtain h where req: "req_Header req = WriteToHeader msg h" "req_Method req = ''PUT''"
      "req_URLHost req = ident_text i"
    by (auto simp: connectRequest_def Let_def split: option.splits)
  have "ReadControlMessage (req\<lparr>req_RemoteAddr := a\<rparr>) =
      ReadControlMessage (req\<lparr>req_RemoteAddr := a, req_Header := WriteToHeader msg h\<rparr>)"
    by (simp add: req(1) [symmetric])
  with complete 1 req show ?thesis
    by (simp add: ReadControlMessage_complete ActionProxy_def)
qed

text \<open>
  The server and the client agree on where a request goes: the request the server sends through the
  tunnel for a routed public request is one whose control message the client reads back, with the
  public host and the scheme, unless the public request names no host.
\<close>

theorem routed_message_read:
  assumes "route_request reg r = Inr (i, outr, msg)" and "connectRequest env i msg body = Inr req"
    and "req_Host r \<noteq> []"
  shows "ReadControlMessage (req\<lparr>req_RemoteAddr := a\<rparr>) =
    Inr \<lparr>Action = ''proxy'', ForwardedHost = req_Host r, ForwardedProto = request_scheme r, RemoteAddr = a\<rparr> \<and>
    req_Method req = ''PUT'' \<and> req_URLHost req = ident_text i"
  using assms by (rule routed_message)

lemma RoundTrip_error_not_auth:
  "route_request reg r = Inr (i, outr, msg) \<Longrightarrow> RoundTrip reg env r = Inl e \<Longrightarrow> e \<noteq> ErrUnauthorised"
  by (auto simp: RoundTrip_def proxyHTTP_def split: sum.splits)

text \<open>
  A request that is not routed never reaches a client: the answer is 401 with a challenge when the
  credential is wrong and 502 otherwise, and it does not depend on any client or on the network; a
  request that is routed gets the status, the headers and, when nothing breaks, the whole body of the
  client's response, or 502 when the client cannot be reached.
\<close>

theorem ServeHTTP_outcomes:
  "(case route_request reg r of
      Inl e \<Rightarrow>
        ur_Status (ServeHTTP reg env h r) = (if e = ErrUnauthorised then 401 else 502) \<and>
        ServeHTTP reg env h r = ServeHTTP reg env' h r \<and>
        (header_get (ur_Header (ServeHTTP reg env h r)) ''WWW-Authenticate'' =
           (if e = ErrUnauthorised then ''Basic realm=\"User Visible Realm\"'' else header_get h ''WWW-Authenticate''))
    | Inr (i, outr, msg) \<Rightarrow>
        (case proxyHTTP env i outr msg of
           Inl e \<Rightarrow> ur_Status (ServeHTTP reg env h r) = 502
         | Inr resp \<Rightarrow>
             ur_Status (ServeHTTP reg env h r) = resp_StatusCode resp \<and>
             ur_Header (ServeHTTP reg env h r) = h ++ resp_Header resp \<and>
             ur_Body (ServeHTTP reg env h r) = fst (io_Copy (he_Room env) (resp_Body resp, he_BodyError env))))"
proof (cases "route_request reg r")
  case (Inl e)
  have "canonical_key ''Content-Type'' = ''Content-Type''"
    "canonical_key ''X-Content-Type-Options'' = ''X-Content-Type-Options''" by code_simp+
  with Inl show ?thesis
    by (simp add: ServeHTTP_def answer_user_def RoundTrip_def http_Error_def)
next
  case (Inr x)
  obtain i outr msg where x: "x = (i, outr, msg)" by (cases x)
  show ?thesis
  proof (cases "proxyHTTP env i outr msg")
    case (Inl e)
    with RoundTrip_error_not_auth [OF Inr [unfolded x], of env e] Inr x show ?thesis
      by (simp add: ServeHTTP_def answer_user_def RoundTrip_def http_Error_def)
  next
    case resp: (Inr resp)
    with Inr x show ?thesis
      by (simp add: ServeHTTP_def answer_user_def RoundTrip_def copyHeader_def transfer_def Let_def split: prod.split)
  qed
qed


section \<open>An example\<close>

definition demo_auth :: auth where
  "demo_auth = \<lparr>User = ''u'', Password = ''p:q''\<rparr>"

definition demo_registry :: "nat registry" where
  "demo_registry = snd (set_item \<lparr>Hosts = [\<lparr>ha_Host = ''a.b'', ha_Auth = Some demo_auth\<rparr>], Listeners = []\<rparr>
     zero_ident (Subscribe zero_ident newRegistry))"

definition demo_request :: request where
  "demo_request = empty_request\<lparr>req_Host := ''a.b'',
     req_Header := [''Authorization'' \<mapsto> [basic_auth_header ''u'' ''p:q'']]\<rparr>"

lemma demo_registry_inv: "registry_inv demo_registry"
  by (simp add: demo_registry_def registry_inv_set_item)

lemma demo_Subscriber: "Subscriber (req_Host demo_request) demo_registry = Some (zero_ident, Some demo_auth)"
  by (simp add: demo_request_def demo_registry_def Subscriber_def set_item_def Subscribe_def newRegistry_def
      demo_auth_def)

lemma demo_credential: "header_get (req_Header demo_request) ''Authorization'' = basic_auth_header (User demo_auth) (Password demo_auth)"
  by (simp add: demo_request_def header_get_def demo_auth_def)

lemma demo_route:
  "route_request demo_registry demo_request =
     Inr (zero_ident, demo_request\<lparr>req_Header := out_header (Some demo_auth) demo_request\<rparr>,
       \<lparr>Action = ActionProxy, ForwardedHost = ''a.b'', ForwardedProto = HTTP, RemoteAddr = []\<rparr>)"
proof -
  have "BasicAuth (req_Header demo_request) = (User demo_auth, Password demo_auth, True)"
    using demo_credential by (intro BasicAuth_header) (simp_all add: demo_auth_def)
  then show ?thesis
    by (simp add: route_request_def demo_Subscriber Let_def)
       (simp add: demo_request_def empty_request_def request_scheme_def)
qed

lemma route_request_authorised_witness:
  "BasicAuth (req_Header demo_request) = (''u'', ''p:q'', True)"
  using route_request_authorised [OF demo_registry_inv demo_Subscriber demo_route]
  by (simp add: demo_auth_def)

lemma route_request_accepts_witness:
  "\<exists>outr msg. route_request demo_registry demo_request = Inr (zero_ident, outr, msg)"
  by (rule route_request_accepts [OF demo_Subscriber _ demo_credential]) (simp add: demo_auth_def)

lemma route_request_headers_witness:
  "header_get (out_header (Some demo_auth) demo_request) ''X-Forwarded-Host'' = ''a.b''"
proof -
  have "header_get (req_Header demo_request) ''X-Forwarded-Host'' = []" "req_Host demo_request = ''a.b''"
    by (simp_all add: demo_request_def header_get_def)
  then show ?thesis
    using conjunct1 [OF route_request_headers [OF demo_route]] by simp
qed

definition demo_http_env :: http_env where
  "demo_http_env =
     \<lparr>he_NewRequest = (\<lambda>_. None), he_Write = (\<lambda>_. []), he_Do = (\<lambda>_. Inl (Extern ''timeout'')),
      he_BodyError = None, he_Room = None, he_Logger = NopLogger\<rparr>"

lemma routed_message_read_witness:
  "\<exists>req. connectRequest demo_http_env zero_ident
      \<lparr>Action = ActionProxy, ForwardedHost = ''a.b'', ForwardedProto = HTTP, RemoteAddr = []\<rparr> [] = Inr req \<and>
    ReadControlMessage (req\<lparr>req_RemoteAddr := ''1.1.1.1:5''\<rparr>) =
      Inr \<lparr>Action = ''proxy'', ForwardedHost = ''a.b'', ForwardedProto = ''http'', RemoteAddr = ''1.1.1.1:5''\<rparr>"
proof -
  let ?msg = "\<lparr>Action = ActionProxy, ForwardedHost = ''a.b'', ForwardedProto = HTTP, RemoteAddr = []\<rparr>"
  obtain req where req: "connectRequest demo_http_env zero_ident ?msg [] = Inr req"
    by (simp add: connectRequest_def demo_http_env_def Let_def)
  have "req_Host demo_request \<noteq> []" by (simp add: demo_request_def)
  from routed_message_read [OF demo_route req this] req show ?thesis
    by (auto simp: demo_request_def empty_request_def request_scheme_def HTTP_def)
qed

end
