(* ===== verification/Server_Routes.thy ===== *)
theory Server_Routes
  imports Server_Solo Server_Http
begin

text \<open>
  Public requests beside the goroutines of the interleaved server: a request reads the registry once, at
  any moment. Every step of the machine applies at most one operation to the registry, so its two maps
  agree in every reachable state, and what was shown of a request for such a registry holds at any
  time.
\<close>

section \<open>Steps are operations of the registry\<close>

text \<open>Clients that name the hosts of their tunnels without a port.\<close>

definition plain_tunnel :: "string \<times> tunnel option \<Rightarrow> bool" where
  "plain_tunnel e \<longleftrightarrow> (case snd e of None \<Rightarrow> True | Some t \<Rightarrow> trimPort (tunnel_Host t) = tunnel_Host t)"

definition plain_env :: "conn_env \<Rightarrow> bool" where
  "plain_env env \<longleftrightarrow> (\<forall>i ts. handshake env i = Inr ts \<longrightarrow> list_all plain_tunnel ts)"

fun plain_aim :: "aim \<Rightarrow> bool" where
  "plain_aim (To_add env i) = plain_env env"
| "plain_aim _ = True"

fun plain_phase :: "phase \<Rightarrow> bool" where
  "plain_phase (Starting env) = plain_env env"
| "plain_phase (Admitted env i) = plain_env env"
| "plain_phase (Adding env i) = plain_env env"
| "plain_phase (Pooled env i) = plain_env env"
| "plain_phase (Opening env i ts it) \<longleftrightarrow>
     list_all plain_tunnel ts \<and> list_all (\<lambda>h. trimPort (ha_Host h) = ha_Host h) (Hosts it)"
| "plain_phase (Deleting i aim) = plain_aim aim"
| "plain_phase (Freeing i aim) = plain_aim aim"
| "plain_phase (Closing ls aim) = plain_aim aim"
| "plain_phase _ = True"

lemma plain_resume [simp]: "plain_phase (resume aim) = plain_aim aim"
  by (cases aim) simp_all

text \<open>What a step may do to the registry.\<close>

definition operated :: "listener registry \<Rightarrow> listener registry \<Rightarrow> bool" where
  "operated r r' \<longleftrightarrow> r' = r \<or> (\<exists>p. trimmed_op p \<and> r' = apply_op p r)"

lemma operated_same [simp, intro]: "operated r r"
  by (simp add: operated_def)

lemma operated_op:
  "operated r (Subscribe k r)"
  "list_all (\<lambda>h. trimPort (ha_Host h) = ha_Host h) (Hosts i) \<Longrightarrow> operated r (snd (set_item i k r))"
  "operated r (snd (clear k r))"
  "operated r (snd (Unsubscribe k r))"
proof -
  show "operated r (Subscribe k r)"
    by (auto simp: operated_def intro!: exI [of _ "OpSubscribe k"])
  show "operated r (snd (set_item i k r))" if "list_all (\<lambda>h. trimPort (ha_Host h) = ha_Host h) (Hosts i)"
    using that by (auto simp: operated_def intro!: exI [of _ "OpSet i k"])
  show "operated r (snd (clear k r))"
    by (auto simp: operated_def intro!: exI [of _ "OpClear k"])
  show "operated r (snd (Unsubscribe k r))"
    by (auto simp: operated_def intro!: exI [of _ "OpUnsubscribe k"])
qed

lemma operated_inv:
  "operated r r' \<Longrightarrow> registry_inv r \<Longrightarrow> trimmed_hosts r \<Longrightarrow> registry_inv r' \<and> trimmed_hosts r'"
  by (auto simp: operated_def intro: registry_inv_apply_op trimmed_hosts_apply_op)

lemma close_listener_reg [simp]: "w_reg (close_listener l w) = w_reg w"
  by (cases l) simp_all

lemma admit_operated: "admit cfg env i w = (b, w') \<Longrightarrow> operated (w_reg w) (w_reg w')"
  by (auto simp: admit_def Let_def operated_op split: if_splits option.splits)

lemma open_tunnel_plain:
  "open_tunnel env name t it w = (res, it', w') \<Longrightarrow> plain_tunnel (name, Some t) \<Longrightarrow>
   list_all (\<lambda>h. trimPort (ha_Host h) = ha_Host h) (Hosts it) \<Longrightarrow>
   list_all (\<lambda>h. trimPort (ha_Host h) = ha_Host h) (Hosts it')"
  by (auto simp: open_tunnel_def add_host_def add_listener_def plain_tunnel_def split: if_splits prod.splits option.splits)

lemma add_conn_operated:
  "add_conn c env i p w = (ph', p', w', lk') \<Longrightarrow> plain_env env \<Longrightarrow> plain_phase ph' \<and> w_reg w' = w_reg w"
  by (auto simp: add_conn_def split: sum.splits)

lemma drop_conn_operated:
  "drop_conn c cp addr aim p w = (ph', p', w', lk') \<Longrightarrow> plain_aim aim \<Longrightarrow> plain_phase ph' \<and> w_reg w' = w_reg w"
  by (auto simp: drop_conn_def)

lemma advance_operated:
  assumes "advance cfg c ph p w lk = Some (ph', p', w', lk')" and "plain_phase ph"
  shows "plain_phase ph' \<and> operated (w_reg w) (w_reg w')"
proof (cases ph)
  case (Starting env)
  with assms show ?thesis
    by (auto split: if_splits sum.splits prod.splits bool.splits intro: admit_operated)
next
  case (Admitted env i)
  with assms show ?thesis
    by (auto split: if_splits option.splits dest!: add_conn_operated drop_conn_operated)
next
  case (Adding env i)
  with assms show ?thesis by (auto dest!: add_conn_operated)
next
  case (Pooled env i)
  with assms show ?thesis by (auto simp: plain_env_def split: sum.splits)
next
  case (Opening env i ts it)
  show ?thesis
  proof (cases ts)
    case Nil
    with assms Opening operated_op(2) [of it "w_reg w" i] show ?thesis
      by (auto split: prod.splits option.splits)
  next
    case (Cons e ts')
    with Opening assms obtain name t where e: "e = (name, Some t)" by (cases e; cases "snd e") auto
    obtain res it1 w1 where one: "open_tunnel env name t it w = (res, it1, w1)" by (metis prod_cases3)
    with open_tunnel_plain [OF one] open_tunnel_reg [OF one] Opening Cons e assms show ?thesis
      by (auto split: option.splits)
  qed
next
  case (Rolling env i err ls)
  with assms show ?thesis by (cases ls) auto
next
  case (Deleting i aim)
  with assms show ?thesis by (auto split: if_splits option.splits dest!: drop_conn_operated)
next
  case (Freeing i aim)
  with assms operated_op(3) [of "w_reg w" i] show ?thesis by (auto split: prod.splits)
next
  case (Closing ls aim)
  with assms show ?thesis by (cases ls) auto
next
  case (Removing i)
  with assms operated_op(4) [of "w_reg w" i] show ?thesis by (auto split: prod.splits)
qed (use assms in auto)


section \<open>The registry at any moment\<close>

text \<open>The machine on clients without ports in their hosts.\<close>

definition plain_event :: "event \<Rightarrow> bool" where
  "plain_event e \<longleftrightarrow> (case e of Accepted c env \<Rightarrow> plain_env env | _ \<Rightarrow> True)"

definition plain_step :: "server_config \<Rightarrow> system \<Rightarrow> event \<Rightarrow> system \<Rightarrow> bool" where
  "plain_step cfg s e t \<longleftrightarrow> sys_step cfg s e t \<and> plain_event e"

definition routes_ok :: "system \<Rightarrow> bool" where
  "routes_ok s \<longleftrightarrow> registry_inv (w_reg (sy_world s)) \<and> trimmed_hosts (w_reg (sy_world s)) \<and> (\<forall>c. plain_phase (sy_pc s c))"

definition routes_initial :: "system \<Rightarrow> bool" where
  "routes_initial s \<longleftrightarrow>
     registry_inv (w_reg (sy_world s)) \<and> trimmed_hosts (w_reg (sy_world s)) \<and> (\<forall>c. sy_pc s c = Idle)"

lemma routes_ok_put:
  assumes "routes_ok s" and "plain_phase ph" and "operated (w_reg (sy_world s)) (w_reg w)"
  shows "routes_ok (put s c (ph, p, w, lk))"
  using assms operated_inv [OF assms(3)] by (simp add: routes_ok_def put_def)

lemma routes_ok_step:
  assumes "plain_step cfg s e t" and "routes_ok s"
  shows "routes_ok t"
proof -
  from assms(1) have "sys_step cfg s e t" and plain: "plain_event e" by (simp_all add: plain_step_def)
  from this(1) show ?thesis
  proof cases
    case (accepted c env)
    with plain assms(2) show ?thesis by (simp add: plain_event_def routes_ok_put)
  next
    case (dead c i cp d)
    with assms(2) show ?thesis by (simp add: drop_conn_def routes_ok_put)
  next
    case (unsubscribing c i)
    with assms(2) show ?thesis by (simp add: routes_ok_put split: option.split)
  next
    case (step c l)
    obtain ph p w lk where l: "l = (ph, p, w, lk)" by (cases l)
    have "plain_phase (sy_pc s c)" using assms(2) by (simp add: routes_ok_def)
    from advance_operated [OF step(3) [unfolded l] this] assms(2) show ?thesis
      by (simp add: step(2) l routes_ok_put)
  qed
qed

interpretation served_routes: invariant_machine routes_initial "plain_step cfg" routes_ok
proof (rule invariant_machine.intro)
  show "routes_ok s" if "routes_initial s" for s using that by (simp add: routes_initial_def routes_ok_def)
  show "routes_ok t" if "routes_ok s" "plain_step cfg s e t" for s e t using that(2,1) by (rule routes_ok_step)
qed

lemma plain_run: "run (sys_step cfg) s es t \<Longrightarrow> list_all plain_event es \<Longrightarrow> run (plain_step cfg) s es t"
  by (induction rule: run.induct) (auto intro!: run.intros simp: plain_step_def)


text \<open>
  At any moment of the interleaved server a public request is routed to the one client that holds its
  host at that moment, and if the host is protected it gets through only with exactly the host's
  credential, which is taken off. The clients must name their hosts without a port.
\<close>

theorem interleaved_routes:
  assumes "routes_initial s" and "run (sys_step cfg) s es t" and "list_all plain_event es"
    and "Subscriber (req_Host r) (w_reg (sy_world t)) = Some (k, auth)"
  shows "(\<forall>j. trimPort (req_Host r) \<in> host_keys (item_hosts j (w_reg (sy_world t))) \<longleftrightarrow> j = k) \<and>
    (\<forall>a i outr msg. auth = Some a \<and> route_request (w_reg (sy_world t)) r = Inr (i, outr, msg) \<longrightarrow>
       i = k \<and> BasicAuth (req_Header r) = (User a, Password a, True) \<and>
       header_get (req_Header outr) ''Authorization'' = [])"
proof -
  let ?reg = "w_reg (sy_world t)"
  have inv: "registry_inv ?reg"
    using served_routes.inv_reachable [OF assms(1) plain_run [OF assms(2,3)]] by (simp add: routes_ok_def)
  have "owner (trimPort (req_Host r)) ?reg = Some k"
    using assms(4) by (simp add: Subscriber_routes routes_SomeD)
  then have "trimPort (req_Host r) \<in> host_keys (item_hosts j ?reg) \<longleftrightarrow> j = k" for j
    using registry_inv_owner [OF inv, of "trimPort (req_Host r)" j] by auto
  moreover have "i = k \<and> BasicAuth (req_Header r) = (User a, Password a, True) \<and>
      header_get (req_Header outr) ''Authorization'' = []"
    if "auth = Some a" "route_request ?reg r = Inr (i, outr, msg)" for a i outr msg
    using route_request_authorised [OF inv assms(4) [unfolded that(1)] that(2)] .
  ultimately show ?thesis by blast
qed

definition demo_protected :: system where
  "demo_protected = demo_system\<lparr>sy_world := (sy_world demo_system)\<lparr>w_reg :=
     snd (set_item \<lparr>Hosts = [\<lparr>ha_Host = ''a.b'', ha_Auth = Some demo_auth\<rparr>], Listeners = []\<rparr>
       zero_ident (Subscribe zero_ident newRegistry))\<rparr>\<rparr>"

lemma demo_protected_initial: "routes_initial demo_protected"
proof -
  have "trimmed_hosts (apply_op (OpSet \<lparr>Hosts = [\<lparr>ha_Host = ''a.b'', ha_Auth = Some demo_auth\<rparr>], Listeners = []\<rparr> zero_ident)
      (Subscribe zero_ident (newRegistry :: listener registry)))"
    by (rule trimmed_hosts_apply_op) (simp_all add: trimPort_no_colon)
  then show ?thesis
    by (simp add: routes_initial_def demo_protected_def registry_inv_set_item) (simp add: demo_system_def)
qed

lemma interleaved_routes_witness:
  "\<exists>t. run (sys_step (demo_cfg True)) demo_protected [Unsubscribing 7 zero_ident] t \<and>
     (\<exists>outr msg. route_request (w_reg (sy_world t)) demo_request = Inr (zero_ident, outr, msg) \<and>
       header_get (req_Header outr) ''Authorization'' = [])"
proof -
  let ?reg = "w_reg (sy_world demo_protected)"
  obtain t where t: "sys_step (demo_cfg True) demo_protected (Unsubscribing 7 zero_ident) t" "w_reg (sy_world t) = ?reg"
    using sys_step.unsubscribing [of demo_protected 7 "demo_cfg True" zero_ident]
    by (fastforce simp: put_def demo_protected_def demo_system_def split: option.split)
  then have run: "run (sys_step (demo_cfg True)) demo_protected [Unsubscribing 7 zero_ident] t"
    by (simp add: run_Cons_iff)
  have sub: "Subscriber (req_Host demo_request) (w_reg (sy_world t)) = Some (zero_ident, Some demo_auth)"
    by (simp add: t(2) demo_protected_def demo_request_def Subscriber_def set_item_def Subscribe_def newRegistry_def demo_auth_def)
  obtain outr msg where r: "route_request (w_reg (sy_world t)) demo_request = Inr (zero_ident, outr, msg)"
    using route_request_accepts [OF sub _ demo_credential] by (auto simp: demo_auth_def)
  from interleaved_routes [OF demo_protected_initial run _ sub] run r show ?thesis by (auto simp: plain_event_def)
qed

end
