(* ===== verification/Server_Conn.thy ===== *)
theory Server_Conn
  imports Server_Core Http_Data "HOL-Library.Sublist"
begin

text \<open>
  Connections on the server (\<open>server.go\<close>): the two accept loops, the upgrade of a connection, and the
  goroutines that carry a public connection through the tunnel. The goroutines are a transition system:
  the method itself, the goroutine that copies from the user and, for an upgraded connection, the one
  that first writes the bytes already read.
\<close>

section \<open>Accepting\<close>

text \<open>
  What \<open>Accept\<close> of a listener gives: an error or a connection, which comes from the TLS muxer with the
  name of its virtual host or from the network, and the answer of \<open>keepAlive\<close>. A run of a loop is
  described by the list of results so far.
\<close>

record incoming =
  in_conn :: nat
  in_vhost :: "string option"
  in_keepAlive :: "go_error option"

definition closed_text :: string where
  "closed_text = ''use of closed network connection''"

text \<open>\<open>Start\<close>: the connections handed to \<open>handleClient\<close> and whether the loop has returned.\<close>

fun Start :: "(go_error + incoming) list \<Rightarrow> nat list \<times> bool" where
  "Start [] = ([], False)"
| "Start (Inl err # rs) = (if contains (error_text err) closed_text then ([], True) else Start rs)"
| "Start (Inr c # rs) = (let (cs, returned) = Start rs in (in_conn c # cs, returned))"

text \<open>
  \<open>listen\<close>: the connections handed to \<open>proxyConn\<close> with their control messages. \<open>network\<close> and \<open>address\<close>
  are the two parts of the listener's address.
\<close>

definition listen_message :: "string \<Rightarrow> string \<Rightarrow> incoming \<Rightarrow> control_message" where
  "listen_message network address c =
     (let msg = \<lparr>Action = ActionProxy, ForwardedHost = [], ForwardedProto = network, RemoteAddr = []\<rparr>
      in case in_vhost c of
           Some host \<Rightarrow> msg\<lparr>ForwardedHost := host\<rparr>
         | None \<Rightarrow> msg\<lparr>ForwardedHost := address\<rparr>)"

fun listen :: "string \<Rightarrow> string \<Rightarrow> (go_error + incoming) list \<Rightarrow> (nat \<times> control_message) list \<times> bool" where
  "listen network address [] = ([], False)"
| "listen network address (Inl err # rs) =
     (if contains (error_text err) closed_text \<or> contains (error_text err) ''Listener closed''
      then ([], True) else listen network address rs)"
| "listen network address (Inr c # rs) =
     (let (cs, returned) = listen network address rs
      in ((in_conn c, listen_message network address c) # cs, returned))"

definition ends_listen :: "go_error + incoming \<Rightarrow> bool" where
  "ends_listen r =
     (case r of Inl err \<Rightarrow> contains (error_text err) closed_text \<or> contains (error_text err) ''Listener closed''
      | Inr c \<Rightarrow> False)"

definition ends_Start :: "go_error + incoming \<Rightarrow> bool" where
  "ends_Start r = (case r of Inl err \<Rightarrow> contains (error_text err) closed_text | Inr c \<Rightarrow> False)"

definition accepted_conns :: "(go_error + incoming) list \<Rightarrow> incoming list" where
  "accepted_conns rs = concat (map (\<lambda>r. case r of Inl err \<Rightarrow> [] | Inr c \<Rightarrow> [c]) rs)"

lemma Start_conns:
  "Start rs = (map in_conn (accepted_conns (takeWhile (\<lambda>r. \<not> ends_Start r) rs)), \<exists>r \<in> set rs. ends_Start r)"
  by (induction rs rule: Start.induct) (auto simp: accepted_conns_def ends_Start_def split: prod.split)

lemma listen_message_eq:
  "listen_message network address c =
     \<lparr>Action = ''proxy'', ForwardedHost = (case in_vhost c of Some host \<Rightarrow> host | None \<Rightarrow> address),
      ForwardedProto = network, RemoteAddr = []\<rparr>"
  by (simp add: listen_message_def ActionProxy_def split: option.split)

text \<open>
  An accept loop serves every connection of a tunnel's listener, once and in order, until the listener
  is closed; temporary errors do not end it. Each connection is announced to the client with the
  listener's network and with the virtual host it asked for, or the listener's address.
\<close>

theorem listen_serves_all:
  "listen network address rs =
     (map (\<lambda>c. (in_conn c,
        \<lparr>Action = ''proxy'', ForwardedHost = (case in_vhost c of Some host \<Rightarrow> host | None \<Rightarrow> address),
         ForwardedProto = network, RemoteAddr = []\<rparr>))
        (accepted_conns (takeWhile (\<lambda>r. \<not> ends_listen r) rs)), \<exists>r \<in> set rs. ends_listen r)"
  by (induction network address rs rule: listen.induct)
     (auto simp: accepted_conns_def ends_listen_def listen_message_eq split: prod.split)

text \<open>
  \<open>Upgrade\<close> announces the connection as \<open>https\<close>, with the server name of its TLS state or the address
  of the peer, and always succeeds; the connection is carried by \<open>proxyConnUpgraded\<close>.
\<close>

definition Upgrade :: "string option \<Rightarrow> string \<Rightarrow> go_error option \<times> control_message" where
  "Upgrade server_name remote_addr =
     (let msg = \<lparr>Action = ActionProxy, ForwardedHost = [], ForwardedProto = ''https'', RemoteAddr = []\<rparr>
      in (None, case server_name of
                  Some name \<Rightarrow> msg\<lparr>ForwardedHost := name\<rparr>
                | None \<Rightarrow> msg\<lparr>ForwardedHost := remote_addr\<rparr>))"

text \<open>\<open>Ping\<close>, \<open>Addr\<close> and \<open>Stop\<close> of the server; the listener may be \<open>nil\<close>.\<close>

definition server_Ping :: "(nat, nat, world) http2_env \<Rightarrow> ident \<Rightarrow> srv \<Rightarrow> int \<times> go_error option" where
  "server_Ping env identifier = (\<lambda>(p, w). pool_Ping env identifier p)"

definition server_Addr :: "nat option \<Rightarrow> (nat \<Rightarrow> string) \<Rightarrow> string" where
  "server_Addr l address = (case l of None \<Rightarrow> [] | Some n \<Rightarrow> address n)"

definition Stop :: "nat option \<Rightarrow> world \<Rightarrow> world" where
  "Stop l w = (case l of None \<Rightarrow> w | Some n \<Rightarrow> close_listener (NetListener n) w)"


section \<open>Carrying a connection\<close>

text \<open>
  Program counters of the three goroutines. The method returns \<open>M_done\<close> with its error; the copier
  waits (\<open>C_wait\<close>) when the bytes already read must go first; the writer has still \<open>rest\<close> to write and
  then signals on \<open>continueChan\<close>.
\<close>

datatype main_pc = M_start | M_do | M_copy | M_wait | M_done "go_error option"
datatype copier_pc = C_none | C_wait | C_copy | C_done
datatype writer_pc = W_none | W_write string | W_signal | W_done

record carried =
  t_main :: main_pc
  t_copier :: copier_pc
  t_writer :: writer_pc
  t_user :: string
  t_pipe :: string
  t_resp :: string
  t_sent :: string
  t_pipe_open :: bool
  t_conn_open :: bool

text \<open>\<open>proxyConn\<close> starts without a writer, \<open>proxyConnUpgraded\<close> with one.\<close>

definition proxyConn_init :: "string \<Rightarrow> carried" where
  "proxyConn_init user =
     \<lparr>t_main = M_start, t_copier = C_none, t_writer = W_none, t_user = user, t_pipe = [], t_resp = [],
      t_sent = [], t_pipe_open = True, t_conn_open = True\<rparr>"

definition proxyConnUpgraded_init :: "string \<Rightarrow> string \<Rightarrow> carried" where
  "proxyConnUpgraded_init requestBytes user = (proxyConn_init user)\<lparr>t_writer := W_write requestBytes\<rparr>"

text \<open>The deferred calls close the pipe and the connection when the method returns.\<close>

definition returned :: "go_error option \<Rightarrow> carried \<Rightarrow> carried" where
  "returned err s = s\<lparr>t_main := M_done err, t_pipe_open := False, t_conn_open := False\<rparr>"

datatype carry_event =
    E_request "go_error option"
  | E_do "go_error + string"
  | E_reply nat
  | E_reply_end
  | E_finish
  | E_first nat
  | E_first_end
  | E_signal
  | E_user nat
  | E_user_end

inductive carry :: "carried \<Rightarrow> carry_event \<Rightarrow> carried \<Rightarrow> bool" where
  request_failed: "t_main s = M_start \<Longrightarrow> carry s (E_request (Some e)) (returned (Some e) s)"
| request_made: "t_main s = M_start \<Longrightarrow>
    carry s (E_request None)
      (s\<lparr>t_main := M_do, t_copier := (if t_writer s = W_none then C_copy else C_wait)\<rparr>)"
| do_failed: "t_main s = M_do \<Longrightarrow>
    carry s (E_do (Inl e)) (returned (Some (Errorf (''io error: '' @ error_text e))) s)"
| do_answered: "t_main s = M_do \<Longrightarrow> carry s (E_do (Inr body)) (s\<lparr>t_main := M_copy, t_resp := body\<rparr>)"
| reply: "t_main s = M_copy \<Longrightarrow>
    carry s (E_reply n) (s\<lparr>t_sent := t_sent s @ take n (t_resp s), t_resp := drop n (t_resp s)\<rparr>)"
| reply_end: "t_main s = M_copy \<Longrightarrow> carry s E_reply_end (s\<lparr>t_main := M_wait\<rparr>)"
| finish: "t_main s = M_wait \<Longrightarrow> carry s E_finish (returned None s)"
| first: "t_writer s = W_write rest \<Longrightarrow> t_pipe_open s \<Longrightarrow>
    carry s (E_first n) (s\<lparr>t_pipe := t_pipe s @ take n rest, t_writer := W_write (drop n rest)\<rparr>)"
| first_end: "t_writer s = W_write rest \<Longrightarrow> rest = [] \<or> \<not> t_pipe_open s \<Longrightarrow>
    carry s E_first_end (s\<lparr>t_writer := W_signal\<rparr>)"
| signal: "t_writer s = W_signal \<Longrightarrow> t_copier s = C_wait \<Longrightarrow>
    carry s E_signal (s\<lparr>t_writer := W_done, t_copier := C_copy\<rparr>)"
| user: "t_copier s = C_copy \<Longrightarrow> t_pipe_open s \<Longrightarrow> t_conn_open s \<Longrightarrow>
    carry s (E_user n) (s\<lparr>t_pipe := t_pipe s @ take n (t_user s), t_user := drop n (t_user s)\<rparr>)"
| user_end: "t_copier s = C_copy \<Longrightarrow> carry s E_user_end (s\<lparr>t_copier := C_done\<rparr>)"

inductive_cases carryE: "carry s e t"

text \<open>The two methods: what they may have done after a sequence of events of their goroutines.\<close>

definition proxyConn :: "string \<Rightarrow> carry_event list \<Rightarrow> carried \<Rightarrow> bool" where
  "proxyConn user es s = run carry (proxyConn_init user) es s"

definition proxyConnUpgraded :: "string \<Rightarrow> string \<Rightarrow> carry_event list \<Rightarrow> carried \<Rightarrow> bool" where
  "proxyConnUpgraded requestBytes user es s = run carry (proxyConnUpgraded_init requestBytes user) es s"

text \<open>
  The invariant: what went into the pipe, what the writer still has and what the user still sends are
  the first bytes and the user's bytes in this order; after the return everything is closed.
\<close>

definition carry_order :: "string \<Rightarrow> string \<Rightarrow> carried \<Rightarrow> bool" where
  "carry_order first user s \<longleftrightarrow>
     (\<exists>taken. user = taken @ t_user s \<and>
        (case t_writer s of
           W_none \<Rightarrow> first = [] \<and> t_pipe s = taken
         | W_write rest \<Rightarrow> taken = [] \<and> t_pipe s @ rest = first \<and> t_copier s \<in> {C_none, C_wait}
         | W_signal \<Rightarrow> taken = [] \<and> prefix (t_pipe s) first \<and> (t_pipe_open s \<longrightarrow> t_pipe s = first) \<and>
             t_copier s \<in> {C_none, C_wait}
         | W_done \<Rightarrow> t_pipe s = first @ taken \<or> \<not> t_pipe_open s \<and> taken = [] \<and> prefix (t_pipe s) first))"

definition carry_closed :: "carried \<Rightarrow> bool" where
  "carry_closed s \<longleftrightarrow>
     (case t_main s of M_done e \<Rightarrow> \<not> t_pipe_open s \<and> \<not> t_conn_open s | _ \<Rightarrow> t_pipe_open s \<and> t_conn_open s) \<and>
     (t_main s = M_start \<longrightarrow> t_copier s = C_none)"

lemma carry_closed_step: "carry s e t \<Longrightarrow> carry_closed s \<Longrightarrow> carry_closed t"
  by (erule carryE) (auto simp: carry_closed_def returned_def split: main_pc.splits)

lemma carry_order_step:
  assumes "carry s e t" and "carry_order first user s" and "carry_closed s"
  shows "carry_order first user t"
proof -
  from assms(2) obtain taken where taken: "user = taken @ t_user s"
    "case t_writer s of
       W_none \<Rightarrow> first = [] \<and> t_pipe s = taken
     | W_write rest \<Rightarrow> taken = [] \<and> t_pipe s @ rest = first \<and> t_copier s \<in> {C_none, C_wait}
     | W_signal \<Rightarrow> taken = [] \<and> prefix (t_pipe s) first \<and> (t_pipe_open s \<longrightarrow> t_pipe s = first) \<and>
         t_copier s \<in> {C_none, C_wait}
     | W_done \<Rightarrow> t_pipe s = first @ taken \<or> \<not> t_pipe_open s \<and> taken = [] \<and> prefix (t_pipe s) first"
    by (auto simp: carry_order_def)
  show ?thesis
    using assms(1)
  proof cases
    case (user n)
    with taken show ?thesis
      unfolding carry_order_def
      by (intro exI [of _ "taken @ take n (t_user s)"]) (auto split: writer_pc.splits)
  qed (use taken assms(3) in \<open>auto simp: carry_order_def returned_def carry_closed_def prefix_def
         split: writer_pc.splits if_splits main_pc.splits\<close>)
qed


definition carry_ok :: "string \<Rightarrow> string \<Rightarrow> carried \<Rightarrow> bool" where
  "carry_ok first user s \<longleftrightarrow> carry_order first user s \<and> carry_closed s"

definition carry_initial :: "string \<Rightarrow> string \<Rightarrow> carried \<Rightarrow> bool" where
  "carry_initial first user s \<longleftrightarrow>
     s = proxyConnUpgraded_init first user \<or> first = [] \<and> s = proxyConn_init user"

interpretation carrying: invariant_machine "carry_initial first user" carry "carry_ok first user"
proof (rule invariant_machine.intro)
  show "carry_ok first user s" if "carry_initial first user s" for s
    using that
    by (auto simp: carry_initial_def carry_ok_def carry_order_def carry_closed_def proxyConn_init_def
        proxyConnUpgraded_init_def)
  show "carry_ok first user t" if "carry_ok first user s" "carry s e t" for s e t
    using that carry_order_step carry_closed_step by (auto simp: carry_ok_def)
qed

text \<open>
  However the three goroutines interleave, what an upgraded connection has sent into the tunnel is at
  every moment a beginning of the bytes that were read before the upgrade followed by what the user
  sends, never reordered and with nothing lost in between; and once the method has returned the
  connection and the pipe are closed.
\<close>

theorem proxyConnUpgraded_order:
  assumes "proxyConnUpgraded requestBytes user es s"
  shows "prefix (t_pipe s) (requestBytes @ user) \<and>
    (\<forall>e. t_main s = M_done e \<longrightarrow> \<not> t_conn_open s \<and> \<not> t_pipe_open s)"
proof -
  have ok: "carry_ok requestBytes user s"
    using carrying.inv_reachable [OF _ assms [unfolded proxyConnUpgraded_def]] by (simp add: carry_initial_def)
  then have "prefix (t_pipe s) (requestBytes @ user)"
    by (cases "t_writer s") (auto simp: carry_ok_def carry_order_def prefix_def)
  with ok show ?thesis by (auto simp: carry_ok_def carry_closed_def)
qed

lemma proxyConnUpgraded_order_witness:
  "\<exists>s. proxyConnUpgraded ''GET'' ''abc'' [E_first 3] s \<and> t_pipe s = ''GET'' \<and>
     prefix (t_pipe s) (''GET'' @ ''abc'')"
proof -
  let ?s = "(proxyConnUpgraded_init ''GET'' ''abc'')\<lparr>t_pipe := ''GET'', t_writer := W_write []\<rparr>"
  have r: "proxyConnUpgraded ''GET'' ''abc'' [E_first 3] ?s"
    unfolding proxyConnUpgraded_def using carry.first [of "proxyConnUpgraded_init ''GET'' ''abc''" "''GET''" 3]
    by (auto simp: run_Cons_iff proxyConnUpgraded_init_def proxyConn_init_def)
  from r proxyConnUpgraded_order [OF r] show ?thesis by (intro exI [of _ ?s]) simp
qed

text \<open>
  A goroutine is lost for every upgraded connection whose request cannot be made: the method returns
  before the copier exists, the writer then waits on \<open>continueChan\<close> and nobody will ever receive.
\<close>

theorem proxyConnUpgraded_leak:
  "\<exists>s. proxyConnUpgraded requestBytes user [E_request (Some e), E_first_end] s \<and>
    t_main s = M_done (Some e) \<and> t_writer s = W_signal \<and> (\<forall>es t. run carry s es t \<longrightarrow> t_writer t = W_signal)"
proof -
  let ?s = "(returned (Some e) (proxyConnUpgraded_init requestBytes user))\<lparr>t_writer := W_signal\<rparr>"
  have "carry (proxyConnUpgraded_init requestBytes user) (E_request (Some e))
      (returned (Some e) (proxyConnUpgraded_init requestBytes user))"
    by (rule carry.request_failed) (simp add: proxyConnUpgraded_init_def proxyConn_init_def)
  moreover have "carry (returned (Some e) (proxyConnUpgraded_init requestBytes user)) E_first_end ?s"
    by (rule carry.first_end [where rest = requestBytes])
       (simp_all add: returned_def proxyConnUpgraded_init_def proxyConn_init_def)
  ultimately have "proxyConnUpgraded requestBytes user [E_request (Some e), E_first_end] ?s"
    by (auto simp: proxyConnUpgraded_def run_Cons_iff)
  moreover have "t_writer t = W_signal \<and> t_copier t = C_none \<and> t_main t = M_done (Some e)"
    if "run carry s es t" "t_writer s = W_signal \<and> t_copier s = C_none \<and> t_main s = M_done (Some e)" for s es t
    using that by (induction rule: run.induct) (auto elim: carryE)
  ultimately show ?thesis
    by (intro exI [of _ ?s]) (auto simp: returned_def proxyConnUpgraded_init_def proxyConn_init_def)
qed

end
