(* ===== verification/Server_Listen.thy ===== *)
theory Server_Listen
  imports Server_Solo Server_Conn
begin

text \<open>
  The accept loops of the clients' listeners as goroutines of the interleaved server. After \<open>addTunnels\<close> has
  stored a batch it starts one \<open>listen\<close> after the other, and anything may happen in between; a loop ends
  when its listener is closed, by whoever. \<open>Server_Conn.listen\<close> is the same loop as a function of what \<open>Accept\<close> answers.
\<close>

section \<open>The machine\<close>

text \<open>
  \<open>al_starting\<close> are the loops that each handler is still to start, \<open>al_loops\<close> the running loops with the
  client each was started for, \<open>al_links\<close> the connections they have handed to \<open>proxyConn\<close>, with client and
  control message, in order.
\<close>

record accepting =
  al_sys :: system
  al_starting :: "nat \<Rightarrow> (ident \<times> listener) list"
  al_loops :: "(ident \<times> listener) set"
  al_links :: "(ident \<times> listener \<times> nat \<times> control_message) list"

datatype accept_event = Sys event | Launch nat | Loop ident listener "go_error + incoming"

fun goroutine :: "event \<Rightarrow> nat" where
  "goroutine (Accepted c env) = c"
| "goroutine (Dead c d i) = c"
| "goroutine (Unsubscribing c i) = c"
| "goroutine (Step c) = c"

text \<open>The loops that a goroutine goes on to start when its step was a \<open>set\<close> that stored the batch.\<close>

fun launched :: "phase \<Rightarrow> phase \<Rightarrow> (ident \<times> listener) list" where
  "launched (Opening env i [] it) (Finished Connected) = map (Pair i) (Listeners it)"
| "launched _ _ = []"

text \<open>
  \<open>Accept\<close> answers connections while the listener is open, and an error by which the loop knows that it
  is closed once it is; other errors come and go. \<open>network\<close> and \<open>address\<close> are the parts of a
  listener's address.
\<close>

inductive accept_step ::
  "server_config \<Rightarrow> (listener \<Rightarrow> string) \<Rightarrow> (listener \<Rightarrow> string) \<Rightarrow> accepting \<Rightarrow> accept_event \<Rightarrow> accepting \<Rightarrow> bool"
  for cfg :: server_config and network :: "listener \<Rightarrow> string" and address :: "listener \<Rightarrow> string" where
  sys: "sys_step cfg (al_sys s) e t \<Longrightarrow>
    accept_step cfg network address s (Sys e)
      (s\<lparr>al_sys := t,
         al_starting := (al_starting s)(goroutine e := al_starting s (goroutine e) @
           launched (sy_pc (al_sys s) (goroutine e)) (sy_pc t (goroutine e)))\<rparr>)"
| launch: "al_starting s c = il # ils \<Longrightarrow>
    accept_step cfg network address s (Launch c)
      (s\<lparr>al_starting := (al_starting s)(c := ils), al_loops := insert il (al_loops s)\<rparr>)"
| conn: "(i, l) \<in> al_loops s \<Longrightarrow> handle l \<in> w_listeners (sy_world (al_sys s)) \<Longrightarrow>
    accept_step cfg network address s (Loop i l (Inr c))
      (s\<lparr>al_links := al_links s @ [(i, l, in_conn c, listen_message (network l) (address l) c)]\<rparr>)"
| fail: "(i, l) \<in> al_loops s \<Longrightarrow> ends_listen (Inl err) \<longleftrightarrow> handle l \<notin> w_listeners (sy_world (al_sys s)) \<Longrightarrow>
    accept_step cfg network address s (Loop i l (Inl err))
      (if ends_listen (Inl err) then s\<lparr>al_loops := al_loops s - {(i, l)}\<rparr> else s)"

inductive_cases accept_stepE: "accept_step cfg network address s e t"


section \<open>What a step does to listeners\<close>

text \<open>Listeners that nobody has started a loop for: those of a batch in the making.\<close>

fun unserved :: "phase \<Rightarrow> nat set" where
  "unserved (Opening env i ts it) = handles (Listeners it)"
| "unserved (Rolling env i err ls) = handles ls"
| "unserved _ = {}"

lemma unserved_resume [simp]: "unserved (resume aim) = {}"
  by (cases aim) simp_all

lemma unserved_batch: "unserved ph \<subseteq> handles (batch ph)"
  by (cases ph) simp_all

definition orderly :: "phase \<Rightarrow> world \<Rightarrow> phase \<Rightarrow> world \<Rightarrow> bool" where
  "orderly ph w ph' w' \<longleftrightarrow>
     unserved ph' \<subseteq> insert (w_next w) (unserved ph) \<and> w_next w \<le> w_next w' \<and>
     w_listeners w' \<subseteq> insert (w_next w) (w_listeners w) \<and>
     (\<forall>j. set (item_listeners j w') \<subseteq> set (item_listeners j w) \<union> {l. (j, l) \<in> set (launched ph ph')}) \<and>
     (\<forall>j l. (j, l) \<in> set (launched ph ph') \<longrightarrow> l \<in> set (item_listeners j w') \<and> handle l \<in> unserved ph)"

lemma launched_none [simp]: "(\<And>env i it. ph \<noteq> Opening env i [] it) \<Longrightarrow> launched ph ph' = []"
  by (cases "(ph, ph')" rule: launched.cases) auto

lemma item_listeners_reg: "w_reg w' = w_reg w \<Longrightarrow> item_listeners j w' = item_listeners j w"
  by (simp add: item_listeners_def)

text \<open>Most steps start no loop, open nothing and leave the items alone.\<close>

lemma orderly_quiet:
  assumes "\<And>env i it. ph \<noteq> Opening env i [] it" and "unserved ph' \<subseteq> unserved ph" and "w_next w' = w_next w"
    and "w_listeners w' \<subseteq> w_listeners w" and "\<And>j. set (item_listeners j w') \<subseteq> set (item_listeners j w)"
  shows "orderly ph w ph' w'"
  using assms by (auto simp: orderly_def)

lemma close_listener_next [simp]: "w_next (close_listener l w) = w_next w"
  by (cases l) simp_all

lemma open_tunnel_orderly:
  assumes "open_tunnel env name t it w = (res, it', w')"
  shows "handles (Listeners it') \<subseteq> insert (w_next w) (handles (Listeners it)) \<and> w_next w \<le> w_next w' \<and>
    w_listeners w' \<subseteq> insert (w_next w) (w_listeners w)"
  using assms
  by (cases rule: open_tunnel_cases)
    (auto simp: net_Listen_def vhost_Listen_def Let_def split: if_splits option.splits)

lemma admit_quiet:
  "admit cfg env i w = (b, w') \<Longrightarrow>
   w_next w' = w_next w \<and> w_listeners w' = w_listeners w \<and> (\<forall>j. item_listeners j w' = item_listeners j w)"
  by (auto simp: admit_def Let_def item_listeners_def Subscribe_def split: if_splits option.splits)

lemma add_conn_orderly:
  "add_conn c env i p w = (ph', p', w', lk') \<Longrightarrow> unserved ph' = {} \<and> w' = w"
  by (auto simp: add_conn_def split: sum.splits)

lemma drop_conn_orderly:
  "drop_conn c cp addr aim p w = (ph', p', w', lk') \<Longrightarrow> unserved ph' = {} \<and> w' = close_conn (cp_conn cp) w"
  by (auto simp: drop_conn_def)

lemma set_item_listeners:
  assumes "set_item it i (w_reg w) = (None, r)"
  shows "item_listeners j (w\<lparr>w_reg := r\<rparr>) = (if j = i then Listeners it else item_listeners j w)"
  using set_item_NoneD [OF assms] by (simp add: item_listeners_def)

lemma advance_quiet:
  assumes "advance cfg c ph p w lk = Some (ph', p', w', lk')" and "\<And>env i ts it. ph \<noteq> Opening env i ts it"
  shows "unserved ph' \<subseteq> unserved ph \<and> w_next w' = w_next w \<and> w_listeners w' \<subseteq> w_listeners w \<and>
    (\<forall>j. set (item_listeners j w') \<subseteq> set (item_listeners j w))"
proof (cases ph)
  case (Starting env)
  with assms show ?thesis
    by (auto split: if_splits sum.splits prod.splits bool.splits dest!: admit_quiet)
next
  case (Admitted env i)
  with assms show ?thesis
    by (auto split: if_splits option.splits dest!: add_conn_orderly drop_conn_orderly
        simp: close_conn_def item_listeners_def)
next
  case (Adding env i)
  with assms show ?thesis by (auto dest!: add_conn_orderly)
next
  case (Pooled env i)
  with assms show ?thesis by (auto split: sum.splits)
next
  case (Rolling env i err ls)
  with assms close_listener_subset show ?thesis
    by (cases ls) (auto simp: item_listeners_def)
next
  case (Failing env i err)
  with assms show ?thesis by (auto simp: item_listeners_def)
next
  case (Deleting i aim)
  with assms show ?thesis
    by (auto split: if_splits option.splits dest!: drop_conn_orderly simp: close_conn_def item_listeners_def)
next
  case (Freeing i aim)
  with assms show ?thesis
    by (auto simp: item_listeners_def clear_def split: prod.splits option.splits item_ref.splits if_splits)
next
  case (Closing ls aim)
  with assms close_listener_subset show ?thesis
    by (cases ls) (auto simp: item_listeners_def)
next
  case Rejecting
  with assms show ?thesis by (auto simp: close_conn_def item_listeners_def)
next
  case (Removing i)
  with assms show ?thesis
    by (auto simp: item_listeners_def Unsubscribe_def split: prod.splits option.splits item_ref.splits if_splits)
qed (use assms in auto)

lemma advance_orderly:
  assumes "advance cfg c ph p w lk = Some (ph', p', w', lk')"
  shows "orderly ph w ph' w'"
proof (cases "\<exists>env i ts it. ph = Opening env i ts it")
  case True
  then obtain env i ts it where ph: "ph = Opening env i ts it" by blast
  show ?thesis
  proof (cases ts)
    case Nil
    show ?thesis
    proof (cases "fst (set_item it i (w_reg w))")
      case None
      then obtain r where r: "set_item it i (w_reg w) = (None, r)" by (metis prod.collapse)
      with assms ph Nil have "ph' = Finished Connected" "w' = w\<lparr>w_reg := r\<rparr>" by auto
      with ph Nil show ?thesis
        by (auto simp: orderly_def handle_handles set_item_listeners [OF r])
    next
      case (Some err)
      then obtain r where r: "set_item it i (w_reg w) = (Some err, r)" by (metis prod.collapse)
      with set_item_error [OF r] assms ph Nil have "ph' = Rolling env i err (Listeners it)" "w' = w" by auto
      with ph Nil show ?thesis by (auto simp: orderly_def)
    qed
  next
    case (Cons e ts')
    with ph assms obtain name t where e: "e = (name, Some t)" by (cases e; cases "snd e") auto
    obtain res it1 w1 where one: "open_tunnel env name t it w = (res, it1, w1)" by (metis prod_cases3)
    from open_tunnel_orderly [OF one] item_listeners_reg [OF open_tunnel_reg [OF one]] ph Cons e one assms
    show ?thesis by (auto simp: orderly_def split: option.splits)
  qed
next
  case False
  then have "ph \<noteq> Opening env i ts it" for env i ts it by blast
  from this advance_quiet [OF assms this] show ?thesis by (intro orderly_quiet) auto
qed

lemma sys_step_orderly:
  assumes "sys_step cfg s e t"
  shows "orderly (sy_pc s (goroutine e)) (sy_world s) (sy_pc t (goroutine e)) (sy_world t)"
    and "d \<noteq> goroutine e \<Longrightarrow> sy_pc t d = sy_pc s d"
proof -
  have "orderly (sy_pc s (goroutine e)) (sy_world s) (sy_pc t (goroutine e)) (sy_world t) \<and>
    (\<forall>d. d \<noteq> goroutine e \<longrightarrow> sy_pc t d = sy_pc s d)"
    using assms
  proof cases
    case (step c l)
    obtain ph p w lk where l: "l = (ph, p, w, lk)" by (cases l)
    from advance_orderly [OF step(3) [unfolded l]] show ?thesis by (simp add: step(1,2) l put_def)
  qed (auto simp: put_def drop_conn_def close_conn_def item_listeners_def intro!: orderly_quiet split: option.split)
  then show "orderly (sy_pc s (goroutine e)) (sy_world s) (sy_pc t (goroutine e)) (sy_world t)"
    and "d \<noteq> goroutine e \<Longrightarrow> sy_pc t d = sy_pc s d"
    by blast+
qed


section \<open>Whose loop a listener has\<close>

text \<open>
  A loop of client \<open>i\<close>, started or about to be, is on a listener that was opened by a batch of \<open>i\<close>: it is
  neither in another client's item nor in a batch in the making. Every listener of an item has its loop
  or is about to get it, and no loop is started twice.
\<close>

definition loop_ok :: "nat set \<Rightarrow> system \<Rightarrow> ident \<times> listener \<Rightarrow> bool" where
  "loop_ok base s = (\<lambda>(i, l).
     handle l < w_next (sy_world s) \<and> handle l \<notin> base \<and>
     (\<forall>j. j \<noteq> i \<longrightarrow> handle l \<notin> handles (item_listeners j (sy_world s))) \<and>
     (\<forall>c. handle l \<notin> unserved (sy_pc s c)))"

definition covered :: "accepting \<Rightarrow> (ident \<times> listener) set" where
  "covered s = al_loops s \<union> (\<Union>c. set (al_starting s c))"

lemma covered_at: "covered s = al_loops s \<union> set (al_starting s c) \<union> (\<Union>d \<in> - {c}. set (al_starting s d))"
  by (auto simp: covered_def)

definition started_once :: "accepting \<Rightarrow> bool" where
  "started_once s \<longleftrightarrow>
     (\<forall>c. distinct (al_starting s c) \<and> set (al_starting s c) \<inter> al_loops s = {}) \<and>
     (\<forall>c d. c \<noteq> d \<longrightarrow> set (al_starting s c) \<inter> set (al_starting s d) = {})"

definition loops_ok :: "nat set \<Rightarrow> accepting \<Rightarrow> bool" where
  "loops_ok base s \<longleftrightarrow>
     sys_ok base (al_sys s) \<and> (\<forall>il \<in> covered s. loop_ok base (al_sys s) il) \<and>
     (\<forall>i. {i} \<times> set (item_listeners i (sy_world (al_sys s))) \<subseteq> covered s) \<and> started_once s"

definition accept_initial :: "nat set \<Rightarrow> accepting \<Rightarrow> bool" where
  "accept_initial base s \<longleftrightarrow>
     sys_initial base (al_sys s) \<and> (\<forall>i. item_listeners i (sy_world (al_sys s)) = []) \<and>
     (\<forall>c. al_starting s c = []) \<and> al_loops s = {} \<and> al_links s = []"

lemma sys_ok_item:
  assumes "sys_ok base s" and "l \<in> set (item_listeners i (sy_world s))"
  shows "loop_ok base s (i, l)" and "handle l \<in> w_listeners (sy_world s)"
proof -
  let ?held = "\<lambda>c. batch (sy_pc s c)"
  have acc: "accounted base ?held (sy_world s)" using assms(1) by (simp add: sys_ok_def)
  note ap = accountedD(1) [OF acc]
  have l: "handle l \<in> handles (slot ?held (sy_world s) (Inr i))"
    using assms(2) by (simp add: handle_handles)
  show opened: "handle l \<in> w_listeners (sy_world s)"
    unfolding accountedD(2) [OF acc] using assms(2) by (auto simp: listeners_of_def intro!: exI [of _ "Inr i"] imageI)
  have "handle l \<notin> handles (item_listeners j (sy_world s))" if "j \<noteq> i" for j
    using apartD(2) [OF ap, of "Inr i" "Inr j"] l that by auto
  moreover have "handle l \<notin> unserved (sy_pc s c)" for c
    using apartD(2) [OF ap, of "Inr i" "Inl c"] l unserved_batch [of "sy_pc s c"] by auto
  moreover have "handle l \<notin> base" using apartD(3) [OF ap] l by blast
  ultimately show "loop_ok base s (i, l)"
    using accountedD(3) [OF acc opened] by (simp add: loop_ok_def)
qed

lemma loop_ok_sys:
  assumes step: "sys_step cfg s e t" and "loop_ok base s (i, l)"
  shows "loop_ok base t (i, l)"
proof -
  let ?c = "goroutine e"
  have ord: "orderly (sy_pc s ?c) (sy_world s) (sy_pc t ?c) (sy_world t)" using sys_step_orderly [OF step] by blast
  have pcs: "sy_pc t d = sy_pc s d" if "d \<noteq> ?c" for d using sys_step_orderly(2) [OF step that] .
  from assms(2) have l: "handle l < w_next (sy_world s)" "handle l \<notin> base"
    "\<And>j. j \<noteq> i \<Longrightarrow> handle l \<notin> handles (item_listeners j (sy_world s))" "\<And>c. handle l \<notin> unserved (sy_pc s c)"
    by (auto simp: loop_ok_def)
  have "handle l \<notin> handles (item_listeners j (sy_world t))" if "j \<noteq> i" for j
  proof
    assume "handle l \<in> handles (item_listeners j (sy_world t))"
    then obtain m where m: "m \<in> set (item_listeners j (sy_world t))" "handle l = handle m" by (auto simp: handles_def)
    from m(1) ord consider "m \<in> set (item_listeners j (sy_world s))" | "(j, m) \<in> set (launched (sy_pc s ?c) (sy_pc t ?c))"
      unfolding orderly_def by blast
    then show False
    proof cases
      case 1
      with l(3) [OF that] m(2) handle_handles [OF 1] show False by simp
    next
      case 2
      with ord have "handle m \<in> unserved (sy_pc s ?c)" unfolding orderly_def by blast
      with l(4) [of ?c] m(2) show False by simp
    qed
  qed
  moreover have "handle l \<notin> unserved (sy_pc t d)" for d
    using ord l(1) l(4) [of d] pcs [of d] by (cases "d = ?c") (auto simp: orderly_def)
  moreover have "handle l < w_next (sy_world t)" using ord l(1) by (simp add: orderly_def)
  ultimately show ?thesis using l(2) by (simp add: loop_ok_def)
qed

lemma closed_stays:
  assumes "sys_step cfg s e t" and "n < w_next (sy_world s)" and "n \<notin> w_listeners (sy_world s)"
  shows "n < w_next (sy_world t) \<and> n \<notin> w_listeners (sy_world t)"
  using sys_step_orderly(1) [OF assms(1)] assms(2,3) by (auto simp: orderly_def)

lemma launched_distinct: "sys_ok base s \<Longrightarrow> distinct (launched (sy_pc s c) ph)"
proof (cases "(sy_pc s c, ph)" rule: launched.cases)
  case (1 env i it)
  assume "sys_ok base s"
  then have "apart base (slot (\<lambda>c. batch (sy_pc s c)) (sy_world s))" unfolding sys_ok_def by (rule accountedD(1))
  from apartD(1) [OF this, of "Inl c"] have "distinct (Listeners it)" using 1 by (simp add: distinct_map)
  then show ?thesis using 1 by (simp add: distinct_map inj_on_def)
qed auto

text \<open>What a handler is about to start is new: it was in a batch in the making.\<close>

lemma loops_ok_sys:
  assumes ok: "loops_ok base s" and step: "sys_step cfg (al_sys s) e u"
    and t: "t = s\<lparr>al_sys := u, al_starting := (al_starting s)(goroutine e := al_starting s (goroutine e) @
      launched (sy_pc (al_sys s) (goroutine e)) (sy_pc u (goroutine e)))\<rparr>"
  shows "loops_ok base t"
proof -
  let ?c = "goroutine e" and ?new = "launched (sy_pc (al_sys s) (goroutine e)) (sy_pc u (goroutine e))"
  have sys: "sys_ok base u" using sys_ok_step [OF step] ok by (simp add: loops_ok_def)
  have ord: "orderly (sy_pc (al_sys s) ?c) (sy_world (al_sys s)) (sy_pc u ?c) (sy_world u)"
    using sys_step_orderly [OF step] by blast
  have cov: "covered t = covered s \<union> set ?new" by (auto simp: covered_def t split: if_splits)
  have new: "(j, l) \<notin> covered s" if "(j, l) \<in> set ?new" for j l
  proof
    assume "(j, l) \<in> covered s"
    with ok have "handle l \<notin> unserved (sy_pc (al_sys s) ?c)" unfolding loops_ok_def loop_ok_def by blast
    moreover from ord that have "handle l \<in> unserved (sy_pc (al_sys s) ?c)" unfolding orderly_def by blast
    ultimately show False by contradiction
  qed
  have "loop_ok base u il" if "il \<in> covered t" for il
  proof (cases "il \<in> covered s")
    case True
    with ok loop_ok_sys [OF step, of base "fst il" "snd il"] show ?thesis by (simp add: loops_ok_def)
  next
    case False
    with that cov ord sys_ok_item(1) [OF sys, of "snd il" "fst il"] show ?thesis by (cases il) (auto simp: orderly_def)
  qed
  moreover have "(i, l) \<in> covered t" if "l \<in> set (item_listeners i (sy_world u))" for i l
  proof (cases "l \<in> set (item_listeners i (sy_world (al_sys s)))")
    case True
    with ok show ?thesis by (auto simp: loops_ok_def cov)
  next
    case False
    with that ord show ?thesis by (auto simp: orderly_def cov)
  qed
  moreover have "started_once t"
  proof -
    have "set ?new \<inter> al_loops s = {}" "set ?new \<inter> set (al_starting s d) = {}" for d
      using new by (auto simp: covered_def)
    moreover have "started_once s" using ok by (simp add: loops_ok_def)
    moreover have "distinct ?new" using ok launched_distinct [of base "al_sys s"] by (simp add: loops_ok_def)
    ultimately show ?thesis by (simp add: started_once_def t Int_Un_distrib Int_Un_distrib2 Int_commute)
  qed
  ultimately show ?thesis using sys by (auto simp: loops_ok_def t)
qed

lemma started_once_launch:
  assumes "started_once s" and "al_starting s c = il # ils"
  shows "started_once (s\<lparr>al_starting := (al_starting s)(c := ils), al_loops := insert il (al_loops s)\<rparr>)"
proof -
  from assms(1) have own: "distinct (al_starting s d)" "set (al_starting s d) \<inter> al_loops s = {}" for d
    by (simp_all add: started_once_def)
  from assms(1) have apart: "set (al_starting s d) \<inter> set (al_starting s d') = {}" if "d \<noteq> d'" for d d'
    using that by (simp add: started_once_def)
  have "il \<notin> set ils" "distinct ils" "set ils \<inter> al_loops s = {}" using own [of c] assms(2) by auto
  moreover have "il \<notin> set (al_starting s d)" "set ils \<inter> set (al_starting s d) = {}" if "d \<noteq> c" for d
    using apart [OF that] assms(2) by auto
  ultimately show ?thesis using own apart by (simp add: started_once_def Int_commute)
qed

lemma loops_ok_step:
  assumes "loops_ok base s" and "accept_step cfg network address s e t"
  shows "loops_ok base t"
  using assms(2)
proof cases
  case (sys e' u)
  from loops_ok_sys [OF assms(1) sys(3,2)] show ?thesis .
next
  case (launch c il ils)
  have "covered t = covered s" using launch by (auto simp: covered_at [of _ c])
  moreover have "started_once t"
    using assms(1) launch started_once_launch [of s c il ils] by (simp add: loops_ok_def)
  ultimately show ?thesis using assms(1) launch by (simp add: loops_ok_def)
next
  case (conn i l c)
  with assms(1) show ?thesis by (simp add: loops_ok_def covered_def started_once_def)
next
  case (fail i l err)
  show ?thesis
  proof (cases "ends_listen (Inl err)")
    case True
    with fail have closed: "handle l \<notin> w_listeners (sy_world (al_sys s))" by simp
    have "(i, l) \<notin> set (al_starting s c)" for c
      using assms(1) fail(3) by (auto simp: loops_ok_def started_once_def)
    then have "covered t = covered s - {(i, l)}" using True fail by (auto simp: covered_def)
    moreover have "l \<notin> set (item_listeners i (sy_world (al_sys s)))"
      using assms(1) closed sys_ok_item(2) [of base "al_sys s" l i] by (auto simp: loops_ok_def)
    moreover have "started_once t" using assms(1) True fail by (auto simp: loops_ok_def started_once_def)
    ultimately show ?thesis using assms(1) True fail by (auto simp: loops_ok_def)
  qed (use assms(1) fail in simp)
qed

interpretation accepted: invariant_machine "accept_initial base" "accept_step cfg network address" "loops_ok base"
proof (rule invariant_machine.intro)
  show "loops_ok base s" if "accept_initial base s" for s
    using that serving.inv_initial [of base "al_sys s"]
    by (simp add: accept_initial_def loops_ok_def covered_def started_once_def)
  show "loops_ok base t" if "loops_ok base s" "accept_step cfg network address s e t" for s e t
    using that by (rule loops_ok_step)
qed


text \<open>The handler can start all its loops, whatever the others do.\<close>

lemma launch_all:
  "\<exists>u. run (accept_step cfg network address) s (replicate (length (al_starting s c)) (Launch c)) u \<and>
     set (al_starting s c) \<union> al_loops s \<subseteq> al_loops u \<and> al_sys u = al_sys s \<and> al_links u = al_links s"
proof (induction "al_starting s c" arbitrary: s)
  case Nil
  then show ?case by (auto intro: run_Nil)
next
  case (Cons il ils)
  let ?t = "s\<lparr>al_starting := (al_starting s)(c := ils), al_loops := insert il (al_loops s)\<rparr>"
  have step: "accept_step cfg network address s (Launch c) ?t"
    using Cons.hyps(2) by (intro accept_step.launch) simp
  from Cons.hyps(1) [of ?t] obtain u where
    u: "run (accept_step cfg network address) ?t (replicate (length ils) (Launch c)) u"
      "set ils \<union> insert il (al_loops s) \<subseteq> al_loops u" "al_sys u = al_sys s" "al_links u = al_links s" by auto
  from run_Cons [of "accept_step cfg network address", OF step u(1)] u(2-4) show ?case
    unfolding Cons.hyps(2) [symmetric] by auto
qed

lemma loop_started:
  assumes "loops_ok base s" and "l \<in> set (item_listeners i (sy_world (al_sys s)))"
  shows "\<exists>n c u. run (accept_step cfg network address) s (replicate n (Launch c)) u \<and> (i, l) \<in> al_loops u \<and>
    al_sys u = al_sys s \<and> al_links u = al_links s"
proof -
  from assms have "(i, l) \<in> covered s" by (auto simp: loops_ok_def)
  then consider (started) "(i, l) \<in> al_loops s" | (due) c where "(i, l) \<in> set (al_starting s c)"
    by (auto simp: covered_def)
  then show ?thesis
  proof cases
    case started
    then show ?thesis by (intro exI [of _ 0] exI [of _ s]) simp
  next
    case due
    with launch_all [of cfg network address s c] show ?thesis by blast
  qed
qed

text \<open>
  C10. A connection that a listener of the public accepts belongs to one client. In every interleaving of
  handlers, dead connections, calls of \<open>Unsubscribe\<close> and accept loops: a loop that was started for client
  \<open>i\<close> and whose listener is still open is on a listener of \<open>i\<close>'s item or on one that some goroutine has
  just taken out of the registry; it is never on the control or SNI listener, on a listener of another client, or on
  one of a batch that is not stored yet. And every listener of an item is served by the loop of its
  client, or the handler that has stored the item is just about to start that loop, which is not held
  up by anything else.
\<close>

theorem accepted_for_owner:
  assumes "accept_initial base s" and "run (accept_step cfg network address) s es t"
  shows "((i, l) \<in> al_loops t \<and> handle l \<in> w_listeners (sy_world (al_sys t)) \<longrightarrow>
      handle l \<notin> base \<and>
      (handle l \<in> handles (item_listeners i (sy_world (al_sys t))) \<or>
       (\<exists>c ls. handle l \<in> handles ls \<and> (sy_pc (al_sys t) c = Done ls \<or> (\<exists>aim. sy_pc (al_sys t) c = Closing ls aim)))) \<and>
      (\<forall>j. j \<noteq> i \<longrightarrow> handle l \<notin> handles (item_listeners j (sy_world (al_sys t))))) \<and>
    (l \<in> set (item_listeners i (sy_world (al_sys t))) \<longrightarrow>
       (i, l) \<in> al_loops t \<or>
       (\<exists>c u. (i, l) \<in> set (al_starting t c) \<and> (i, l) \<in> al_loops u \<and>
          run (accept_step cfg network address) t (replicate (length (al_starting t c)) (Launch c)) u))"
proof (intro conjI impI)
  let ?w = "sy_world (al_sys t)" and ?held = "\<lambda>c. batch (sy_pc (al_sys t) c)"
  have ok: "loops_ok base t" by (rule accepted.inv_reachable [OF assms])
  show "(i, l) \<in> al_loops t \<or> (\<exists>c u. (i, l) \<in> set (al_starting t c) \<and> (i, l) \<in> al_loops u \<and>
      run (accept_step cfg network address) t (replicate (length (al_starting t c)) (Launch c)) u)"
    if "l \<in> set (item_listeners i ?w)"
  proof -
    from ok that have "(i, l) \<in> covered t" by (auto simp: loops_ok_def)
    then consider (started) "(i, l) \<in> al_loops t" | (due) c where "(i, l) \<in> set (al_starting t c)"
      by (auto simp: covered_def)
    then show ?thesis
    proof cases
      case due
      from launch_all [of cfg network address t c] obtain u where
        "run (accept_step cfg network address) t (replicate (length (al_starting t c)) (Launch c)) u"
        "set (al_starting t c) \<subseteq> al_loops u" by blast
      with due show ?thesis by (intro disjI2 exI [of _ c] exI [of _ u]) auto
    qed simp
  qed
  assume loop: "(i, l) \<in> al_loops t \<and> handle l \<in> w_listeners ?w"
  then have "(i, l) \<in> covered t" by (simp add: covered_def)
  with ok have l: "handle l \<notin> base" "\<And>j. j \<noteq> i \<Longrightarrow> handle l \<notin> handles (item_listeners j ?w)"
    "\<And>c. handle l \<notin> unserved (sy_pc (al_sys t) c)"
    by (auto simp: loops_ok_def loop_ok_def)
  show "handle l \<notin> base" by fact
  show "\<forall>j. j \<noteq> i \<longrightarrow> handle l \<notin> handles (item_listeners j ?w)" using l(2) by blast
  have acc: "accounted base ?held ?w" using ok by (simp add: loops_ok_def sys_ok_def)
  with loop l(1) obtain x where x: "handle l \<in> handles (slot ?held ?w x)"
    unfolding accountedD(2) [OF acc] by (auto simp: listeners_of_def handles_def)
  show "handle l \<in> handles (item_listeners i ?w) \<or>
      (\<exists>c ls. handle l \<in> handles ls \<and> (sy_pc (al_sys t) c = Done ls \<or> (\<exists>aim. sy_pc (al_sys t) c = Closing ls aim)))"
  proof (cases x)
    case (Inl c)
    with x l(3) [of c] show ?thesis by (cases "sy_pc (al_sys t) c") auto
  next
    case (Inr j)
    with x l(2) [of j] show ?thesis by auto
  qed
qed


section \<open>The loop is \<open>listen\<close>\<close>

text \<open>What \<open>Accept\<close> answered to a loop, and what the loop has handed to \<open>proxyConn\<close>.\<close>

definition answers :: "ident \<Rightarrow> listener \<Rightarrow> accept_event list \<Rightarrow> (go_error + incoming) list" where
  "answers i l es = concat (map (\<lambda>e. case e of Loop j m r \<Rightarrow> if j = i \<and> m = l then [r] else [] | _ \<Rightarrow> []) es)"

definition links :: "ident \<Rightarrow> listener \<Rightarrow> accepting \<Rightarrow> (nat \<times> control_message) list" where
  "links i l s = concat (map (\<lambda>(j, m, x). if j = i \<and> m = l then [x] else []) (al_links s))"

lemma answers_simps [simp]:
  "answers i l [] = []"
  "answers i l (Sys e # es) = answers i l es"
  "answers i l (Launch c # es) = answers i l es"
  "answers i l (Loop j m r # es) = (if j = i \<and> m = l then r # answers i l es else answers i l es)"
  by (simp_all add: answers_def)

definition loop_over :: "ident \<Rightarrow> listener \<Rightarrow> accepting \<Rightarrow> bool" where
  "loop_over i l s \<longleftrightarrow> (i, l) \<notin> covered s \<and> handle l < w_next (sy_world (al_sys s)) \<and>
     handle l \<notin> w_listeners (sy_world (al_sys s))"

lemma loop_over_step:
  assumes "loops_ok base s" and "accept_step cfg network address s e t" and "loop_over i l s"
  shows "loop_over i l t \<and> answers i l [e] = [] \<and> links i l t = links i l s"
  using assms(2)
proof cases
  case (sys e' u)
  from closed_stays [OF sys(3)] assms(3)
  have closed: "handle l < w_next (sy_world u) \<and> handle l \<notin> w_listeners (sy_world u)" by (simp add: loop_over_def)
  have "sys_ok base u" using sys_ok_step [OF sys(3)] assms(1) by (simp add: loops_ok_def)
  with sys_ok_item(2) [of base u l i] closed have "l \<notin> set (item_listeners i (sy_world u))" by blast
  with sys_step_orderly(1) [OF sys(3)] have "(i, l) \<notin> set (launched (sy_pc (al_sys s) (goroutine e')) (sy_pc u (goroutine e')))"
    by (auto simp: orderly_def)
  with closed assms(3) show ?thesis by (auto simp: sys loop_over_def links_def covered_def split: if_splits)
next
  case (launch c il ils)
  with assms(3) show ?thesis by (auto simp: loop_over_def links_def covered_at [of _ c])
qed (use assms(3) in \<open>auto simp: loop_over_def links_def covered_def\<close>)

lemma loop_over_run:
  "run (accept_step cfg network address) s es t \<Longrightarrow> loops_ok base s \<Longrightarrow> loop_over i l s \<Longrightarrow>
   loop_over i l t \<and> answers i l es = [] \<and> links i l t = links i l s"
proof (induction rule: run.induct)
  case (run_Cons s e t es u)
  from loop_over_step [OF run_Cons.prems(1) run_Cons.hyps(1) run_Cons.prems(2)]
    run_Cons.IH loops_ok_step [OF run_Cons.prems(1) run_Cons.hyps(1)]
  show ?case by (cases e) (auto split: if_splits)
qed simp

lemma listen_run:
  "run (accept_step cfg network address) s es t \<Longrightarrow> loops_ok base s \<Longrightarrow>
   links i l t = links i l s @ fst (listen (network l) (address l) (answers i l es)) \<and>
   (snd (listen (network l) (address l) (answers i l es)) \<longrightarrow> loop_over i l t)"
proof (induction rule: run.induct)
  case (run_Nil s)
  then show ?case by simp
next
  case (run_Cons s e t es u)
  note ok = loops_ok_step [OF run_Cons.prems run_Cons.hyps(1)]
  note IH = run_Cons.IH [OF ok]
  from run_Cons.hyps(1) show ?case
  proof cases
    case (sys e' v)
    with IH show ?thesis by (simp add: links_def)
  next
    case (launch c il ils)
    with IH show ?thesis by (simp add: links_def)
  next
    case (conn j m c)
    with IH show ?thesis by (auto simp: links_def split: prod.split)
  next
    case (fail j m err)
    show ?thesis
    proof (cases "(j, m) = (i, l) \<and> ends_listen (Inl err)")
      case True
      have "(i, l) \<notin> set (al_starting s c)" for c
        using run_Cons.prems fail(3) True by (auto simp: loops_ok_def started_once_def)
      moreover have "(i, l) \<in> covered s" using fail(3) True by (simp add: covered_def)
      ultimately have "loop_over i l t"
        using True fail run_Cons.prems by (auto simp: loop_over_def loops_ok_def loop_ok_def covered_def)
      from loop_over_run [OF run_Cons.hyps(2) ok this] True fail show ?thesis
        by (simp add: links_def ends_listen_def)
    next
      case False
      with fail IH show ?thesis by (auto simp: links_def ends_listen_def split: if_splits)
    qed
  qed
qed

text \<open>
  C19. The accept loop of a listener in the interleaved server does what \<open>listen\<close> computes from the
  answers of \<open>Accept\<close> alone: it hands over the same connections with the same messages, whatever else runs,
  and once \<open>listen\<close> returns the loop is gone, its listener is closed, and neither comes back.
\<close>

theorem listen_refined:
  assumes "accept_initial base s" and "run (accept_step cfg network address) s es t"
    and "listen (network l) (address l) (answers i l es) = (cs, over)"
  shows "links i l t = cs \<and> (over \<longrightarrow> (i, l) \<notin> al_loops t \<and> handle l \<notin> w_listeners (sy_world (al_sys t)))"
  using listen_run [OF assms(2) accepted.inv_initial [OF assms(1)], of i l] assms(1,3)
  by (simp add: accept_initial_def links_def loop_over_def covered_def)



section \<open>Examples\<close>

definition demo_shell :: "(string \<times> tunnel option) list" where
  "demo_shell = [(''ssh'', Some demo_tcp)]"

definition demo_accepting :: accepting where
  "demo_accepting = \<lparr>al_sys = demo_system, al_starting = (\<lambda>c. []), al_loops = {}, al_links = []\<rparr>"

definition demo_visitor :: incoming where
  "demo_visitor = \<lparr>in_conn = 9, in_vhost = None, in_keepAlive = None\<rparr>"

lemma demo_accepting_initial: "accept_initial {0} demo_accepting"
  using demo_initial
  by (simp add: accept_initial_def demo_accepting_def)
     (simp add: demo_system_def demo_server_def item_listeners_def newRegistry_def)

lemma lift_run:
  "run (sys_step cfg) (al_sys s) es t \<Longrightarrow>
   \<exists>u. run (accept_step cfg network address) s (map Sys es) u \<and> al_sys u = t \<and> al_links u = al_links s"
proof (induction "al_sys s" es t arbitrary: s rule: run.induct)
  case run_Nil
  then show ?case by (auto intro: run.run_Nil)
next
  case (run_Cons e t es u)
  let ?s = "s\<lparr>al_sys := t, al_starting := (al_starting s)(goroutine e := al_starting s (goroutine e) @
    launched (sy_pc (al_sys s) (goroutine e)) (sy_pc t (goroutine e)))\<rparr>"
  from accept_step.sys [OF run_Cons.hyps(1)] have "accept_step cfg network address s (Sys e) ?s" .
  moreover from run_Cons.hyps(3) [of ?s] obtain u' where
    "run (accept_step cfg network address) ?s (map Sys es) u'" "al_sys u' = u" "al_links u' = al_links s" by auto
  ultimately show ?case by (auto intro: run.run_Cons)
qed

lemma demo_shell_connected:
  "\<exists>p w. handleClient (demo_cfg True) (demo_env demo_shell) 7 (fst demo_server, snd demo_server) = (Connected, p, w) \<and>
     item_listeners zero_ident w = [NetListener 1] \<and> w_listeners w = {0, 1} \<and>
     session_conn zero_ident p = Some \<lparr>cp_conn = 7, clientConn = 7\<rparr>"
proof -
  have "addTunnels (demo_env demo_shell) demo_shell zero_ident ((snd demo_server)\<lparr>w_reg := Subscribe zero_ident newRegistry\<rparr>) =
    (Batch_ok, (snd demo_server)\<lparr>w_reg := snd (set_item \<lparr>Hosts = [], Listeners = [NetListener 1]\<rparr> zero_ident
       (Subscribe zero_ident newRegistry)), w_listeners := {0, 1}, w_next := 2\<rparr>)"
    by (simp add: addTunnels_def demo_shell_def demo_tcp_def open_tunnel_def protocol_names net_Listen_def demo_env_def
        add_listener_def set_item_def Subscribe_def newRegistry_def demo_server_def insert_commute)
  then show ?thesis
    using demo_handleClient [of demo_shell]
    by (simp add: demo_shell_def Let_def set_item_def item_listeners_def Subscribe_def newRegistry_def session_conn_def)
qed

lemma demo_accepting_run:
  "\<exists>es n c t. run (accept_step (demo_cfg True) network address) demo_accepting (map Sys es @ replicate n (Launch c)) t \<and>
     (zero_ident, NetListener 1) \<in> al_loops t \<and> sy_lock (al_sys t) = None \<and>
     item_listeners zero_ident (sy_world (al_sys t)) = [NetListener 1] \<and> w_listeners (sy_world (al_sys t)) = {0, 1} \<and>
     session_conn zero_ident (sy_pool (al_sys t)) = Some \<lparr>cp_conn = 7, clientConn = 7\<rparr> \<and> al_links t = []"
proof -
  let ?cfg = "demo_cfg True" and ?env = "demo_env demo_shell"
  obtain p w where h: "handleClient ?cfg ?env 7 (fst demo_server, snd demo_server) = (Connected, p, w)"
    and w: "item_listeners zero_ident w = [NetListener 1]" "w_listeners w = {0, 1}"
      "session_conn zero_ident p = Some \<lparr>cp_conn = 7, clientConn = 7\<rparr>"
    using demo_shell_connected by blast
  let ?s1 = "put demo_system 7 (Starting ?env, fst demo_server, snd demo_server, None)"
  have "sys_step ?cfg demo_system (Accepted 7 ?env) ?s1"
    using sys_step.accepted [of demo_system 7 ?cfg ?env] by (simp add: demo_system_def demo_server_def)
  moreover have "free (fst demo_server) = Some disconnected" by (simp add: demo_server_def newConnPool_def)
  from handleClient_solo [OF this h] obtain n where
    "run (sys_step ?cfg) ?s1 (replicate n (Step 7)) (put demo_system 7 (Finished Connected, p, w, None))"
    by (auto simp: solo_def)
  ultimately have "run (sys_step ?cfg) (al_sys demo_accepting) (Accepted 7 ?env # replicate n (Step 7))
      (put demo_system 7 (Finished Connected, p, w, None))"
    by (simp add: demo_accepting_def) (rule run_Cons)
  from lift_run [OF this] obtain u where u:
    "run (accept_step ?cfg network address) demo_accepting (map Sys (Accepted 7 ?env # replicate n (Step 7))) u"
    "al_sys u = put demo_system 7 (Finished Connected, p, w, None)" "al_links u = al_links demo_accepting" by blast
  have "loops_ok {0} u" using accepted.inv_reachable [OF demo_accepting_initial u(1)] .
  moreover have "NetListener 1 \<in> set (item_listeners zero_ident (sy_world (al_sys u)))" using u(2) w(1) by (simp add: put_def)
  ultimately obtain k c v where v: "run (accept_step ?cfg network address) u (replicate k (Launch c)) v"
    "(zero_ident, NetListener 1) \<in> al_loops v" "al_sys v = al_sys u" "al_links v = al_links u"
    using loop_started by blast
  from run_append [OF u(1) v(1)] v u w show ?thesis
    by (intro exI [of _ v] exI [of _ "Accepted 7 ?env # replicate n (Step 7)"] exI [of _ k] exI [of _ c])
      (simp add: put_def demo_accepting_def)
qed

lemma accepted_for_owner_witness:
  "\<exists>es t. run (accept_step (demo_cfg True) (\<lambda>l. ''tcp'') (\<lambda>l. ''[::]:1'')) demo_accepting es t \<and>
     (zero_ident, NetListener 1) \<in> al_loops t \<and> al_links t = [] \<and>
     handle (NetListener 1) \<notin> {0} \<and> handle (NetListener 1) \<in> handles (item_listeners zero_ident (sy_world (al_sys t)))"
proof -
  obtain es n c t where
    run: "run (accept_step (demo_cfg True) (\<lambda>l. ''tcp'') (\<lambda>l. ''[::]:1'')) demo_accepting (map Sys es @ replicate n (Launch c)) t"
    and t: "(zero_ident, NetListener 1) \<in> al_loops t" "al_links t = []"
      "item_listeners zero_ident (sy_world (al_sys t)) = [NetListener 1]" "w_listeners (sy_world (al_sys t)) = {0, 1}"
    using demo_accepting_run by blast
  from accepted_for_owner [OF demo_accepting_initial run, of zero_ident "NetListener 1"] t run show ?thesis
    by (intro exI conjI) (auto simp: handles_def)
qed

lemma answers_quiet: "answers i l (map Sys es @ replicate n (Launch c) @ fs) = answers i l fs"
proof -
  have "answers i l (replicate n (Launch c) @ fs) = answers i l fs" by (induction n) simp_all
  then show ?thesis by (induction es) simp_all
qed

lemma listen_refined_witness:
  "\<exists>es t. run (accept_step (demo_cfg True) (\<lambda>l. ''tcp'') (\<lambda>l. ''[::]:1'')) demo_accepting es t \<and>
     links zero_ident (NetListener 1) t = [(9, listen_message ''tcp'' ''[::]:1'' demo_visitor)]"
proof -
  let ?step = "accept_step (demo_cfg True) (\<lambda>l. ''tcp'') (\<lambda>l. ''[::]:1'')"
  let ?e = "Loop zero_ident (NetListener 1) (Inr demo_visitor)"
  obtain es n c t where run: "run ?step demo_accepting (map Sys es @ replicate n (Launch c)) t"
    and t: "(zero_ident, NetListener 1) \<in> al_loops t" "w_listeners (sy_world (al_sys t)) = {0, 1}"
    using demo_accepting_run by blast
  from accept_step.conn [OF t(1), where c = demo_visitor] t(2) obtain u where "run ?step t [?e] u"
    by (fastforce simp: run_Cons_iff)
  from run_append [OF run this] have run2: "run ?step demo_accepting (map Sys es @ replicate n (Launch c) @ [?e]) u" by simp
  have "listen ''tcp'' ''[::]:1'' (answers zero_ident (NetListener 1) (map Sys es @ replicate n (Launch c) @ [?e])) =
      ([(9, listen_message ''tcp'' ''[::]:1'' demo_visitor)], False)"
    by (simp add: answers_quiet demo_visitor_def)
  from listen_refined [OF demo_accepting_initial run2 this] run2 show ?thesis by blast
qed

end
