(* ===== verification/Server_Peers.thy ===== *)
theory Server_Peers
  imports Server_Solo Server_Http
begin

text \<open>
  Who is behind a route, in the interleaved server: connections in the pool and hosts in the registry go
  back to connections whose peers have proved their identity. The events of a run are recorded, so that
  the statements can speak of the past.
\<close>

section \<open>Claims and their proof\<close>

text \<open>Among the events is a connection of client \<open>i\<close>, with the certificate that \<open>i\<close> is the hash of.\<close>

definition peer :: "conn_env \<Rightarrow> go_error + ident" where
  "peer env = PeerID (ce_sha256 env) (ce_Handshake env) (ce_PeerCertificates env)"

definition proved :: "event set \<Rightarrow> nat \<Rightarrow> conn_env \<Rightarrow> ident \<Rightarrow> bool" where
  "proved E c env i \<longleftrightarrow> Accepted c env \<in> E \<and> ce_IsTLS env \<and> peer env = Inr i"

text \<open>The client asked for the host in a handshake over a connection of its own.\<close>

definition asked :: "event set \<Rightarrow> ident \<Rightarrow> host_auth \<Rightarrow> bool" where
  "asked E i h \<longleftrightarrow> (\<exists>c env ts. proved E c env i \<and> handshake env i = Inr ts \<and> h \<in> set (tunnel_hosts ts))"

lemma proved_mono: "proved E c env i \<Longrightarrow> E \<subseteq> F \<Longrightarrow> proved F c env i"
  by (auto simp: proved_def)

lemma asked_mono: "asked E i h \<Longrightarrow> E \<subseteq> F \<Longrightarrow> asked F i h"
  unfolding asked_def by (blast intro: proved_mono)


section \<open>The invariant\<close>

fun aim_proved :: "event set \<Rightarrow> nat \<Rightarrow> aim \<Rightarrow> bool" where
  "aim_proved E c (To_add env i) = proved E c env i"
| "aim_proved E c _ = True"

fun phase_proved :: "event set \<Rightarrow> nat \<Rightarrow> phase \<Rightarrow> bool" where
  "phase_proved E c (Starting env) = (Accepted c env \<in> E)"
| "phase_proved E c (Admitted env i) = proved E c env i"
| "phase_proved E c (Adding env i) = proved E c env i"
| "phase_proved E c (Pooled env i) = proved E c env i"
| "phase_proved E c (Opening env i ts it) \<longleftrightarrow>
     (\<forall>h \<in> set (tunnel_hosts ts) \<union> set (Hosts it). asked E i h)"
| "phase_proved E c (Deleting i aim) = aim_proved E c aim"
| "phase_proved E c (Freeing i aim) = aim_proved E c aim"
| "phase_proved E c (Closing ls aim) = aim_proved E c aim"
| "phase_proved E c _ = True"

definition pool_proved :: "event set \<Rightarrow> pool \<Rightarrow> bool" where
  "pool_proved E p \<longleftrightarrow> (\<forall>i cp. conns p (pool_addr i) = Some cp \<longrightarrow> (\<exists>env. proved E (cp_conn cp) env i))"

definition hosts_proved :: "event set \<Rightarrow> listener registry \<Rightarrow> bool" where
  "hosts_proved E r \<longleftrightarrow> (\<forall>k hi. hosts r k = Some hi \<longrightarrow>
     good_auth (hi_auth hi) \<and>
     (\<exists>h. asked E (hi_identifier hi) h \<and> trimPort (ha_Host h) = k \<and> ha_Auth h = hi_auth hi))"

lemma phase_proved_resume [simp]: "phase_proved E c (resume aim) = aim_proved E c aim"
  by (cases aim) simp_all

lemma aim_proved_mono: "aim_proved E c aim \<Longrightarrow> E \<subseteq> F \<Longrightarrow> aim_proved F c aim"
  by (cases aim) (auto intro: proved_mono)

lemma phase_proved_mono: "phase_proved E c ph \<Longrightarrow> E \<subseteq> F \<Longrightarrow> phase_proved F c ph"
  by (cases ph) (auto intro: proved_mono aim_proved_mono asked_mono)

lemma pool_proved_mono: "pool_proved E p \<Longrightarrow> E \<subseteq> F \<Longrightarrow> pool_proved F p"
  unfolding pool_proved_def by (blast intro: proved_mono)

lemma hosts_proved_mono: "hosts_proved E r \<Longrightarrow> E \<subseteq> F \<Longrightarrow> hosts_proved F r"
  unfolding hosts_proved_def by (blast intro: asked_mono)


section \<open>Steps keep it\<close>

lemma hosts_proved_shrink: "hosts_proved E r \<Longrightarrow> hosts r' \<subseteq>\<^sub>m hosts r \<Longrightarrow> hosts_proved E r'"
  unfolding hosts_proved_def map_le_def by (metis domI)

lemma fold_remove_le: "fold (\<lambda>h m. m(f h := None)) hs m \<subseteq>\<^sub>m m"
proof (induction hs arbitrary: m)
  case (Cons h hs)
  have "m(f h := None) \<subseteq>\<^sub>m m" by (simp add: map_le_def)
  from map_le_trans [OF Cons [of "m(f h := None)"] this] show ?case by (simp only: fold_simps)
qed simp

lemma removed_hosts_le:
  "hosts (snd (clear i r)) \<subseteq>\<^sub>m hosts r" "hosts (snd (Unsubscribe i r)) \<subseteq>\<^sub>m hosts r"
  by (simp_all add: clear_def Unsubscribe_def fold_remove_le split: option.split item_ref.split)

lemma set_item_hosts_proved:
  assumes "hosts_proved E r" and "set_item it i r = (res, r')" and "\<forall>h \<in> set (Hosts it). asked E i h"
  shows "hosts_proved E r'"
proof (cases res)
  case (Some e)
  with assms(1) set_item_error assms(2) show ?thesis by blast
next
  case None
  note stored = set_item_NoneD(3) [OF assms(2) [unfolded None]]
  have good: "\<forall>h \<in> set (Hosts it). good_auth (ha_Auth h)"
    using set_item_NoneD(2) [OF assms(2) [unfolded None]] by (simp add: check_hosts_None_iff)
  show ?thesis
    unfolding hosts_proved_def
  proof (intro allI impI)
    fix k hi assume hi: "hosts r' k = Some hi"
    show "good_auth (hi_auth hi) \<and>
      (\<exists>h. asked E (hi_identifier hi) h \<and> trimPort (ha_Host h) = k \<and> ha_Auth h = hi_auth hi)"
    proof (cases "k \<in> host_keys (Hosts it)")
      case True
      from assign_hosts_some [OF this, of i "hosts r"] obtain h where "h \<in> set (Hosts it)" "trimPort (ha_Host h) = k"
        "hi = \<lparr>hi_identifier = i, hi_auth = ha_Auth h\<rparr>" using hi stored by auto
      with assms(3) good show ?thesis by auto
    next
      case False
      with hi stored assms(1) show ?thesis by (simp add: hosts_proved_def assign_hosts_other)
    qed
  qed
qed

lemma admit_hosts: "admit cfg env i w = (b, w') \<Longrightarrow> hosts (w_reg w') = hosts (w_reg w)"
  by (auto simp: admit_def Let_def Subscribe_def split: if_splits option.splits)

lemma hosts_proved_same: "hosts_proved E r \<Longrightarrow> hosts r' = hosts r \<Longrightarrow> hosts_proved E r'"
  by (simp add: hosts_proved_def)

lemma tunnel_hosts_Cons:
  "set (tunnel_hosts (e # ts)) = set (tunnel_hosts [e]) \<union> set (tunnel_hosts ts)"
  by (simp add: tunnel_hosts_def)

lemma open_tunnel_hosts:
  assumes "open_tunnel env name t it w = (res, it', w')"
  shows "set (Hosts it') \<subseteq> set (Hosts it) \<union> set (tunnel_hosts [(name, Some t)])"
  using assms by (cases rule: open_tunnel_cases) (auto simp: tunnel_hosts_def)

lemma add_conn_proved:
  assumes "add_conn c env i p w = (ph', p', w', lk')" and "proved E c env i" and "pool_proved E p"
  shows "phase_proved E c ph' \<and> pool_proved E p' \<and> w' = w"
  using assms by (auto simp: add_conn_def pool_proved_def split: sum.splits if_splits) blast

lemma drop_conn_proved:
  assumes "drop_conn c cp addr aim p w = (ph', p', w', lk')" and "aim_proved E c aim" and "pool_proved E p"
  shows "phase_proved E c ph' \<and> pool_proved E p' \<and> w_reg w' = w_reg w"
  using assms by (auto simp: drop_conn_def pool_proved_def close_conn_def split: if_splits)


lemma advance_proved:
  assumes "advance cfg c ph p w lk = Some (ph', p', w', lk')"
    and "phase_proved E c ph" and "pool_proved E p" and "hosts_proved E (w_reg w)"
  shows "phase_proved E c ph' \<and> pool_proved E p' \<and> hosts_proved E (w_reg w')"
proof (cases ph)
  case (Starting env)
  with assms show ?thesis
    by (auto simp: proved_def peer_def split: if_splits sum.splits prod.splits bool.splits
        dest!: admit_hosts intro: hosts_proved_same)
next
  case (Admitted env i)
  with assms show ?thesis
    by (auto split: if_splits option.splits dest: add_conn_proved drop_conn_proved)
next
  case (Adding env i)
  with assms show ?thesis by (auto dest: add_conn_proved)
next
  case (Pooled env i)
  with assms show ?thesis by (auto simp: asked_def split: sum.splits) blast
next
  case (Opening env i ts it)
  show ?thesis
  proof (cases ts)
    case Nil
    obtain res r where "set_item it i (w_reg w) = (res, r)" by fastforce
    with set_item_hosts_proved [OF assms(4) this] Opening Nil assms show ?thesis
      by (auto split: option.splits)
  next
    case (Cons e ts')
    with Opening assms obtain name t where e: "e = (name, Some t)" by (cases e; cases "snd e") auto
    obtain res it1 w1 where one: "open_tunnel env name t it w = (res, it1, w1)" by (metis prod_cases3)
    have "\<forall>h \<in> set (tunnel_hosts ts') \<union> set (Hosts it1). asked E i h"
      using assms(2) open_tunnel_hosts [OF one] unfolding Opening Cons e phase_proved.simps
        tunnel_hosts_Cons [of "(name, Some t)" ts'] by blast
    with open_tunnel_reg [OF one] Opening Cons e one assms show ?thesis by (auto split: option.splits)
  qed
next
  case (Rolling env i err ls)
  with assms show ?thesis by (cases ls) auto
next
  case (Deleting i aim)
  with assms show ?thesis by (auto split: if_splits option.splits dest: drop_conn_proved)
next
  case (Freeing i aim)
  with assms hosts_proved_shrink [OF assms(4) removed_hosts_le(1) [of i]] show ?thesis by (auto split: prod.splits)
next
  case (Closing ls aim)
  with assms show ?thesis by (cases ls) auto
next
  case (Removing i)
  with assms hosts_proved_shrink [OF assms(4) removed_hosts_le(2) [of i]] show ?thesis by (auto split: prod.splits)
qed (use assms in auto)


definition system_proved :: "event set \<Rightarrow> system \<Rightarrow> bool" where
  "system_proved E s \<longleftrightarrow> (\<forall>c. phase_proved E c (sy_pc s c)) \<and> pool_proved E (sy_pool s) \<and> hosts_proved E (w_reg (sy_world s))"

lemma system_proved_put:
  assumes "system_proved E s" and "E \<subseteq> F" and "phase_proved F c ph" and "pool_proved F p" and "hosts_proved F (w_reg w)"
  shows "system_proved F (put s c (ph, p, w, lk))"
  using assms phase_proved_mono [OF _ assms(2)] by (auto simp: system_proved_def put_def)

lemma system_proved_step:
  assumes "system_proved E s" and "sys_step cfg s e t"
  shows "system_proved (insert e E) t"
proof -
  let ?F = "insert e E"
  have sub: "E \<subseteq> ?F" by blast
  have now: "pool_proved ?F (sy_pool s)" "hosts_proved ?F (w_reg (sy_world s))" "phase_proved ?F c (sy_pc s c)" for c
    using assms(1) pool_proved_mono [OF _ sub] hosts_proved_mono [OF _ sub] phase_proved_mono [OF _ sub]
    by (auto simp: system_proved_def)
  from assms(2) show ?thesis
  proof cases
    case (accepted c env)
    show ?thesis unfolding accepted(2)
      by (rule system_proved_put [OF assms(1) sub]) (use now in \<open>simp_all add: accepted(1)\<close>)
  next
    case (dead c i cp d)
    obtain ph p w lk where d: "drop_conn c cp (pool_addr i) To_end (sy_pool s) (sy_world s) = (ph, p, w, lk)"
      by (metis prod_cases4)
    from drop_conn_proved [OF this _ now(1)] now(2) show ?thesis
      unfolding dead(2) d by (intro system_proved_put [OF assms(1) sub]) simp_all
  next
    case (unsubscribing c i)
    show ?thesis unfolding unsubscribing(2)
      by (rule system_proved_put [OF assms(1) sub]) (use now in \<open>simp_all split: option.split\<close>)
  next
    case (step c l)
    obtain ph p w lk where l: "l = (ph, p, w, lk)" by (cases l)
    from advance_proved [OF step(3) [unfolded l] now(3,1,2)] show ?thesis
      unfolding step(2) l by (intro system_proved_put [OF assms(1) sub]) simp_all
  qed
qed

definition fresh_server :: "system \<Rightarrow> bool" where
  "fresh_server s \<longleftrightarrow> (\<forall>c. sy_pc s c = Idle) \<and> conns (sy_pool s) = (\<lambda>_. None) \<and> hosts (w_reg (sy_world s)) = (\<lambda>_. None)"

lemma fresh_server_proved: "fresh_server s \<Longrightarrow> system_proved E s"
  by (simp add: fresh_server_def system_proved_def pool_proved_def hosts_proved_def)

interpretation proving: history_machine fresh_server "sys_step cfg" system_proved
  by (rule history_machine.intro) (simp_all add: fresh_server_proved system_proved_step)

lemmas proved_run = proving.history_reachable


section \<open>Public requests reach only their owners\<close>

text \<open>
  The peer of a TLS connection has proved to be client \<open>i\<close>: the TLS handshake has succeeded with one
  certificate, and \<open>i\<close> is its hash.
\<close>

definition identified :: "conn_env \<Rightarrow> ident \<Rightarrow> bool" where
  "identified env i \<longleftrightarrow> ce_IsTLS env \<and> ce_Handshake env = None \<and>
     (\<exists>cert. ce_PeerCertificates env = [cert] \<and> i = New (ce_sha256 env) cert)"

lemma provedD: "proved E c env i \<Longrightarrow> Accepted c env \<in> E \<and> identified env i"
  by (auto simp: proved_def identified_def peer_def PeerID_def length_Suc_conv split: option.splits if_splits)

text \<open>
  C14. A public request can only reach a client that has proved who it is and has asked for the host. In every
  interleaving from a fresh server: if a request is routed to client \<open>i\<close> at some moment, then a TLS connection
  was accepted before whose handshake succeeded with the one certificate that \<open>i\<close> is the hash of, and over which
  the client asked for an HTTP tunnel
  of that host, and the credential that guards the route is the one of that tunnel; and the
  connection that the pool then gives for \<open>i\<close> is one whose peer has proved to be \<open>i\<close> as well.
\<close>

theorem route_to_proved_peer:
  assumes "fresh_server s" and "run (sys_step cfg) s es t"
    and "Subscriber (req_Host r) (w_reg (sy_world t)) = Some (i, auth)"
  shows "(\<exists>c env ts name tun. Accepted c env \<in> set es \<and> identified env i \<and>
      handshake env i = Inr ts \<and> (name, Some tun) \<in> set ts \<and> Protocol tun = HTTP \<and>
      trimPort (tunnel_Host tun) = trimPort (req_Host r) \<and> auth = NewAuth (tunnel_Auth tun)) \<and>
    (\<forall>cp. session_conn i (sy_pool t) = Some cp \<longrightarrow>
      (\<exists>env. Accepted (cp_conn cp) env \<in> set es \<and> identified env i))"
proof (intro conjI allI impI)
  note ok = proved_run [OF assms(1,2)]
  obtain hi where hi: "hosts (w_reg (sy_world t)) (trimPort (req_Host r)) = Some hi" "hi_identifier hi = i" "hi_auth hi = auth"
    using assms(3) by (auto simp: Subscriber_def split: option.splits)
  with ok obtain h where h: "asked (set es) i h" "trimPort (ha_Host h) = trimPort (req_Host r)" "ha_Auth h = auth"
    unfolding system_proved_def hosts_proved_def by blast
  then obtain c env ts where p: "proved (set es) c env i" "handshake env i = Inr ts" "h \<in> set (tunnel_hosts ts)"
    by (auto simp: asked_def)
  from p(3) obtain name tun where "(name, Some tun) \<in> set ts" "Protocol tun = HTTP"
    "h = \<lparr>ha_Host = tunnel_Host tun, ha_Auth = NewAuth (tunnel_Auth tun)\<rparr>"
    by (auto simp: tunnel_hosts_def split: option.splits if_splits)
  then have tun: "(name, Some tun) \<in> set ts" "Protocol tun = HTTP" "trimPort (tunnel_Host tun) = trimPort (req_Host r)"
    "auth = NewAuth (tunnel_Auth tun)"
    using h(2,3) by auto
  from provedD [OF p(1)] p(2) tun show "\<exists>c env ts name tun. Accepted c env \<in> set es \<and> identified env i \<and>
      handshake env i = Inr ts \<and> (name, Some tun) \<in> set ts \<and> Protocol tun = HTTP \<and>
      trimPort (tunnel_Host tun) = trimPort (req_Host r) \<and> auth = NewAuth (tunnel_Auth tun)"
    by blast
next
  fix cp assume "session_conn i (sy_pool t) = Some cp"
  with proved_run [OF assms(1,2)] obtain env where "proved (set es) (cp_conn cp) env i"
    unfolding system_proved_def pool_proved_def session_conn_def by blast
  from provedD [OF this] show "\<exists>env. Accepted (cp_conn cp) env \<in> set es \<and> identified env i" by blast
qed


lemma demo_fresh: "fresh_server demo_system"
  by (simp add: fresh_server_def demo_system_def demo_server_def newConnPool_def newRegistry_def)

lemma demo_stored:
  "\<exists>t. run (sys_step (demo_cfg True)) demo_system
     [Accepted 7 (demo_env demo_web), Step 7, Step 7, Step 7, Step 7, Step 7] t \<and>
   Subscriber (req_Host demo_request) (w_reg (sy_world t)) = Some (zero_ident, None) \<and>
   session_conn zero_ident (sy_pool t) = Some \<lparr>cp_conn = 7, clientConn = 7\<rparr> \<and> sy_lock t = None"
proof -
  let ?w = "sy_world demo_opening"
  have none: "fst (set_item demo_item zero_ident (w_reg ?w)) = None"
    by (simp add: demo_opening_def demo_subscribed_world_def demo_item_def set_item_def Subscribe_def newRegistry_def)
  then obtain r where r: "set_item demo_item zero_ident (w_reg ?w) = (None, r)" by (metis prod.collapse)
  have pc: "sy_pc demo_opening 7 = Opening (demo_env demo_web) zero_ident [] demo_item" by (simp add: demo_opening_def)
  have "sys_step (demo_cfg True) demo_opening (Step 7)
      (put demo_opening 7 (Finished Connected, sy_pool demo_opening, ?w\<lparr>w_reg := r\<rparr>, sy_lock demo_opening))"
    by (rule sys_step.step) (simp add: pc r)
  then have "run (sys_step (demo_cfg True)) demo_opening [Step 7]
      (put demo_opening 7 (Finished Connected, sy_pool demo_opening, ?w\<lparr>w_reg := r\<rparr>, sy_lock demo_opening))"
    by (simp add: run_Cons_iff)
  from run_append [OF demo_run this] set_item_NoneD(3) [OF r] show ?thesis
    by (intro exI conjI)
      (auto simp: Subscriber_def demo_item_def demo_request_def put_def demo_opening_def demo_pool_def session_conn_def)
qed

lemma route_to_proved_peer_witness:
  "\<exists>es t c env. run (sys_step (demo_cfg True)) demo_system es t \<and>
     Subscriber (req_Host demo_request) (w_reg (sy_world t)) = Some (zero_ident, None) \<and> Accepted c env \<in> set es \<and>
     identified env zero_ident"
proof -
  obtain t where t: "run (sys_step (demo_cfg True)) demo_system
      [Accepted 7 (demo_env demo_web), Step 7, Step 7, Step 7, Step 7, Step 7] t"
    "Subscriber (req_Host demo_request) (w_reg (sy_world t)) = Some (zero_ident, None)"
    using demo_stored by blast
  from route_to_proved_peer [OF demo_fresh t] t show ?thesis by blast
qed

end
