(* ===== verification/Go_Url.thy ===== *)
theory Go_Url
  imports GoStd
begin

text \<open>
  The part of Go's \<open>net/url\<close> the program uses: \<open>url.Parse\<close> with the escapes, the authority and the
  scheme, down to the fields the program reads. User information is checked as \<open>Parse\<close> checks it, and
  dropped.
\<close>

section \<open>Escapes\<close>

datatype escape_mode = Encode_path | Encode_user_password | Encode_host | Encode_zone | Encode_fragment

definition is_letter :: "char \<Rightarrow> bool" where
  "is_letter c =
     (let n = char_code c in (65 \<le> n \<and> n \<le> 90) \<or> (97 \<le> n \<and> n \<le> 122))"

definition is_hex :: "char \<Rightarrow> bool" where
  "is_hex c =
     (let n = char_code c in is_digit c \<or> (65 \<le> n \<and> n \<le> 70) \<or> (97 \<le> n \<and> n \<le> 102))"

definition unhex :: "char \<Rightarrow> nat" where
  "unhex c =
     (let n = char_code c in
      if is_digit c then n - 48 else if 97 \<le> n \<and> n \<le> 102 then n - 87 else if 65 \<le> n \<and> n \<le> 70 then n - 55 else 0)"

text \<open>\<open>shouldEscape\<close> for the host and zone modes, the only ones in which \<open>unescape\<close> asks.\<close>

definition host_escaped :: "char \<Rightarrow> bool" where
  "host_escaped c = (\<not> (is_letter c \<or> is_digit c \<or> c \<in> set (CHR 0x22 # CHR 0x27 # ''!$&()*+,;=:[]<>-_.~'')))"

definition escape_error :: "string \<Rightarrow> go_error" where
  "escape_error s = Errorf (''invalid URL escape '' @ go_quote s)"

fun unescape :: "escape_mode \<Rightarrow> string \<Rightarrow> go_error + string" where
  "unescape m [] = Inr []"
| "unescape m (c # s) =
     (if c = CHR ''%'' then
        (case s of
           h # l # rest \<Rightarrow>
             if \<not> is_hex h \<or> \<not> is_hex l then Inl (escape_error [c, h, l])
             else if m = Encode_host \<and> unhex h < 8 \<and> [h, l] \<noteq> ''25'' then Inl (escape_error [c, h, l])
             else if m = Encode_zone \<and> [h, l] \<noteq> ''25'' \<and> char_of (16 * unhex h + unhex l) \<noteq> CHR '' '' \<and>
                host_escaped (char_of (16 * unhex h + unhex l)) then Inl (escape_error [c, h, l])
             else map_sum id (\<lambda>t. char_of (16 * unhex h + unhex l) # t) (unescape m rest)
         | _ \<Rightarrow> Inl (escape_error (c # s)))
      else if (m = Encode_host \<or> m = Encode_zone) \<and> char_code c < 128 \<and> host_escaped c
      then Inl (Errorf (''invalid character '' @ go_quote [c] @ '' in host name''))
      else map_sum id (\<lambda>t. c # t) (unescape m s))"


section \<open>Parse\<close>

record url =
  u_Scheme :: string
  u_Opaque :: string
  u_Host :: string
  u_Path :: string
  u_RawQuery :: string

text \<open>\<open>getScheme\<close>: the scheme and the rest; \<open>n\<close> is the number of bytes read.\<close>

fun scheme_from :: "string \<Rightarrow> string \<Rightarrow> string \<Rightarrow> go_error + (string \<times> string)" where
  "scheme_from raw seen [] = Inr ([], raw)"
| "scheme_from raw seen (c # s) =
     (if is_letter c then scheme_from raw (seen @ [c]) s
      else if is_digit c \<or> c \<in> set ''+-.'' then
        (if seen = [] then Inr ([], raw) else scheme_from raw (seen @ [c]) s)
      else if c = CHR '':'' then
        (if seen = [] then Inl (Errorf ''missing protocol scheme'') else Inr (seen, s))
      else Inr ([], raw))"

definition get_scheme :: "string \<Rightarrow> go_error + (string \<times> string)" where
  "get_scheme raw = scheme_from raw [] raw"

definition valid_optional_port :: "string \<Rightarrow> bool" where
  "valid_optional_port p = (case p of [] \<Rightarrow> True | c # ds \<Rightarrow> c = CHR '':'' \<and> list_all is_digit ds)"

fun find_sub :: "string \<Rightarrow> string \<Rightarrow> nat option" where
  "find_sub [] t = (if t = [] then Some 0 else None)"
| "find_sub (c # s) t = (if has_prefix (c # s) t then Some 0 else map_option Suc (find_sub s t))"

definition bad_port :: "string \<Rightarrow> go_error" where
  "bad_port p = Errorf (''invalid port '' @ go_quote p @ '' after host'')"

definition parse_host :: "string \<Rightarrow> go_error + string" where
  "parse_host host =
     (if has_prefix host ''['' then
        (case last_index host CHR '']'' of
           None \<Rightarrow> Inl (Errorf (''missing '' @ CHR 0x27 # CHR '']'' # CHR 0x27 # '' in host''))
         | Some i \<Rightarrow>
             if \<not> valid_optional_port (drop (Suc i) host) then Inl (bad_port (drop (Suc i) host))
             else
               (case find_sub (take i host) ''%25'' of
                  None \<Rightarrow> unescape Encode_host host
                | Some z \<Rightarrow>
                    (case unescape Encode_host (take z host) of
                       Inl e \<Rightarrow> Inl e
                     | Inr h1 \<Rightarrow>
                         (case unescape Encode_zone (drop z (take i host)) of
                            Inl e \<Rightarrow> Inl e
                          | Inr h2 \<Rightarrow> map_sum id (\<lambda>h3. h1 @ h2 @ h3) (unescape Encode_host (drop i host))))))
      else
        (case last_index host CHR '':'' of
           Some i \<Rightarrow>
             if \<not> valid_optional_port (drop i host) then Inl (bad_port (drop i host))
             else unescape Encode_host host
         | None \<Rightarrow> unescape Encode_host host))"

definition valid_userinfo :: "string \<Rightarrow> bool" where
  "valid_userinfo s =
     list_all (\<lambda>c. is_letter c \<or> is_digit c \<or> c \<in> set (CHR 0x27 # ''-._:~!$&()*+,;=%@'')) s"

definition user_error :: "string \<Rightarrow> go_error option" where
  "user_error userinfo =
     (if \<not> valid_userinfo userinfo then Some (Errorf ''net/url: invalid userinfo'')
      else
        let (name, pass) = (case cut userinfo '':'' of None \<Rightarrow> (userinfo, []) | Some p \<Rightarrow> p) in
        case unescape Encode_user_password name of
          Inl e \<Rightarrow> Some e
        | Inr _ \<Rightarrow> (case unescape Encode_user_password pass of Inl e \<Rightarrow> Some e | Inr _ \<Rightarrow> None))"

definition parse_authority :: "string \<Rightarrow> go_error + string" where
  "parse_authority a =
     (case last_index a CHR ''@'' of
        None \<Rightarrow> parse_host a
      | Some i \<Rightarrow>
          (case parse_host (drop (Suc i) a) of
             Inl e \<Rightarrow> Inl e
           | Inr h \<Rightarrow> (case user_error (take i a) of Some e \<Rightarrow> Inl e | None \<Rightarrow> Inr h)))"

definition cut_or :: "string \<Rightarrow> string \<Rightarrow> string \<times> string" where
  "cut_or s sep = (case cut s sep of None \<Rightarrow> (s, []) | Some p \<Rightarrow> p)"

definition is_ctl :: "char \<Rightarrow> bool" where
  "is_ctl c = (char_code c < 32 \<or> char_code c = 127)"

definition parse_url :: "string \<Rightarrow> go_error + url" where
  "parse_url raw =
     (if list_ex is_ctl raw then Inl (Errorf ''net/url: invalid control character in URL'')
      else if raw = ''*'' then Inr \<lparr>u_Scheme = [], u_Opaque = [], u_Host = [], u_Path = ''*'', u_RawQuery = []\<rparr>
      else case get_scheme raw of
        Inl e \<Rightarrow> Inl e
      | Inr (scheme, rest) \<Rightarrow>
          let scheme = map lower_byte scheme;
              (rest, query) = cut_or rest ''?''
          in
          if \<not> has_prefix rest ''/'' \<and> scheme \<noteq> [] then
            Inr \<lparr>u_Scheme = scheme, u_Opaque = rest, u_Host = [], u_Path = [], u_RawQuery = query\<rparr>
          else if \<not> has_prefix rest ''/'' \<and> contains (fst (cut_or rest ''/'')) '':'' then
            Inl (Errorf ''first path segment in URL cannot contain colon'')
          else if (scheme \<noteq> [] \<or> \<not> has_prefix rest ''///'') \<and> has_prefix rest ''//'' then
            (let a = takeWhile (\<lambda>c. c \<noteq> CHR ''/'') (drop 2 rest);
                 p = dropWhile (\<lambda>c. c \<noteq> CHR ''/'') (drop 2 rest)
             in case parse_authority a of
                  Inl e \<Rightarrow> Inl e
                | Inr host \<Rightarrow>
                    map_sum id (\<lambda>path. \<lparr>u_Scheme = scheme, u_Opaque = [], u_Host = host, u_Path = path, u_RawQuery = query\<rparr>)
                      (unescape Encode_path p))
          else
            map_sum id (\<lambda>path. \<lparr>u_Scheme = scheme, u_Opaque = [], u_Host = [], u_Path = path, u_RawQuery = query\<rparr>)
              (unescape Encode_path rest))"

text \<open>\<open>Parse\<close> wraps an error with the text it parsed.\<close>

definition url_error :: "string \<Rightarrow> go_error \<Rightarrow> go_error" where
  "url_error u e = Errorf (''parse '' @ go_quote u @ '': '' @ error_text e)"

definition url_Parse :: "string \<Rightarrow> go_error + url" where
  "url_Parse raw =
     (let (u, frag) = cut_or raw ''#'' in
      case parse_url u of
        Inl e \<Rightarrow> Inl (url_error u e)
      | Inr res \<Rightarrow>
          if frag = [] then Inr res
          else case unescape Encode_fragment frag of
            Inl e \<Rightarrow> Inl (url_error raw e)
          | Inr _ \<Rightarrow> Inr res)"


section \<open>Absolute URLs\<close>

text \<open>The schemes the program allows are read back as they are, and the authority follows.\<close>

lemma get_scheme_http:
  "get_scheme (''http://'' @ s) = Inr (''http'', ''//'' @ s)"
  "get_scheme (''https://'' @ s) = Inr (''https'', ''//'' @ s)"
  by (simp_all add: get_scheme_def is_letter_def char_code_def is_digit_def)

lemma cut_or_slashes:
  "cut_or (CHR ''/'' # CHR ''/'' # s) ''?'' = (CHR ''/'' # CHR ''/'' # fst (cut_or s ''?''), snd (cut_or s ''?''))"
  by (auto simp: cut_or_def split: option.split)

lemma map_sum_InrD: "map_sum id f x = Inr u \<Longrightarrow> \<exists>y. x = Inr y \<and> u = f y"
  by (cases x) auto

lemma parse_url_scheme:
  assumes "parse_url (sch @ ''://'' @ s) = Inr u" and "sch = ''http'' \<or> sch = ''https''"
  shows "u_Scheme u = sch \<and> u_Opaque u = []"
proof -
  let ?r = "fst (cut_or s ''?'')"
  have get: "get_scheme (sch @ ''://'' @ s) = Inr (sch, ''//'' @ s)"
    using assms(2) get_scheme_http by auto
  have low: "map lower_byte sch = sch" "sch \<noteq> []" "sch @ ''://'' @ s \<noteq> ''*''"
    using assms(2) by (auto simp: lower_byte_def char_code_def)
  have ok: "\<not> list_ex is_ctl (sch @ ''://'' @ s)"
    using assms(1) by (auto simp: parse_url_def)
  have "has_prefix (CHR ''/'' # CHR ''/'' # ?r) ''//''" "has_prefix (CHR ''/'' # CHR ''/'' # ?r) ''/''" by simp_all
  with assms(1) obtain host path where
    "u = \<lparr>u_Scheme = sch, u_Opaque = [], u_Host = host, u_Path = path, u_RawQuery = snd (cut_or s ''?'')\<rparr>"
    unfolding parse_url_def if_not_P [OF ok] if_not_P [OF low(3)] get sum.case prod.case Let_def low(1)
    using low(2)
    by (auto simp: cut_or_slashes dest!: map_sum_InrD split: sum.splits)
  then show ?thesis by simp
qed

end
