(* ===== verification/Proxies.thy ===== *)
theory Proxies
  imports Http_Data Go_Url
begin

text \<open>
  The proxies on the client: the dispatch by protocol (\<open>proxy.go\<close>), the HTTP proxy that rewrites a
  request for a local service (\<open>httpproxy.go\<close>) and the TCP proxy that relays a stream to a local
  address (\<open>tcpproxy.go\<close>).
\<close>

section \<open>Dispatch\<close>

text \<open>
  A \<open>ProxyFunc\<close> is what it does with a control message; \<open>None\<close> is a nil function. \<open>Proxy\<close> gives
  \<open>None\<close> when it returns without calling anything.
\<close>

record 'r proxy_funcs =
  pf_HTTP :: "(control_message \<Rightarrow> 'r) option"
  pf_TCP :: "(control_message \<Rightarrow> 'r) option"

definition Proxy :: "'r proxy_funcs \<Rightarrow> control_message \<Rightarrow> 'r option" where
  "Proxy p msg =
     (let f = (if ForwardedProto msg \<in> set [HTTP, HTTPS] then pf_HTTP p
               else if ForwardedProto msg \<in> set [TCP, TCP4, TCP6, UNIX] then pf_TCP p
               else None)
      in case f of None \<Rightarrow> None | Some f \<Rightarrow> Some (f msg))"


section \<open>HTTP\<close>

text \<open>
  A Go map is the list of its entries, each key once; a map of pointers may hold nil.
\<close>

record http_proxy =
  hp_localURL :: "url option"
  hp_localURLMap :: "(string \<times> url option) list"

definition NewHTTPProxy :: "url \<Rightarrow> http_proxy" where
  "NewHTTPProxy u = \<lparr>hp_localURL = Some u, hp_localURLMap = []\<rparr>"

definition NewMultiHTTPProxy :: "(string \<times> url option) list \<Rightarrow> http_proxy" where
  "NewMultiHTTPProxy m = \<lparr>hp_localURL = None, hp_localURLMap = m\<rparr>"

definition url_at :: "(string \<times> url option) list \<Rightarrow> string \<Rightarrow> url option" where
  "url_at m k = (case map_of m k of None \<Rightarrow> None | Some u \<Rightarrow> u)"

definition localURLFor :: "http_proxy \<Rightarrow> string \<Rightarrow> url option" where
  "localURLFor p hostPort =
     (if length (hp_localURLMap p) = 0 then hp_localURL p
      else case url_at (hp_localURLMap p) hostPort of
        Some addr \<Rightarrow> Some addr
      | None \<Rightarrow>
          let host = host_part hostPort; port = port_part hostPort in
          (case url_at (hp_localURLMap p) port of
             Some addr \<Rightarrow> Some addr
           | None \<Rightarrow>
               (case url_at (hp_localURLMap p) host of
                  Some addr \<Rightarrow> Some addr
                | None \<Rightarrow> hp_localURL p)))"

definition singleJoiningSlash :: "string \<Rightarrow> string \<Rightarrow> string" where
  "singleJoiningSlash a b =
     (if a = [] \<or> a = ''/'' then b
      else if b = [] \<or> b = ''/'' then a
      else path_join a b)"

text \<open>
  \<open>Director\<close>: without a target it derives a context from the request's, cancels that and returns, so
  the request goes on as it is.
\<close>

definition Director :: "http_proxy \<Rightarrow> request \<Rightarrow> request" where
  "Director p req =
     (case localURLFor p (req_URLHost req) of
        None \<Rightarrow> req
      | Some target \<Rightarrow>
          let targetQuery = u_RawQuery target;
              query = (if targetQuery = [] \<or> req_RawQuery req = [] then targetQuery @ req_RawQuery req
                       else targetQuery @ ''&'' @ req_RawQuery req);
              h = (if req_Header req ''User-Agent'' = None then header_set (req_Header req) ''User-Agent'' []
                   else req_Header req)
          in req\<lparr>req_URLHost := u_Host target, req_Scheme := u_Scheme target,
                 req_Path := singleJoiningSlash (u_Path target) (req_Path req),
                 req_RawQuery := query, req_Header := h, req_Host := u_Host target\<rparr>)"

text \<open>
  \<open>HTTPProxy.Proxy\<close>. \<open>read\<close> is what \<open>http.ReadRequest\<close> makes of the stream. The request is handed to
  \<open>ReverseProxy.ServeHTTP\<close>, together with a nil writer when \<open>w\<close> is no \<open>http.ResponseWriter\<close>.
\<close>

datatype http_proxied = Http_dropped | Http_served request | Http_nil_writer request

definition HTTPProxy_Proxy ::
  "http_proxy \<Rightarrow> bool \<Rightarrow> go_error + request \<Rightarrow> control_message \<Rightarrow> http_proxied" where
  "HTTPProxy_Proxy p is_response_writer read msg =
     (if ForwardedProto msg \<notin> set [HTTP, HTTPS] then Http_dropped
      else case read of
        Inl err \<Rightarrow> Http_dropped
      | Inr req \<Rightarrow>
          let req = req\<lparr>req_Header := setXForwardedFor (req_Header req) (RemoteAddr msg),
                        req_URLHost := ForwardedHost msg\<rparr>
          in if is_response_writer then Http_served req else Http_nil_writer req)"


section \<open>TCP\<close>

record tcp_proxy =
  tp_localAddr :: string
  tp_localAddrMap :: "(string \<times> string) list"

definition NewTCPProxy :: "string \<Rightarrow> tcp_proxy" where
  "NewTCPProxy a = \<lparr>tp_localAddr = a, tp_localAddrMap = []\<rparr>"

definition NewMultiTCPProxy :: "(string \<times> string) list \<Rightarrow> tcp_proxy" where
  "NewMultiTCPProxy m = \<lparr>tp_localAddr = [], tp_localAddrMap = m\<rparr>"

text \<open>A missing key reads as the empty string.\<close>

definition addr_at :: "(string \<times> string) list \<Rightarrow> string \<Rightarrow> string" where
  "addr_at m k = (case map_of m k of None \<Rightarrow> [] | Some a \<Rightarrow> a)"

definition localAddrFor :: "tcp_proxy \<Rightarrow> string \<Rightarrow> string" where
  "localAddrFor p hostPort =
     (if length (tp_localAddrMap p) = 0 then tp_localAddr p
      else if addr_at (tp_localAddrMap p) hostPort \<noteq> [] then addr_at (tp_localAddrMap p) hostPort
      else
        let host = host_part hostPort; port = port_part hostPort in
        if addr_at (tp_localAddrMap p) port \<noteq> [] then addr_at (tp_localAddrMap p) port
        else if addr_at (tp_localAddrMap p) (''0.0.0.0:'' @ port) \<noteq> []
        then addr_at (tp_localAddrMap p) (''0.0.0.0:'' @ port)
        else if addr_at (tp_localAddrMap p) host \<noteq> [] then addr_at (tp_localAddrMap p) host
        else tp_localAddr p)"

text \<open>
  \<open>TCPProxy.Proxy\<close>: \<open>dial\<close> answers an error or the stream of the local service; \<open>r\<close> is the stream from
  the tunnel. The result has the target, what was written to the service and what was written back.
\<close>

datatype tcp_proxied = Tcp_dropped | Tcp_dial_failed string | Tcp_relayed string string string

definition TCPProxy_Proxy ::
  "tcp_proxy \<Rightarrow> logger \<Rightarrow> (string \<Rightarrow> go_error + reader) \<Rightarrow> reader \<Rightarrow> control_message \<Rightarrow> tcp_proxied" where
  "TCPProxy_Proxy p logger dial r msg =
     (if ForwardedProto msg \<notin> set [TCP, TCP4, TCP6, UNIX, SNI] then Tcp_dropped
      else
        let target = localAddrFor p (ForwardedHost msg) in
        if target = [] then Tcp_dropped
        else case dial target of
          Inl err \<Rightarrow> Tcp_dial_failed target
        | Inr local \<Rightarrow>
            Tcp_relayed target
              (fst (transfer (With (NewContext logger) [KStr ''dst'', KStr target, KStr ''src'', KStr (ForwardedHost msg)]) None r))
              (fst (transfer (With (NewContext logger) [KStr ''dst'', KStr (ForwardedHost msg), KStr ''src'', KStr target]) None local)))"


section \<open>Properties\<close>

text \<open>The first value of a list of candidates, or a default.\<close>

definition first_or :: "'a \<Rightarrow> 'a list \<Rightarrow> 'a" where
  "first_or d xs = (case xs of [] \<Rightarrow> d | x # _ \<Rightarrow> x)"

text \<open>
  The backend of an HTTP request is chosen by the most specific entry: the forwarded host as it is,
  then its port, then its host, then the default; a proxy without a map always uses the default.
\<close>

theorem localURLFor_precedence:
  "localURLFor p hostPort =
     first_or (hp_localURL p)
       (filter (\<lambda>u. u \<noteq> None)
          (map (url_at (hp_localURLMap p)) [hostPort, port_part hostPort, host_part hostPort]))"
proof (cases "hp_localURLMap p")
  case Nil
  then show ?thesis by (simp add: localURLFor_def first_or_def url_at_def)
next
  case (Cons e m)
  then have "length (hp_localURLMap p) \<noteq> 0" by simp
  then show ?thesis unfolding localURLFor_def Let_def first_or_def by (simp split: option.split)
qed

text \<open>
  The local address of a TCP stream is chosen in the order: forwarded host and port, port, port on all
  interfaces, host, default.
\<close>

theorem localAddrFor_precedence:
  "localAddrFor p hostPort =
     first_or (tp_localAddr p)
       (filter (\<lambda>a. a \<noteq> [])
          (map (addr_at (tp_localAddrMap p))
             [hostPort, port_part hostPort, ''0.0.0.0:'' @ port_part hostPort, host_part hostPort]))"
proof (cases "tp_localAddrMap p")
  case Nil
  then show ?thesis by (simp add: localAddrFor_def first_or_def addr_at_def)
next
  case (Cons e m)
  then have "length (tp_localAddrMap p) \<noteq> 0" by simp
  then show ?thesis unfolding localAddrFor_def Let_def first_or_def by simp
qed

lemma wildcard_route:
  assumes "plain port" and "addr_at (tp_localAddrMap p) (''0.0.0.0:'' @ port) = a" and "a \<noteq> []"
    and "addr_at (tp_localAddrMap p) (''[::]:'' @ port) = []" and "addr_at (tp_localAddrMap p) port = []"
  shows "localAddrFor p (''[::]:'' @ port) = a"
proof -
  have split: "split_host_port (''[::]:'' @ port) = Inr (''::'', port)"
    using split_host_port_bracket [of "''::''" port] assms(1) by simp
  have "length (tp_localAddrMap p) \<noteq> 0" using assms(2,3) by (auto simp: addr_at_def)
  with assms split show ?thesis
    unfolding localAddrFor_def Let_def by (simp add: port_part_def)
qed

text \<open>
  A stream for the wildcard address reaches its tunnel: the server listens on all interfaces and
  announces \<open>[::]:port\<close>, and the client finds the entry \<open>0.0.0.0:port\<close>, as long as no entry is
  more specific.
\<close>

theorem localAddrFor_wildcard:
  assumes "plain port" and "addr_at (tp_localAddrMap p) (''0.0.0.0:'' @ port) = a" and "a \<noteq> []"
    and "addr_at (tp_localAddrMap p) (''[::]:'' @ port) = []" and "addr_at (tp_localAddrMap p) port = []"
  shows "localAddrFor p (''[::]:'' @ port) = a"
  using assms by (rule wildcard_route)

lemma localAddrFor_wildcard_witness:
  "localAddrFor (NewMultiTCPProxy [(''0.0.0.0:22'', ''127.0.0.1:22'')]) (''[::]:'' @ ''22'') = ''127.0.0.1:22''"
  by (rule localAddrFor_wildcard) (simp_all add: plain_def NewMultiTCPProxy_def addr_at_def)

text \<open>
  The director sends a request to the chosen backend and nowhere else: URL and Host name the
  backend's host, the scheme is the backend's, the queries are joined and the headers are what the user
  sent, with an empty User-Agent when there was none; without a backend the request is left as it is, it is not cancelled.
\<close>

theorem Director_target:
  "case localURLFor p (req_URLHost req) of
     None \<Rightarrow> Director p req = req
   | Some target \<Rightarrow>
       req_URLHost (Director p req) = u_Host target \<and> req_Host (Director p req) = u_Host target \<and>
       req_Scheme (Director p req) = u_Scheme target \<and>
       req_RawQuery (Director p req) =
         join ''&'' (filter (\<lambda>q. q \<noteq> []) [u_RawQuery target, req_RawQuery req]) \<and>
       req_Header (Director p req) =
         (req_Header req)(''User-Agent'' \<mapsto> case req_Header req ''User-Agent'' of None \<Rightarrow> [[]] | Some v \<Rightarrow> v) \<and>
       req_Body (Director p req) = req_Body req \<and> req_Method (Director p req) = req_Method req"
proof (cases "localURLFor p (req_URLHost req)")
  case None
  then show ?thesis by (simp add: Director_def)
next
  case (Some target)
  then show ?thesis by (auto simp: Director_def Let_def header_set_def)
qed

text \<open>
  Every protocol the server can announce is handled: HTTP and HTTPS by the HTTP function, TCP and
  UNIX networks by the TCP function, and the chosen function gets the message unchanged; any other
  protocol, \<open>sni\<close> among them, is ignored.
\<close>

theorem Proxy_dispatch:
  "Proxy p msg =
     (if ForwardedProto msg \<in> {''http'', ''https''} then map_option (\<lambda>f. f msg) (pf_HTTP p)
      else if ForwardedProto msg \<in> {''tcp'', ''tcp4'', ''tcp6'', ''unix''} then map_option (\<lambda>f. f msg) (pf_TCP p)
      else None)"
  by (simp add: Proxy_def protocol_names split: option.split)

text \<open>
  The prefix of a backend URL is no confinement: joining cleans the path, so a request path with
  \<open>..\<close> leaves the backend's base path, and a trailing slash is lost.
\<close>

theorem singleJoiningSlash_escapes:
  "singleJoiningSlash ''/app/'' ''/../secret'' = ''/secret'' \<and>
   singleJoiningSlash ''/app/'' ''/dir/'' = ''/app/dir''"
  by code_simp

lemma foldl_clean_plain:
  "\<forall>e \<in> set es. e \<noteq> ''.'' \<and> e \<noteq> ''..'' \<Longrightarrow>
   foldl (clean_step r) st es = rev (filter (\<lambda>e. e \<noteq> []) es) @ st"
  by (induction es arbitrary: st) (simp_all add: clean_step_def)

text \<open>
  Without dot elements the join is what its name says: the elements of the base and of the path, put
  together with single slashes, whether or not the base ends in a slash.
\<close>

theorem singleJoiningSlash_plain:
  assumes "a \<notin> {[], ''/''}" and "b \<notin> {[], ''/''}" and "hd a = CHR ''/''"
    and "\<forall>e \<in> set (split_byte CHR ''/'' a @ split_byte CHR ''/'' b). e \<noteq> ''.'' \<and> e \<noteq> ''..''"
  shows "singleJoiningSlash a b =
    CHR ''/'' # join ''/'' (filter (\<lambda>e. e \<noteq> []) (split_byte CHR ''/'' a @ split_byte CHR ''/'' b))"
proof -
  have "path_clean (a @ CHR ''/'' # b) =
      CHR ''/'' # join ''/'' (rev (foldl (clean_step True) [] (split_byte CHR ''/'' (a @ CHR ''/'' # b))))"
    using assms(1,3) by (simp add: path_clean_def Let_def hd_append)
  also have "\<dots> = CHR ''/'' # join ''/'' (filter (\<lambda>e. e \<noteq> []) (split_byte CHR ''/'' a @ split_byte CHR ''/'' b))"
    using foldl_clean_plain [OF assms(4), of True "[]"] by (simp add: split_byte_append)
  finally show ?thesis
    using assms(1,2) by (simp add: singleJoiningSlash_def path_join_def)
qed

lemma singleJoiningSlash_plain_witness:
  "singleJoiningSlash ''/app/'' ''/x/y'' = ''/app/x/y''"
  by (subst singleJoiningSlash_plain) simp_all

end
