(* ===== verification/Client_Relay.thy ===== *)
theory Client_Relay
  imports Proxies
begin

text \<open>
  The two goroutines of \<open>TCPProxy.Proxy\<close> (\<open>tcpproxy.go\<close>) once the local service is dialled: the method
  copies the tunnel's stream to the service, a goroutine copies back, and the method waits for it.
  \<open>TCPProxy_Proxy\<close> of \<open>Proxies\<close> is the dispatch before and the outcome of an undisturbed relay.
\<close>

section \<open>The machine\<close>

datatype relay_main = R_copy | R_wait | R_done
datatype relay_back = RB_copy | RB_done

text \<open>
  \<open>re_r\<close> and \<open>re_service\<close> are the bytes that the tunnel and the service are still to deliver; \<open>re_local\<close> and
  \<open>re_w\<close> those written to the service and back into the tunnel.
\<close>

record relay =
  re_main :: relay_main
  re_back :: relay_back
  re_r :: string
  re_service :: string
  re_local :: string
  re_w :: string
  re_flushes :: nat
  re_local_open :: bool

definition relay_init :: "string \<Rightarrow> string \<Rightarrow> relay" where
  "relay_init r service =
     \<lparr>re_main = R_copy, re_back = RB_copy, re_r = r, re_service = service, re_local = [], re_w = [],
      re_flushes = 0, re_local_open = True\<rparr>"

text \<open>
  A copy ends at the end of its source or with an error of either side, at any point. Each write back
  into the tunnel is flushed.
\<close>

datatype relay_event =
    RE_forward nat
  | RE_forward_end
  | RE_backward nat
  | RE_backward_end
  | RE_return

inductive relay_step :: "relay \<Rightarrow> relay_event \<Rightarrow> relay \<Rightarrow> bool" where
  forward: "re_main s = R_copy \<Longrightarrow>
    relay_step s (RE_forward n) (s\<lparr>re_local := re_local s @ take n (re_r s), re_r := drop n (re_r s)\<rparr>)"
| forward_end: "re_main s = R_copy \<Longrightarrow> relay_step s RE_forward_end (s\<lparr>re_main := R_wait\<rparr>)"
| backward: "re_back s = RB_copy \<Longrightarrow>
    relay_step s (RE_backward n)
      (s\<lparr>re_w := re_w s @ take n (re_service s), re_service := drop n (re_service s),
         re_flushes := snd (flushWriter_Write (\<lambda>p. (length p, None)) True (take n (re_service s)) (re_flushes s))\<rparr>)"
| backward_end: "re_back s = RB_copy \<Longrightarrow> relay_step s RE_backward_end (s\<lparr>re_back := RB_done\<rparr>)"
| return: "re_main s = R_wait \<Longrightarrow> re_back s = RB_done \<Longrightarrow>
    relay_step s RE_return (s\<lparr>re_main := R_done, re_local_open := False\<rparr>)"

inductive_cases relay_stepE: "relay_step s e t"

definition relay_ok :: "string \<Rightarrow> string \<Rightarrow> relay \<Rightarrow> bool" where
  "relay_ok r service s \<longleftrightarrow>
     re_local s @ re_r s = r \<and> re_w s @ re_service s = service \<and>
     (re_local_open s \<longleftrightarrow> re_main s \<noteq> R_done) \<and> (re_main s = R_done \<longrightarrow> re_back s = RB_done)"

interpretation relaying: invariant_machine "\<lambda>s. s = relay_init r service" relay_step "relay_ok r service"
proof (rule invariant_machine.intro)
  show "relay_ok r service s" if "s = relay_init r service" for s
    using that by (simp add: relay_ok_def relay_init_def)
  show "relay_ok r service t" if "relay_ok r service s" "relay_step s e t" for s e t
    using that(2,1) by cases (auto simp: relay_ok_def)
qed

text \<open>An undisturbed relay: everything is copied both ways, in any sizes, and the method returns.\<close>

lemma relay_completes:
  "run relay_step (relay_init r service)
     [RE_forward (length r), RE_backward (length service), RE_forward_end, RE_backward_end, RE_return]
     ((relay_init r service)\<lparr>re_main := R_done, re_back := RB_done, re_r := [], re_service := [], re_local := r,
       re_w := service, re_flushes := 1, re_local_open := False\<rparr>)"
proof -
  let ?s0 = "relay_init r service"
  let ?s1 = "?s0\<lparr>re_local := r, re_r := []\<rparr>"
  let ?s2 = "?s1\<lparr>re_w := service, re_service := [], re_flushes := 1\<rparr>"
  let ?s3 = "?s2\<lparr>re_main := R_wait\<rparr>"
  let ?s4 = "?s3\<lparr>re_back := RB_done\<rparr>"
  let ?s5 = "?s4\<lparr>re_main := R_done, re_local_open := False\<rparr>"
  have "relay_step ?s0 (RE_forward (length r)) ?s1"
    using relay_step.forward [of ?s0 "length r"] by (simp add: relay_init_def)
  moreover have "relay_step ?s1 (RE_backward (length service)) ?s2"
    using relay_step.backward [of ?s1 "length service"] by (simp add: relay_init_def flushWriter_Write_def)
  moreover have "relay_step ?s2 RE_forward_end ?s3" by (rule relay_step.forward_end) (simp add: relay_init_def)
  moreover have "relay_step ?s3 RE_backward_end ?s4" by (rule relay_step.backward_end) (simp add: relay_init_def)
  moreover have "relay_step ?s4 RE_return ?s5" by (rule relay_step.return) simp_all
  ultimately have "run relay_step ?s0 [RE_forward (length r), RE_backward (length service), RE_forward_end,
      RE_backward_end, RE_return] ?s5"
    by (meson run_Cons run_Nil)
  then show ?thesis by (simp add: relay_init_def)
qed

text \<open>
  What \<open>TCPProxy_Proxy\<close> says of a relayed stream is what its goroutines do when nothing interrupts
  them.
\<close>

theorem TCPProxy_Proxy_relayed:
  assumes "TCPProxy_Proxy p logger dialer (r, rerr) msg = Tcp_relayed target to_local to_tunnel"
    and "dialer target = Inr (service, lerr)"
  shows "\<exists>es s. run relay_step (relay_init r service) es s \<and> re_main s = R_done \<and>
    re_local s = to_local \<and> re_w s = to_tunnel \<and> \<not> re_local_open s"
proof -
  have "to_local = r \<and> to_tunnel = service"
    using assms by (auto simp: TCPProxy_Proxy_def Let_def transfer_def io_Copy_def split: if_splits sum.splits)
  with relay_completes [of r service] show ?thesis by fastforce
qed

text \<open>
  A relay outlives its user: when the tunnel's stream has ended, the connection to the service stays open
  until the service itself sends its end or a write into the tunnel fails, which takes a byte of the
  service. As long as the service is silent, the method does not return and its end of the stream is not
  passed on.
\<close>

theorem relay_waits_for_service:
  assumes "run relay_step s es t" and "re_main s = R_wait" and "re_back s = RB_copy"
    and "RE_backward_end \<notin> set es"
  shows "re_main t = R_wait \<and> re_local_open t = re_local_open s \<and> re_local t = re_local s"
proof -
  have "re_main t = R_wait \<and> re_back t = RB_copy \<and> re_local_open t = re_local_open s \<and> re_local t = re_local s"
    using assms
  proof (induction rule: run.induct)
    case (run_Cons s e t es u)
    from run_Cons.hyps(1) run_Cons.prems
    have "re_main t = R_wait \<and> re_back t = RB_copy \<and> re_local_open t = re_local_open s \<and> re_local t = re_local s"
      by (auto elim!: relay_stepE)
    with run_Cons show ?case by simp
  qed simp
  then show ?thesis by blast
qed

end
