(* ===== verification/Tunnel_Stream.thy ===== *)
theory Tunnel_Stream
  imports Server_Conn Client_Relay
begin

text \<open>
  A carried connection as its users see it: a pipe of bytes in each direction. The abstract machine
  delivers the bytes of a stream in order until it is cut; the goroutines of \<open>proxyConnUpgraded\<close> and
  \<open>proxyConn\<close> on the server and of \<open>TCPProxy.Proxy\<close> on the client are shown to implement it, and
  together they carry a public connection to the local service and back.
\<close>

section \<open>The specification\<close>

record byte_pipe =
  bp_delivered :: string
  bp_open :: bool

datatype pipe_event = Deliver nat | Cut

inductive pipe_step :: "string \<Rightarrow> byte_pipe \<Rightarrow> pipe_event \<Rightarrow> byte_pipe \<Rightarrow> bool" for stream :: string where
  deliver: "bp_open s \<Longrightarrow>
    pipe_step stream s (Deliver n)
      (s\<lparr>bp_delivered := bp_delivered s @ take n (drop (length (bp_delivered s)) stream)\<rparr>)"
| cut: "pipe_step stream s Cut (s\<lparr>bp_open := False\<rparr>)"

inductive_cases pipe_stepE: "pipe_step stream s e t"

definition fresh_pipe :: byte_pipe where
  "fresh_pipe = \<lparr>bp_delivered = [], bp_open = True\<rparr>"

interpretation pipe: invariant_machine "\<lambda>s. s = fresh_pipe" "pipe_step stream" "\<lambda>s. prefix (bp_delivered s) stream"
proof (rule invariant_machine.intro)
  show "prefix (bp_delivered s) stream" if "s = fresh_pipe" for s using that by (simp add: fresh_pipe_def)
  show "prefix (bp_delivered t) stream" if ok: "prefix (bp_delivered s) stream" and step: "pipe_step stream s e t" for s e t
    using step
  proof cases
    case (deliver n)
    obtain rest where "stream = bp_delivered s @ rest" using ok by (auto simp: prefix_def)
    with deliver show ?thesis by (simp add: take_is_prefix)
  qed (use ok in simp)
qed

lemma pipe_deliver_to:
  assumes "bp_open s" and "prefix (bp_delivered s) d" and "prefix d stream"
  shows "run (pipe_step stream) s [Deliver (length d - length (bp_delivered s))] (s\<lparr>bp_delivered := d\<rparr>)"
proof -
  obtain bs where bs: "d = bp_delivered s @ bs" using assms(2) by (auto simp: prefix_def)
  obtain rest where "stream = d @ rest" using assms(3) by (auto simp: prefix_def)
  with bs pipe_step.deliver [OF assms(1), of stream "length bs"] show ?thesis by (simp add: run_Cons_iff)
qed

lemma pipe_cut: "run (pipe_step stream) s [Cut] (s\<lparr>bp_open := False\<rparr>)"
  using pipe_step.cut [of stream s] by (simp add: run_Cons_iff)

text \<open>A machine whose step appends to the delivered bytes, closes, or does neither, matches the pipe.\<close>

lemma pipe_match:
  assumes "prefix d d'" and "prefix d' stream" and "d' = d \<or> opened" and "opened' \<longrightarrow> opened"
  shows "\<exists>fs. run (pipe_step stream) \<lparr>bp_delivered = d, bp_open = opened\<rparr> fs \<lparr>bp_delivered = d', bp_open = opened'\<rparr>"
proof -
  have "\<exists>fs. run (pipe_step stream) \<lparr>bp_delivered = d, bp_open = opened\<rparr> fs \<lparr>bp_delivered = d', bp_open = opened\<rparr>"
  proof (cases "d' = d")
    case False
    with assms(3) have "bp_open \<lparr>bp_delivered = d, bp_open = opened\<rparr>" by simp
    from pipe_deliver_to [OF this, of d' stream] assms(1,2) show ?thesis by auto
  qed (auto intro: run_Nil)
  then obtain fs where fs: "run (pipe_step stream) \<lparr>bp_delivered = d, bp_open = opened\<rparr> fs
    \<lparr>bp_delivered = d', bp_open = opened\<rparr>" ..
  show ?thesis
  proof (cases "opened' = opened")
    case True
    with fs show ?thesis by blast
  next
    case False
    with assms(4) have "opened' = False" by blast
    with run_append [OF fs pipe_cut] show ?thesis by fastforce
  qed
qed


section \<open>The server implements it\<close>

definition carry_pipe :: "carried \<Rightarrow> byte_pipe" where
  "carry_pipe s = \<lparr>bp_delivered = t_pipe s, bp_open = t_pipe_open s\<rparr>"

lemma carry_prefix: "carry_ok first user s \<Longrightarrow> prefix (t_pipe s) (first @ user)"
  by (cases "t_writer s") (auto simp: carry_ok_def carry_order_def prefix_def)

lemma carry_ok_step: "carry_ok first user s \<Longrightarrow> carry s e t \<Longrightarrow> carry_ok first user t"
  by (rule carrying.inv_step)

lemma carry_pipe_step:
  assumes "carry_ok first user s" and "carry s e t"
  shows "\<exists>fs. run (pipe_step (first @ user)) (carry_pipe s) fs (carry_pipe t)"
  unfolding carry_pipe_def
proof (rule pipe_match)
  show "prefix (t_pipe t) (first @ user)" using carry_prefix [OF carry_ok_step [OF assms]] .
  show "prefix (t_pipe s) (t_pipe t)" "t_pipe t = t_pipe s \<or> t_pipe_open s" "t_pipe_open t \<longrightarrow> t_pipe_open s"
    using assms(2) by (cases; auto simp: returned_def)+
qed

interpretation carry_to_tunnel: simulation "carry_initial first user" carry "carry_ok first user"
    "pipe_step (first @ user)" carry_pipe
  by (intro simulation.intro carrying.invariant_machine_axioms simulation_axioms.intro carry_pipe_step)


section \<open>The client implements it\<close>

definition relay_to_local :: "relay \<Rightarrow> byte_pipe" where
  "relay_to_local s = \<lparr>bp_delivered = re_local s, bp_open = (re_main s = R_copy)\<rparr>"

definition relay_to_tunnel :: "relay \<Rightarrow> byte_pipe" where
  "relay_to_tunnel s = \<lparr>bp_delivered = re_w s, bp_open = (re_back s = RB_copy)\<rparr>"

lemma relay_step_pipes:
  assumes "relay_ok r service s" and "relay_step s e t"
  shows "\<exists>fs. run (pipe_step r) (relay_to_local s) fs (relay_to_local t)"
    and "\<exists>fs. run (pipe_step service) (relay_to_tunnel s) fs (relay_to_tunnel t)"
proof -
  have ok: "relay_ok r service t" using relaying.inv_step [OF assms] .
  then have now: "prefix (re_local t) r" "prefix (re_w t) service" by (auto simp: relay_ok_def prefix_def)
  have grow: "prefix (re_local s) (re_local t)" "prefix (re_w s) (re_w t)"
    "re_local t = re_local s \<or> re_main s = R_copy" "re_w t = re_w s \<or> re_back s = RB_copy"
    "re_main t = R_copy \<longrightarrow> re_main s = R_copy" "re_back t = RB_copy \<longrightarrow> re_back s = RB_copy"
    using assms(2) by (cases; auto)+
  show "\<exists>fs. run (pipe_step r) (relay_to_local s) fs (relay_to_local t)"
    unfolding relay_to_local_def by (rule pipe_match [OF grow(1) now(1) grow(3,5)])
  show "\<exists>fs. run (pipe_step service) (relay_to_tunnel s) fs (relay_to_tunnel t)"
    unfolding relay_to_tunnel_def by (rule pipe_match [OF grow(2) now(2) grow(4,6)])
qed

interpretation relay_local: simulation "\<lambda>s. s = relay_init r service" relay_step "relay_ok r service" "pipe_step r" relay_to_local
  by (intro simulation.intro relaying.invariant_machine_axioms simulation_axioms.intro relay_step_pipes(1))

interpretation relay_tunnel: simulation "\<lambda>s. s = relay_init r service" relay_step "relay_ok r service" "pipe_step service" relay_to_tunnel
  by (intro simulation.intro relaying.invariant_machine_axioms simulation_axioms.intro relay_step_pipes(2))

lemma relay_start [simp]:
  "relay_to_local (relay_init r service) = fresh_pipe" "relay_to_tunnel (relay_init r service) = fresh_pipe"
  by (simp_all add: relay_to_local_def relay_to_tunnel_def relay_init_def fresh_pipe_def)


section \<open>Each goroutine is a pipe\<close>

text \<open>
  C20. The server carries an upgraded connection into the tunnel as a pipe does: every run of its three
  goroutines corresponds to a run of the abstract pipe over the bytes read before the upgrade followed
  by what the user sends, in which the pipe is cut when the method returns; so nothing is delivered
  after that.
\<close>

theorem proxyConnUpgraded_refines_pipe:
  assumes "proxyConnUpgraded requestBytes user es s"
  shows "\<exists>fs. run (pipe_step (requestBytes @ user)) fresh_pipe fs (carry_pipe s)"
proof -
  have "carry_pipe (proxyConnUpgraded_init requestBytes user) = fresh_pipe"
    by (simp add: carry_pipe_def proxyConnUpgraded_init_def proxyConn_init_def fresh_pipe_def)
  with carry_to_tunnel.refines [OF _ assms [unfolded proxyConnUpgraded_def], of requestBytes user]
  show ?thesis by (simp add: carry_initial_def)
qed

text \<open>The same of the client's relay, for both directions at once.\<close>

theorem relay_refines_pipes:
  assumes "run relay_step (relay_init r service) es s"
  shows "(\<exists>fs. run (pipe_step r) fresh_pipe fs (relay_to_local s)) \<and>
    (\<exists>fs. run (pipe_step service) fresh_pipe fs (relay_to_tunnel s))"
  using relay_local.refines [OF refl assms] relay_tunnel.refines [OF refl assms] by simp


section \<open>From the user to the service and back\<close>

text \<open>
  There is at most one response, and none before \<open>Do\<close> has returned; what the user was sent and what is still to be
  sent is its body.
\<close>

definition replied :: "carry_event list \<Rightarrow> carried \<Rightarrow> bool" where
  "replied es s \<longleftrightarrow>
     (\<forall>body. E_do (Inr body) \<in> set es \<longrightarrow> t_main s \<notin> {M_start, M_do} \<and> t_sent s @ t_resp s = body) \<and>
     ((\<forall>body. E_do (Inr body) \<notin> set es) \<longrightarrow> t_sent s = [] \<and> t_resp s = [])"

lemma replied_step: "carry s e t \<Longrightarrow> replied es s \<Longrightarrow> replied (e # es) t"
  by (erule carryE) (auto simp: replied_def returned_def)

lemma replied_cong: "replied es s \<Longrightarrow> set es = set fs \<Longrightarrow> replied fs s"
  by (simp add: replied_def)

lemma replied_run: "run carry s es t \<Longrightarrow> replied fs s \<Longrightarrow> replied (fs @ es) t"
proof (induction arbitrary: fs rule: run.induct)
  case (run_Cons s e t es u)
  from replied_cong [OF replied_step [OF run_Cons.hyps(1) run_Cons.prems], of "fs @ [e]"]
  have "replied (fs @ [e]) t" by simp
  from run_Cons.IH [OF this] show ?case by simp
qed simp

lemma proxyConn_ok:
  assumes "proxyConn user es s"
  shows "carry_ok [] user s" and "replied es s"
proof -
  show "carry_ok [] user s"
    using carrying.inv_reachable [OF _ assms [unfolded proxyConn_def]] by (simp add: carry_initial_def)
  have "replied [] (proxyConn_init user)" by (simp add: replied_def proxyConn_init_def)
  from replied_run [OF assms [unfolded proxyConn_def] this] show "replied es s" by simp
qed

text \<open>
  C8. A tunnelled connection is a pair of pipes between the public user and the local service. Of the
  HTTP/2 stream between server and client this uses that it delivers a beginning of what was written,
  in each direction. Then, at every moment and however the goroutines on both sides interleave, what the
  service has received is a beginning of what the user sends, and what the user has received is a beginning of
  what the service sends. When nothing is in flight any more, everything has arrived: the service has all that the
  user sends once the user, the stream and the client hold nothing back, and the user has all that the service sends
  once the client has read it all, the stream has delivered all of it as the body of the response, and the server
  has copied the whole body.
\<close>

theorem tunnelled_connection:
  assumes "proxyConn user es s" and "run relay_step (relay_init r service) fs c"
    and "prefix r (t_pipe s)" and "\<And>body. E_do (Inr body) \<in> set es \<Longrightarrow> prefix body (re_w c)"
  shows "prefix (re_local c) user \<and> prefix (t_sent s) service \<and>
    (t_writer s = W_none \<and> t_user s = [] \<and> r = t_pipe s \<and> re_r c = [] \<longrightarrow> re_local c = user) \<and>
    (re_service c = [] \<and> E_do (Inr (re_w c)) \<in> set es \<and> t_resp s = [] \<longrightarrow> t_sent s = service)"
proof -
  have relay: "re_local c @ re_r c = r" "re_w c @ re_service c = service"
    using relaying.inv_reachable [OF refl assms(2)] by (simp_all add: relay_ok_def)
  have carry: "carry_ok [] user s" "replied es s" using proxyConn_ok [OF assms(1)] .
  have "prefix (re_local c) r" "prefix (re_w c) service" using relay by (auto simp: prefix_def)
  moreover have "prefix (t_pipe s) user" using carry_prefix [OF carry(1)] by simp
  moreover have "prefix (t_sent s) (re_w c)"
  proof (cases "\<exists>body. E_do (Inr body) \<in> set es")
    case True
    with carry(2) assms(4) show ?thesis unfolding replied_def by (metis prefixI prefix_order.trans)
  next
    case False
    with carry(2) show ?thesis by (simp add: replied_def)
  qed
  moreover have "re_local c = user" if "t_writer s = W_none" "t_user s = []" "r = t_pipe s" "re_r c = []"
    using that carry(1) relay(1) by (auto simp: carry_ok_def carry_order_def)
  moreover have "t_sent s = service" if "re_service c = []" "E_do (Inr (re_w c)) \<in> set es" "t_resp s = []"
    using that carry(2) relay(2) by (auto simp: replied_def)
  ultimately show ?thesis using assms(3) by (meson prefix_order.trans)
qed


section \<open>Examples\<close>

definition demo_carried :: carried where
  "demo_carried = (proxyConn_init ''hello'')
     \<lparr>t_main := M_copy, t_copier := C_copy, t_pipe := ''hello'', t_user := [], t_sent := ''world''\<rparr>"

definition demo_carry_events :: "carry_event list" where
  "demo_carry_events = [E_request None, E_user 5, E_do (Inr ''world''), E_reply 5]"

lemma demo_carried_run: "proxyConn ''hello'' demo_carry_events demo_carried"
proof -
  let ?s1 = "(proxyConn_init ''hello'')\<lparr>t_main := M_do, t_copier := C_copy\<rparr>"
  let ?s2 = "?s1\<lparr>t_pipe := ''hello'', t_user := []\<rparr>"
  let ?s3 = "?s2\<lparr>t_main := M_copy, t_resp := ''world''\<rparr>"
  have "carry (proxyConn_init ''hello'') (E_request None) ?s1"
    using carry.request_made [of "proxyConn_init ''hello''"] by (simp add: proxyConn_init_def)
  moreover have "carry ?s1 (E_user 5) ?s2"
    using carry.user [of ?s1 5] by (simp add: proxyConn_init_def)
  moreover have "carry ?s2 (E_do (Inr ''world'')) ?s3"
    using carry.do_answered [of ?s2 "''world''"] by simp
  moreover have "carry ?s3 (E_reply 5) demo_carried"
    using carry.reply [of ?s3 5] by (simp add: proxyConn_init_def demo_carried_def)
  ultimately show ?thesis unfolding proxyConn_def demo_carry_events_def by (meson run_Cons run_Nil)
qed

lemma tunnelled_connection_witness:
  "\<exists>es c. run relay_step (relay_init ''hello'' ''world'') es c \<and> re_main c = R_done \<and> re_local c = ''hello'' \<and>
     t_sent demo_carried = ''world''"
proof -
  obtain es c where r: "run relay_step (relay_init ''hello'' ''world'') es c" "re_main c = R_done" "re_r c = []"
    "re_service c = []" "re_w c = ''world''"
    using relay_completes [of "''hello''" "''world''"] by (auto simp: relay_init_def)
  have "prefix ''hello'' (t_pipe demo_carried)" by (simp add: demo_carried_def)
  from tunnelled_connection [OF demo_carried_run r(1) this] r show ?thesis
    by (intro exI conjI) (auto simp: demo_carried_def demo_carry_events_def proxyConn_init_def)
qed

lemma relay_refines_pipes_witness:
  "\<exists>fs. run (pipe_step ''hello'') fresh_pipe fs \<lparr>bp_delivered = ''hello'', bp_open = False\<rparr>"
  using conjunct1 [OF relay_refines_pipes [OF relay_completes [of "''hello''" "''world''"]]]
  by (simp add: relay_to_local_def)

lemma proxyConnUpgraded_refines_pipe_witness:
  "\<exists>fs. run (pipe_step (''GET'' @ ''abc'')) fresh_pipe fs \<lparr>bp_delivered = ''GET'', bp_open = True\<rparr>"
proof -
  let ?s = "(proxyConnUpgraded_init ''GET'' ''abc'')\<lparr>t_pipe := ''GET'', t_writer := W_write []\<rparr>"
  have "carry (proxyConnUpgraded_init ''GET'' ''abc'') (E_first 3) ?s"
    using carry.first [of "proxyConnUpgraded_init ''GET'' ''abc''" "''GET''" 3]
    by (simp add: proxyConnUpgraded_init_def proxyConn_init_def)
  then have "proxyConnUpgraded ''GET'' ''abc'' [E_first 3] ?s"
    by (simp add: proxyConnUpgraded_def run_Cons_iff)
  from proxyConnUpgraded_refines_pipe [OF this] show ?thesis
    by (simp add: carry_pipe_def proxyConnUpgraded_init_def proxyConn_init_def)
qed

end
