(* ===== verification/Server_Links.thy ===== *)
theory Server_Links
  imports Server_Listen Server_Peers Tunnel_Stream
begin

text \<open>
  Public connections of TCP and SNI tunnels beside everything else the server does: each connection that
  an accept loop hands to \<open>proxyConn\<close> is carried by the goroutines of \<open>Server_Conn\<close>, while handlers,
  dead connections and \<open>Unsubscribe\<close> go on in the machine of \<open>Server_Steps\<close>. The request of a connection
  is sent over the HTTP/2 connection that the pool has for the client at that moment.
\<close>

section \<open>The machine\<close>

text \<open>
  \<open>ln_user\<close> is what the user sends, \<open>ln_via\<close> the client's connection that the pool gave for the request,
  \<open>ln_carried\<close> the state of the goroutines.
\<close>

record link =
  ln_client :: ident
  ln_listener :: listener
  ln_msg :: control_message
  ln_user :: string
  ln_via :: "nat option"
  ln_carried :: carried

record linked =
  lk_accept :: accepting
  lk_links :: "nat \<rightharpoonup> link"

datatype link_event = Accepting accept_event | Picked nat nat | Carrying nat carry_event

definition new_link ::
  "(listener \<Rightarrow> string) \<Rightarrow> (listener \<Rightarrow> string) \<Rightarrow> (nat \<Rightarrow> string) \<Rightarrow> ident \<Rightarrow> listener \<Rightarrow> incoming \<Rightarrow> link" where
  "new_link network address user i l c =
     \<lparr>ln_client = i, ln_listener = l, ln_msg = listen_message (network l) (address l) c, ln_user = user (in_conn c),
      ln_via = None, ln_carried = proxyConn_init (user (in_conn c))\<rparr>"

text \<open>
  \<open>Do\<close> first asks the pool for a connection of the client (\<open>picked\<close>), which waits for the pool's mutex; a response
  can only come over that one, an error also from the pool. \<open>Do\<close> has no timeout, so neither need ever come.
\<close>

inductive link_step ::
  "server_config \<Rightarrow> (listener \<Rightarrow> string) \<Rightarrow> (listener \<Rightarrow> string) \<Rightarrow> (nat \<Rightarrow> string) \<Rightarrow>
   linked \<Rightarrow> link_event \<Rightarrow> linked \<Rightarrow> bool"
  for cfg :: server_config and network :: "listener \<Rightarrow> string" and address :: "listener \<Rightarrow> string"
    and user :: "nat \<Rightarrow> string" where
  server: "accept_step cfg network address (lk_accept s) e t \<Longrightarrow> (\<And>i l c. e \<noteq> Loop i l (Inr c)) \<Longrightarrow>
    link_step cfg network address user s (Accepting e) (s\<lparr>lk_accept := t\<rparr>)"
| accepted: "accept_step cfg network address (lk_accept s) (Loop i l (Inr c)) t \<Longrightarrow>
    lk_links s (in_conn c) = None \<Longrightarrow>
    link_step cfg network address user s (Accepting (Loop i l (Inr c)))
      (s\<lparr>lk_accept := t, lk_links := (lk_links s)(in_conn c \<mapsto> new_link network address user i l c)\<rparr>)"
| picked: "lk_links s n = Some k \<Longrightarrow> t_main (ln_carried k) = M_do \<Longrightarrow> ln_via k = None \<Longrightarrow>
    sy_lock (al_sys (lk_accept s)) = None \<Longrightarrow> session_conn (ln_client k) (sy_pool (al_sys (lk_accept s))) = Some cp \<Longrightarrow>
    link_step cfg network address user s (Picked n (cp_conn cp))
      (s\<lparr>lk_links := (lk_links s)(n \<mapsto> k\<lparr>ln_via := Some (cp_conn cp)\<rparr>)\<rparr>)"
| carrying: "lk_links s n = Some k \<Longrightarrow> carry (ln_carried k) e t \<Longrightarrow>
    (\<And>body. e = E_do (Inr body) \<Longrightarrow> ln_via k \<noteq> None) \<Longrightarrow>
    link_step cfg network address user s (Carrying n e)
      (s\<lparr>lk_links := (lk_links s)(n \<mapsto> k\<lparr>ln_carried := t\<rparr>)\<rparr>)"

inductive_cases link_stepE: "link_step cfg network address user s e t"

text \<open>The events of the server and the acceptances among the events of a run.\<close>

definition server_events :: "link_event set \<Rightarrow> event set" where
  "server_events E = {e. Accepting (Sys e) \<in> E}"


section \<open>The invariant\<close>

text \<open>What was sent back came over the picked connection.\<close>

definition answered_by :: "link \<Rightarrow> bool" where
  "answered_by k \<longleftrightarrow>
     (t_main (ln_carried k) \<in> {M_copy, M_wait} \<or> t_sent (ln_carried k) @ t_resp (ln_carried k) \<noteq> [] \<longrightarrow> ln_via k \<noteq> None)"

definition link_ok :: "(listener \<Rightarrow> string) \<Rightarrow> (listener \<Rightarrow> string) \<Rightarrow> (nat \<Rightarrow> string) \<Rightarrow> nat set \<Rightarrow> link_event set \<Rightarrow> system \<Rightarrow> nat \<Rightarrow> link \<Rightarrow> bool" where
  "link_ok network address user base E s n k \<longleftrightarrow>
     (\<exists>c. Accepting (Loop (ln_client k) (ln_listener k) (Inr c)) \<in> E \<and> in_conn c = n \<and>
        ln_msg k = listen_message (network (ln_listener k)) (address (ln_listener k)) c) \<and>
     ln_user k = user n \<and> loop_ok base s (ln_client k, ln_listener k) \<and>
     carry_ok [] (user n) (ln_carried k) \<and> answered_by k \<and>
     (\<forall>d. ln_via k = Some d \<longrightarrow> (\<exists>env. proved (server_events E) d env (ln_client k)))"

definition links_ok :: "(listener \<Rightarrow> string) \<Rightarrow> (listener \<Rightarrow> string) \<Rightarrow> (nat \<Rightarrow> string) \<Rightarrow> nat set \<Rightarrow> link_event set \<Rightarrow> linked \<Rightarrow> bool" where
  "links_ok network address user base E s \<longleftrightarrow>
     loops_ok base (lk_accept s) \<and> system_proved (server_events E) (al_sys (lk_accept s)) \<and>
     (\<forall>n k. lk_links s n = Some k \<longrightarrow> link_ok network address user base E (al_sys (lk_accept s)) n k)"

lemma server_events_mono: "E \<subseteq> F \<Longrightarrow> server_events E \<subseteq> server_events F"
  by (auto simp: server_events_def)

lemma server_events_insert [simp]:
  "server_events (insert (Accepting (Sys e)) E) = insert e (server_events E)"
  "(\<And>e. f \<noteq> Accepting (Sys e)) \<Longrightarrow> server_events (insert f E) = server_events E"
  by (auto simp: server_events_def)

lemma link_ok_mono:
  assumes "link_ok network address user base E s n k" and "E \<subseteq> F"
  shows "link_ok network address user base F s n k"
proof -
  have "\<exists>env. proved (server_events F) d env (ln_client k)" if "ln_via k = Some d" for d
    using assms(1) that proved_mono [OF _ server_events_mono [OF assms(2)]] unfolding link_ok_def by blast
  with assms show ?thesis unfolding link_ok_def by blast
qed

lemma links_ok_record:
  assumes "links_ok network address user base E s" and "\<And>e'. e \<noteq> Accepting (Sys e')"
  shows "links_ok network address user base (insert e E) s"
proof -
  have "link_ok network address user base (insert e E) (al_sys (lk_accept s)) n k" if "lk_links s n = Some k" for n k
    by (rule link_ok_mono [of _ _ _ _ E]) (use assms(1) that in \<open>auto simp: links_ok_def\<close>)
  with assms show ?thesis by (simp add: links_ok_def)
qed

lemma answered_by_step:
  assumes "answered_by k" and "carry (ln_carried k) e t" and "\<And>body. e = E_do (Inr body) \<Longrightarrow> ln_via k \<noteq> None"
  shows "answered_by (k\<lparr>ln_carried := t\<rparr>)"
  using assms(2) assms(1,3) by cases (auto simp: answered_by_def returned_def)

lemma link_ok_new:
  assumes "(i, l) \<in> covered a" and "loops_ok base a"
  shows "link_ok network address user base (insert (Accepting (Loop i l (Inr c))) E) (al_sys a) (in_conn c)
    (new_link network address user i l c)"
proof -
  have "carry_ok [] (user (in_conn c)) (proxyConn_init (user (in_conn c)))"
    using carrying.inv_initial by (simp add: carry_initial_def)
  moreover have "loop_ok base (al_sys a) (i, l)" using assms by (auto simp: loops_ok_def)
  ultimately show ?thesis
    by (auto simp: link_ok_def new_link_def answered_by_def proxyConn_init_def)
qed


lemma accept_step_sys:
  assumes "accept_step cfg network address a e b"
  obtains (sys) e' where "e = Sys e'" "sys_step cfg (al_sys a) e' (al_sys b)"
    | (quiet) "\<And>e'. e \<noteq> Sys e'" "al_sys b = al_sys a"
  using assms by cases auto

lemma link_ok_sys:
  assumes "link_ok network address user base E s n k" and "sys_step cfg s e t"
  shows "link_ok network address user base E t n k"
  using assms loop_ok_sys [OF assms(2), of base "ln_client k" "ln_listener k"] by (simp add: link_ok_def)

text \<open>The server's part of the invariant, and all links, after a step of the server.\<close>

lemma links_ok_server:
  assumes "links_ok network address user base E s" and "accept_step cfg network address (lk_accept s) e a"
  shows "loops_ok base a" and "system_proved (server_events (insert (Accepting e) E)) (al_sys a)"
    and "lk_links s n = Some k \<Longrightarrow> link_ok network address user base (insert (Accepting e) E) (al_sys a) n k"
proof -
  let ?F = "insert (Accepting e) E"
  have old: "loops_ok base (lk_accept s)" "system_proved (server_events E) (al_sys (lk_accept s))"
    using assms(1) by (simp_all add: links_ok_def)
  have links: "link_ok network address user base ?F (al_sys (lk_accept s)) n k" if "lk_links s n = Some k"
    by (rule link_ok_mono [of _ _ _ _ E]) (use assms(1) that in \<open>auto simp: links_ok_def\<close>)
  show "loops_ok base a" using loops_ok_step [OF old(1) assms(2)] .
  show "system_proved (server_events ?F) (al_sys a)"
    using assms(2)
  proof (cases rule: accept_step_sys)
    case (sys e')
    with system_proved_step [OF old(2) sys(2)] show ?thesis by simp
  next
    case quiet
    with old(2) show ?thesis by simp
  qed
  show "link_ok network address user base ?F (al_sys a) n k" if "lk_links s n = Some k"
    using assms(2)
  proof (cases rule: accept_step_sys)
    case (sys e')
    from link_ok_sys [OF links [OF that] sys(2)] show ?thesis .
  next
    case quiet
    with links [OF that] show ?thesis by simp
  qed
qed

lemma links_ok_step:
  assumes ok: "links_ok network address user base E s" and "link_step cfg network address user s e t"
  shows "links_ok network address user base (insert e E) t"
  using assms(2)
proof cases
  case (server e' a)
  with links_ok_server [OF ok server(3)] show ?thesis by (simp add: links_ok_def)
next
  case (accepted i l c a)
  have "al_sys a = al_sys (lk_accept s)" "(i, l) \<in> covered a"
    using accepted(3) by (auto elim: accept_stepE simp: covered_def)
  with links_ok_server [OF ok accepted(3)] accepted(1,2) link_ok_new [of i l a base network address user c E]
  show ?thesis by (simp add: links_ok_def)
next
  case (picked n k cp)
  have old: "links_ok network address user base (insert e E) s"
    using ok by (rule links_ok_record) (simp add: picked(1))
  then have k: "link_ok network address user base (insert e E) (al_sys (lk_accept s)) n k"
    using picked(3) by (simp add: links_ok_def)
  have "\<exists>env. proved (server_events (insert e E)) (cp_conn cp) env (ln_client k)"
    using old picked(7) unfolding links_ok_def system_proved_def pool_proved_def session_conn_def by blast
  with k have "link_ok network address user base (insert e E) (al_sys (lk_accept s)) n (k\<lparr>ln_via := Some (cp_conn cp)\<rparr>)"
    by (simp add: link_ok_def answered_by_def)
  with old show ?thesis by (simp add: links_ok_def picked(2))
next
  case (carrying n k e' u)
  have old: "links_ok network address user base (insert e E) s"
    using ok by (rule links_ok_record) (simp add: carrying(1))
  then have k: "link_ok network address user base (insert e E) (al_sys (lk_accept s)) n k"
    using carrying(3) by (simp add: links_ok_def)
  have "link_ok network address user base (insert e E) (al_sys (lk_accept s)) n (k\<lparr>ln_carried := u\<rparr>)"
    using k answered_by_step [OF _ carrying(4,5)] carry_ok_step [OF _ carrying(4)] by (simp add: link_ok_def)
  with old show ?thesis by (simp add: links_ok_def carrying(2))
qed

definition links_initial :: "nat set \<Rightarrow> linked \<Rightarrow> bool" where
  "links_initial base s \<longleftrightarrow>
     accept_initial base (lk_accept s) \<and> fresh_server (al_sys (lk_accept s)) \<and> lk_links s = (\<lambda>n. None)"

interpretation linking: history_machine "links_initial base" "link_step cfg network address user"
    "links_ok network address user base"
proof (rule history_machine.intro)
  show "links_ok network address user base {} s" if "links_initial base s" for s
    using that accepted.inv_initial fresh_server_proved by (auto simp: links_initial_def links_ok_def)
qed (rule links_ok_step)


section \<open>Whom a public connection reaches\<close>

text \<open>
  C9. A public connection reaches the one client it is meant for, whatever else happens. In every
  interleaving of handlers, dead connections, \<open>Unsubscribe\<close>, accept loops and the goroutines of all
  connections, from a fresh server: a connection that is carried was accepted by a loop of its client, on a listener
  that is neither of the base nor in the item of any other client; its request goes over a TLS connection
  whose handshake has succeeded with the one certificate that the client is the hash of; what went into the tunnel is a beginning of
  what the user sent, and nothing comes back unless such a connection was found.
\<close>

theorem public_connection_isolated:
  assumes "links_initial base s" and "run (link_step cfg network address user) s es t" and "lk_links t n = Some k"
  shows "(\<exists>c. Accepting (Loop (ln_client k) (ln_listener k) (Inr c)) \<in> set es \<and> in_conn c = n \<and>
      ln_msg k = listen_message (network (ln_listener k)) (address (ln_listener k)) c) \<and>
    handle (ln_listener k) \<notin> base \<and>
    (\<forall>j. j \<noteq> ln_client k \<longrightarrow>
      handle (ln_listener k) \<notin> handles (item_listeners j (sy_world (al_sys (lk_accept t))))) \<and>
    (\<forall>d. ln_via k = Some d \<longrightarrow> (\<exists>env. Accepting (Sys (Accepted d env)) \<in> set es \<and> identified env (ln_client k))) \<and>
    prefix (t_pipe (ln_carried k)) (user n) \<and>
    (t_sent (ln_carried k) \<noteq> [] \<longrightarrow> ln_via k \<noteq> None)"
proof -
  have "links_ok network address user base (set es) t" using assms(1,2) by (rule linking.history_reachable)
  then have ok: "link_ok network address user base (set es) (al_sys (lk_accept t)) n k"
    using assms(3) by (simp add: links_ok_def)
  have via: "\<exists>env. Accepting (Sys (Accepted d env)) \<in> set es \<and> identified env (ln_client k)" if via: "ln_via k = Some d" for d
  proof -
    from ok via obtain env where "proved (server_events (set es)) d env (ln_client k)" by (auto simp: link_ok_def)
    from provedD [OF this] show ?thesis by (auto simp: server_events_def)
  qed
  have "prefix (t_pipe (ln_carried k)) (user n)" using ok carry_prefix by (fastforce simp: link_ok_def)
  moreover have "t_sent (ln_carried k) \<noteq> [] \<longrightarrow> ln_via k \<noteq> None" using ok by (auto simp: link_ok_def answered_by_def)
  ultimately show ?thesis using ok via unfolding link_ok_def loop_ok_def prod.case by blast
qed



section \<open>An example\<close>

definition demo_linked :: linked where
  "demo_linked = \<lparr>lk_accept = demo_accepting, lk_links = (\<lambda>n. None)\<rparr>"

lemma demo_linked_initial: "links_initial {0} demo_linked"
  using demo_accepting_initial demo_fresh by (simp add: links_initial_def demo_linked_def demo_accepting_def)

lemma lift_server_run:
  "run (accept_step cfg network address) (lk_accept s) es b \<Longrightarrow> \<forall>i l c. Loop i l (Inr c) \<notin> set es \<Longrightarrow>
   run (link_step cfg network address user) s (map Accepting es) (s\<lparr>lk_accept := b\<rparr>)"
proof (induction es arbitrary: s)
  case (Cons e es)
  then obtain c where c: "accept_step cfg network address (lk_accept s) e c"
    "run (accept_step cfg network address) c es b"
    by (auto simp: run_Cons_iff)
  have "link_step cfg network address user s (Accepting e) (s\<lparr>lk_accept := c\<rparr>)"
    by (rule link_step.server [OF c(1)]) (use Cons.prems(2) in auto)
  moreover from Cons.IH [of "s\<lparr>lk_accept := c\<rparr>"] c(2) Cons.prems(2)
  have "run (link_step cfg network address user) (s\<lparr>lk_accept := c\<rparr>) (map Accepting es) (s\<lparr>lk_accept := b\<rparr>)"
    by simp
  ultimately show ?case by (simp add: run.run_Cons)
qed simp

text \<open>A visitor is accepted, the request is made, and the pool gives the client's connection for it.\<close>

lemma public_connection_isolated_witness:
  "\<exists>es t k. run (link_step (demo_cfg True) (\<lambda>l. ''tcp'') (\<lambda>l. ''[::]:1'') (\<lambda>n. ''hello'')) demo_linked es t \<and>
     lk_links t 9 = Some k \<and> ln_via k = Some 7 \<and> handle (ln_listener k) \<noteq> 0 \<and>
     (\<exists>env. Accepting (Sys (Accepted 7 env)) \<in> set es \<and> identified env (ln_client k))"
proof -
  let ?network = "\<lambda>l :: listener. ''tcp''" and ?address = "\<lambda>l :: listener. ''[::]:1''" and ?user = "\<lambda>n :: nat. ''hello''"
  let ?step = "link_step (demo_cfg True) ?network ?address ?user"
  let ?e = "Loop zero_ident (NetListener 1) (Inr demo_visitor)"
  obtain es n g a where
    run: "run (accept_step (demo_cfg True) ?network ?address) demo_accepting (map Sys es @ replicate n (Launch g)) a"
    and a: "(zero_ident, NetListener 1) \<in> al_loops a" "w_listeners (sy_world (al_sys a)) = {0, 1}"
      "session_conn zero_ident (sy_pool (al_sys a)) = Some \<lparr>cp_conn = 7, clientConn = 7\<rparr>" "sy_lock (al_sys a) = None"
    using demo_accepting_run by blast
  let ?s = "demo_linked\<lparr>lk_accept := a\<rparr>"
  have first: "run ?step demo_linked (map Accepting (map Sys es @ replicate n (Launch g))) ?s"
    using run by (intro lift_server_run) (auto simp: demo_linked_def)
  from accept_step.conn [OF a(1), where c = demo_visitor] a(2) obtain b where
    b: "accept_step (demo_cfg True) ?network ?address a ?e b" "al_sys b = al_sys a" by fastforce
  let ?k = "new_link ?network ?address ?user zero_ident (NetListener 1) demo_visitor"
  let ?s1 = "?s\<lparr>lk_accept := b, lk_links := (lk_links ?s)(9 \<mapsto> ?k)\<rparr>"
  have nine: "in_conn demo_visitor = 9" by (simp add: demo_visitor_def)
  have "?step ?s (Accepting ?e) ?s1"
    using link_step.accepted [of "demo_cfg True" ?network ?address ?s zero_ident "NetListener 1" demo_visitor b ?user] b(1)
    by (simp add: nine demo_linked_def)
  moreover
  let ?k2 = "?k\<lparr>ln_carried := (ln_carried ?k)\<lparr>t_main := M_do, t_copier := C_copy\<rparr>\<rparr>"
  let ?s2 = "?s1\<lparr>lk_links := (lk_links ?s1)(9 \<mapsto> ?k2)\<rparr>"
  have "carry (ln_carried ?k) (E_request None) ((ln_carried ?k)\<lparr>t_main := M_do, t_copier := C_copy\<rparr>)"
    using carry.request_made [of "ln_carried ?k"] by (simp add: new_link_def proxyConn_init_def)
  then have "?step ?s1 (Carrying 9 (E_request None)) ?s2" by (intro link_step.carrying) simp_all
  moreover
  let ?k3 = "?k2\<lparr>ln_via := Some 7\<rparr>"
  let ?s3 = "?s2\<lparr>lk_links := (lk_links ?s2)(9 \<mapsto> ?k3)\<rparr>"
  have "?step ?s2 (Picked 9 7) ?s3"
    using link_step.picked [of ?s2 9 ?k2 "\<lparr>cp_conn = 7, clientConn = 7\<rparr>" "demo_cfg True" ?network ?address ?user] a(3,4) b(2)
    by (simp add: new_link_def)
  ultimately have "run ?step ?s [Accepting ?e, Carrying 9 (E_request None), Picked 9 7] ?s3"
    by (meson run_Cons run_Nil)
  from run_append [OF first this] obtain fs where fs: "run ?step demo_linked fs ?s3" by blast
  have k: "lk_links ?s3 9 = Some ?k3" by simp
  note isolated = public_connection_isolated [OF demo_linked_initial fs k]
  have "ln_via ?k3 = Some 7" by simp
  with isolated have "\<exists>env. Accepting (Sys (Accepted 7 env)) \<in> set fs \<and> identified env (ln_client ?k3)" by blast
  moreover from isolated have "handle (ln_listener ?k3) \<noteq> 0" by simp
  ultimately show ?thesis using fs k \<open>ln_via ?k3 = Some 7\<close> by blast
qed

end
