(* ===== verification/Server_Upload.thy ===== *)
theory Server_Upload
  imports Server_Http "HOL-Library.Sublist"
begin

text \<open>
  The goroutines of \<open>proxyHTTP\<close> (\<open>server.go\<close>): one writes the public request into a pipe that is the
  body of the tunnel's request, the other waits for the response and closes the pipe when it returns.
  \<open>proxyHTTP\<close> in \<open>Server_Http\<close> is the value that is returned; here is what reaches the client.
\<close>

section \<open>The two goroutines\<close>

text \<open>
  \<open>U_start\<close> is the method before \<open>connectRequest\<close>; the writer exists from then on. \<open>up_rest\<close> are the
  bytes of the request that \<open>Request.Write\<close> has not yet written, \<open>up_pipe\<close> those the transport took
  from the pipe, \<open>up_body_open\<close> says that the body of the public request is still to be closed.
\<close>

datatype upload_main = U_start | U_do | U_done "go_error + response"
datatype upload_writer = UW_none | UW_write | UW_body | UW_done

record upload =
  up_main :: upload_main
  up_writer :: upload_writer
  up_rest :: string
  up_pipe :: string
  up_count :: int
  up_pipe_open :: bool
  up_body_open :: bool

definition upload_init :: "http_env \<Rightarrow> request \<Rightarrow> upload" where
  "upload_init env r =
     \<lparr>up_main = U_start, up_writer = UW_none, up_rest = he_Write env r, up_pipe = [], up_count = 0,
      up_pipe_open = True, up_body_open = (req_Body r \<noteq> None)\<rparr>"

text \<open>The deferred calls close both ends of the pipe.\<close>

definition upload_returned :: "go_error + response \<Rightarrow> upload \<Rightarrow> upload" where
  "upload_returned res s = s\<lparr>up_main := U_done res, up_pipe_open := False\<rparr>"

text \<open>
  \<open>UE_request\<close> is the answer of \<open>connectRequest\<close>, \<open>UE_bytes n\<close> a read of at most \<open>n\<close> bytes by the transport,
  \<open>UE_written\<close> the end of \<open>Request.Write\<close>: everything is written, the pipe is closed, or reading the
  body failed.
\<close>

datatype upload_event =
    UE_request "go_error option"
  | UE_bytes nat
  | UE_written "go_error option"
  | UE_close_body
  | UE_do "go_error + response"

inductive upload_step :: "upload \<Rightarrow> upload_event \<Rightarrow> upload \<Rightarrow> bool" where
  request_failed: "up_main s = U_start \<Longrightarrow>
    upload_step s (UE_request (Some err))
      (upload_returned (Inl (Errorf (''proxy request error: '' @ error_text err))) s)"
| request_made: "up_main s = U_start \<Longrightarrow>
    upload_step s (UE_request None) (s\<lparr>up_main := U_do, up_writer := UW_write\<rparr>)"
| bytes: "up_writer s = UW_write \<Longrightarrow> up_pipe_open s \<Longrightarrow>
    upload_step s (UE_bytes n)
      (s\<lparr>up_pipe := up_pipe s @ take n (up_rest s), up_rest := drop n (up_rest s),
         up_count := snd (countWriter_Write (\<lambda>p. (length p, None)) (take n (up_rest s)) (up_count s))\<rparr>)"
| written: "up_writer s = UW_write \<Longrightarrow> err = None \<longrightarrow> up_rest s = [] \<Longrightarrow>
    upload_step s (UE_written err) (s\<lparr>up_writer := UW_body\<rparr>)"
| close_body: "up_writer s = UW_body \<Longrightarrow>
    upload_step s UE_close_body (s\<lparr>up_writer := UW_done, up_body_open := False\<rparr>)"
| do_failed: "up_main s = U_do \<Longrightarrow>
    upload_step s (UE_do (Inl err)) (upload_returned (Inl (Errorf (''io error: '' @ error_text err))) s)"
| do_answered: "up_main s = U_do \<Longrightarrow>
    upload_step s (UE_do (Inr resp)) (upload_returned (Inr resp) s)"

inductive_cases upload_stepE: "upload_step s e t"

text \<open>What the pipe got and what is left make up the request; the pipe is open until the return.\<close>

definition upload_ok :: "string \<Rightarrow> upload \<Rightarrow> bool" where
  "upload_ok wire s \<longleftrightarrow>
     up_pipe s @ up_rest s = wire \<and> up_count s = int (length (up_pipe s)) \<and>
     (up_pipe_open s \<longleftrightarrow> (\<forall>res. up_main s \<noteq> U_done res))"

interpretation uploading: invariant_machine "\<lambda>s. s = upload_init env r" upload_step "upload_ok (he_Write env r)"
proof (rule invariant_machine.intro)
  show "upload_ok (he_Write env r) s" if "s = upload_init env r" for s
    using that by (simp add: upload_ok_def upload_init_def)
  show "upload_ok (he_Write env r) t" if "upload_ok (he_Write env r) s" "upload_step s e t" for s e t
    using that(2,1) by cases (auto simp: upload_ok_def upload_returned_def countWriter_Write_def)
qed

lemma upload_ok_prefix: "upload_ok wire s \<Longrightarrow> prefix (up_pipe s) wire"
  by (auto simp: upload_ok_def)

lemma upload_returned_keeps:
  "run upload_step s es t \<Longrightarrow> up_main s = U_done res \<Longrightarrow> \<not> up_pipe_open s \<Longrightarrow>
   up_main t = U_done res \<and> up_pipe t = up_pipe s"
proof (induction rule: run.induct)
  case (run_Cons s e t es u)
  from run_Cons.hyps(1) run_Cons.prems have "up_main t = U_done res \<and> \<not> up_pipe_open t \<and> up_pipe t = up_pipe s"
    by (auto elim!: upload_stepE)
  with run_Cons.IH show ?case by simp
qed simp


section \<open>What reaches the client\<close>

text \<open>
  C23. However the two goroutines of a proxied request interleave, the client receives a beginning of the
  request as it is on the wire, and the byte counter is right; once the method has returned, nothing
  more is sent and what it returned stays.
\<close>

theorem proxied_request_prefix:
  assumes "run upload_step (upload_init env r) es s"
  shows "prefix (up_pipe s) (he_Write env r) \<and> up_count s = int (length (up_pipe s)) \<and>
    (\<forall>res fs t. up_main s = U_done res \<longrightarrow> run upload_step s fs t \<longrightarrow>
       up_pipe t = up_pipe s \<and> up_main t = U_done res)"
proof -
  have ok: "upload_ok (he_Write env r) s"
    using uploading.inv_reachable [OF refl assms] .
  show ?thesis
  proof (intro conjI allI impI)
    from ok show "prefix (up_pipe s) (he_Write env r)" by (rule upload_ok_prefix)
    from ok show "up_count s = int (length (up_pipe s))" by (simp add: upload_ok_def)
    fix res fs t assume "up_main s = U_done res" and "run upload_step s fs t"
    with ok show "up_pipe t = up_pipe s" "up_main t = U_done res"
      using upload_returned_keeps [of s fs t res] by (simp_all add: upload_ok_def)
  qed
qed

text \<open>
  C32. A client that answers early cuts the request short: for every point of the request there is a run
  in which the method returns the client's response at this point, and then the rest of the request is
  never sent, whatever follows.
\<close>

theorem early_answer_cuts_request:
  assumes "he_Write env r = sent @ rest"
  shows "\<exists>s. run upload_step (upload_init env r) [UE_request None, UE_bytes (length sent), UE_do (Inr resp)] s \<and>
    up_main s = U_done (Inr resp) \<and> up_pipe s = sent \<and>
    (\<forall>fs t. run upload_step s fs t \<longrightarrow> up_pipe t = sent)"
proof -
  let ?s1 = "(upload_init env r)\<lparr>up_main := U_do, up_writer := UW_write\<rparr>"
  let ?s2 = "?s1\<lparr>up_pipe := sent, up_rest := rest, up_count := int (length sent)\<rparr>"
  let ?s = "upload_returned (Inr resp) ?s2"
  have "upload_step (upload_init env r) (UE_request None) ?s1"
    by (rule upload_step.request_made) (simp add: upload_init_def)
  moreover have "upload_step ?s1 (UE_bytes (length sent)) ?s2"
    using upload_step.bytes [of ?s1 "length sent"] assms
    by (simp add: upload_init_def countWriter_Write_def)
  moreover have "upload_step ?s2 (UE_do (Inr resp)) ?s"
    by (rule upload_step.do_answered) simp
  ultimately have "run upload_step (upload_init env r) [UE_request None, UE_bytes (length sent), UE_do (Inr resp)] ?s"
    by (meson run_Cons run_Nil)
  moreover have ret: "up_main ?s = U_done (Inr resp)" "up_pipe ?s = sent" "\<not> up_pipe_open ?s"
    by (simp_all add: upload_returned_def)
  moreover have "up_pipe t = sent" if "run upload_step ?s fs t" for fs t
    using upload_returned_keeps [OF that ret(1,3)] ret(2) by simp
  ultimately show ?thesis by blast
qed

definition demo_response :: response where
  "demo_response = \<lparr>resp_StatusCode = 413, resp_Status = ''413 Request Entity Too Large'', resp_Header = (\<lambda>_. None),
     resp_ContentLength = 0, resp_Body = []\<rparr>"

definition demo_upload :: upload where
  "demo_upload = upload_init (demo_http_env\<lparr>he_Write := (\<lambda>r. ''GET / HTTP/1.1'')\<rparr>) empty_request"

lemma early_answer_cuts_request_witness:
  "\<exists>s. run upload_step demo_upload [UE_request None, UE_bytes (length ''GET''), UE_do (Inr demo_response)] s \<and>
     up_pipe s = ''GET''"
  unfolding demo_upload_def
  using early_answer_cuts_request [of "demo_http_env\<lparr>he_Write := (\<lambda>r. ''GET / HTTP/1.1'')\<rparr>" empty_request "''GET''"
      "'' / HTTP/1.1''" demo_response] by auto

lemma proxied_request_prefix_witness:
  "\<exists>s. run upload_step demo_upload [UE_request None] s \<and> prefix (up_pipe s) ''GET / HTTP/1.1''"
proof -
  have "upload_step demo_upload (UE_request None) (demo_upload\<lparr>up_main := U_do, up_writer := UW_write\<rparr>)"
    by (rule upload_step.request_made) (simp add: demo_upload_def upload_init_def)
  then have r: "run upload_step demo_upload [UE_request None] (demo_upload\<lparr>up_main := U_do, up_writer := UW_write\<rparr>)"
    by (simp add: run_Cons_iff)
  from proxied_request_prefix [OF r [unfolded demo_upload_def]] r show ?thesis
    by (intro exI [of _ "demo_upload\<lparr>up_main := U_do, up_writer := UW_write\<rparr>"]) (simp add: demo_upload_def)
qed

end
