(* ===== verification/Server_Requests.thy ===== *)
theory Server_Requests
  imports Server_Links Server_Upload
begin

text \<open>
  Public HTTP requests beside everything else the server does: the goroutine of each call of
  \<open>ServeHTTP\<close> reads the registry at one moment, asks the pool for a connection at a later one, and
  answers the user when \<open>proxyHTTP\<close> has returned; its writer goes on as in \<open>Server_Upload\<close>.
\<close>

section \<open>The machine\<close>

text \<open>
  \<open>sv_route\<close> is what \<open>RoundTrip\<close> found in the registry, \<open>sv_via\<close> the client's connection that the pool
  gave for the request of the tunnel, \<open>sv_upload\<close> the state of \<open>proxyHTTP\<close>, \<open>sv_answer\<close> what the user got.
\<close>

record served =
  sv_env :: http_env
  sv_header :: header
  sv_request :: request
  sv_route :: "(go_error + ident \<times> request \<times> control_message) option"
  sv_via :: "nat option"
  sv_upload :: "upload option"
  sv_answer :: "user_response option"

definition new_served :: "http_env \<Rightarrow> header \<Rightarrow> request \<Rightarrow> served" where
  "new_served env h r =
     \<lparr>sv_env = env, sv_header = h, sv_request = r, sv_route = None, sv_via = None, sv_upload = None, sv_answer = None\<rparr>"

definition route_served :: "listener registry \<Rightarrow> served \<Rightarrow> served" where
  "route_served reg q =
     (let x = route_request reg (sv_request q)
      in q\<lparr>sv_route := Some x,
           sv_upload := (case x of Inl err \<Rightarrow> None | Inr (i, outr, msg) \<Rightarrow> Some (upload_init (sv_env q) outr))\<rparr>)"

text \<open>The result of \<open>RoundTrip\<close>, once it has returned.\<close>

definition served_result :: "served \<Rightarrow> (go_error + response) option" where
  "served_result q =
     (case sv_route q of
        None \<Rightarrow> None
      | Some (Inl err) \<Rightarrow> Some (Inl err)
      | Some (Inr x) \<Rightarrow>
          (case sv_upload q of
             Some u \<Rightarrow> (case up_main u of U_done res \<Rightarrow> Some res | _ \<Rightarrow> None)
           | None \<Rightarrow> None))"

text \<open>
  \<open>connectRequest\<close> answers what it computes; the transport takes bytes of the body, and has a response or
  an error of the network, only when it has a connection.
\<close>

fun may_upload :: "served \<Rightarrow> upload_event \<Rightarrow> bool" where
  "may_upload q (UE_request err) \<longleftrightarrow>
     (case sv_route q of
        Some (Inr (i, outr, msg)) \<Rightarrow>
          err = (case connectRequest (sv_env q) i msg [] of Inl e \<Rightarrow> Some e | Inr req \<Rightarrow> None)
      | _ \<Rightarrow> False)"
| "may_upload q (UE_bytes n) \<longleftrightarrow> sv_via q \<noteq> None"
| "may_upload q (UE_do res) \<longleftrightarrow> sv_via q \<noteq> None"
| "may_upload q _ \<longleftrightarrow> True"

datatype serve_event =
    Routed
  | Asked "(nat, nat, world) http2_env" go_error
  | Uploading upload_event
  | Answered

text \<open>
  The steps of one call in a state of the server. \<open>Do\<close> asks the pool (\<open>Asked\<close>), which takes the pool's mutex:
  \<open>GetClientConn\<close> finds the client's connection when that can take a new request, or \<open>Do\<close> fails with its
  error in the words of \<open>net/http\<close>. Until the first byte of the body the transport may ask again, when the
  connection it got cannot be used. From then on the call waits for the network: \<open>Do\<close> has no timeout.
\<close>

inductive serve_step :: "system \<Rightarrow> served \<Rightarrow> serve_event \<Rightarrow> served \<Rightarrow> bool"
  for s :: system where
  routed: "sv_route q = None \<Longrightarrow> serve_step s q Routed (route_served (w_reg (sy_world s)) q)"
| taken: "sv_route q = Some (Inr (i, outr, msg)) \<Longrightarrow> sv_upload q = Some u \<Longrightarrow> up_main u = U_do \<Longrightarrow>
    up_pipe u = [] \<Longrightarrow> sy_lock s = None \<Longrightarrow> session_conn i (sy_pool s) = Some cp \<Longrightarrow>
    GetClientConn h (pool_addr i) (sy_pool s) = Inr (clientConn cp) \<Longrightarrow>
    serve_step s q (Asked h e) (q\<lparr>sv_via := Some (cp_conn cp)\<rparr>)"
| unavailable: "sv_route q = Some (Inr (i, outr, msg)) \<Longrightarrow> sv_upload q = Some u \<Longrightarrow> up_main u = U_do \<Longrightarrow>
    up_pipe u = [] \<Longrightarrow> sy_lock s = None \<Longrightarrow> GetClientConn h (pool_addr i) (sy_pool s) = Inl err \<Longrightarrow>
    upload_step u (UE_do (Inl e)) v \<Longrightarrow>
    serve_step s q (Asked h e) (q\<lparr>sv_upload := Some v\<rparr>)"
| uploading: "sv_upload q = Some u \<Longrightarrow> upload_step u e v \<Longrightarrow> may_upload q e \<Longrightarrow>
    serve_step s q (Uploading e) (q\<lparr>sv_upload := Some v\<rparr>)"
| answered: "served_result q = Some res \<Longrightarrow> sv_answer q = None \<Longrightarrow>
    serve_step s q Answered
      (q\<lparr>sv_answer := Some (answer_user (sv_env q) (sv_header q) (sv_request q) res)\<rparr>)"

record serving =
  sg_linked :: linked
  sg_requests :: "nat \<rightharpoonup> served"

definition sg_sys :: "serving \<Rightarrow> system" where
  "sg_sys s = al_sys (lk_accept (sg_linked s))"

definition sg_registry :: "serving \<Rightarrow> listener registry" where
  "sg_registry s = w_reg (sy_world (sg_sys s))"

datatype request_event = Linking link_event | Arrived nat http_env header request | Serving nat serve_event

inductive request_step ::
  "server_config \<Rightarrow> (listener \<Rightarrow> string) \<Rightarrow> (listener \<Rightarrow> string) \<Rightarrow> (nat \<Rightarrow> string) \<Rightarrow>
   serving \<Rightarrow> request_event \<Rightarrow> serving \<Rightarrow> bool"
  for cfg :: server_config and network :: "listener \<Rightarrow> string" and address :: "listener \<Rightarrow> string"
    and user :: "nat \<Rightarrow> string" where
  linking: "link_step cfg network address user (sg_linked s) e t \<Longrightarrow>
    request_step cfg network address user s (Linking e) (s\<lparr>sg_linked := t\<rparr>)"
| arrived: "sg_requests s n = None \<Longrightarrow>
    request_step cfg network address user s (Arrived n env h r)
      (s\<lparr>sg_requests := (sg_requests s)(n \<mapsto> new_served env h r)\<rparr>)"
| serving: "sg_requests s n = Some q \<Longrightarrow> serve_step (sg_sys s) q e q' \<Longrightarrow>
    request_step cfg network address user s (Serving n e) (s\<lparr>sg_requests := (sg_requests s)(n \<mapsto> q')\<rparr>)"

inductive_cases request_stepE: "request_step cfg network address user s e t"


section \<open>One call\<close>

definition authorised :: "auth option \<Rightarrow> request \<Rightarrow> bool" where
  "authorised auth r = (case auth of None \<Rightarrow> True | Some a \<Rightarrow> BasicAuth (req_Header r) = (User a, Password a, True))"

text \<open>The client asked for the host, and the request has the host's credential.\<close>

definition routed_for :: "event set \<Rightarrow> request \<Rightarrow> ident \<times> request \<times> control_message \<Rightarrow> bool" where
  "routed_for E r = (\<lambda>(i, outr, msg). \<exists>h. asked E i h \<and> trimPort (ha_Host h) = trimPort (req_Host r) \<and>
     authorised (ha_Auth h) r \<and>
     outr = (if req_ContentLength r = 0 then r\<lparr>req_Body := None\<rparr> else r)\<lparr>req_Header := out_header (ha_Auth h) r\<rparr> \<and>
     msg = \<lparr>Action = ActionProxy, ForwardedHost = req_Host r, ForwardedProto = request_scheme r, RemoteAddr = []\<rparr>)"

lemma routed_for_mono: "routed_for E r x \<Longrightarrow> E \<subseteq> F \<Longrightarrow> routed_for F r x"
  unfolding routed_for_def by (auto intro: asked_mono)

lemma route_request_for:
  assumes "system_proved E s" and "route_request (w_reg (sy_world s)) r = Inr x"
  shows "routed_for E r x"
proof -
  obtain i outr msg where x: "x = (i, outr, msg)" by (cases x)
  from assms(2) [unfolded x] show ?thesis
  proof (cases rule: route_request_InrD)
    case (1 auth ok)
    then obtain hi where hi: "hosts (w_reg (sy_world s)) (trimPort (req_Host r)) = Some hi" "hi_identifier hi = i"
      "hi_auth hi = auth" by (auto simp: Subscriber_def split: option.splits)
    with assms(1) obtain h where h: "asked E i h" "trimPort (ha_Host h) = trimPort (req_Host r)" "ha_Auth h = auth"
      and good: "good_auth auth" unfolding system_proved_def hosts_proved_def by blast
    have "authorised auth r"
      using 1(2) good BasicAuth_not_ok [of "req_Header r" "User (the auth)" "Password (the auth)"]
      by (cases ok) (auto simp: authorised_def good_auth_def split: option.splits)
    with h 1(3,4) show ?thesis by (auto simp: routed_for_def x)
  qed
qed

text \<open>The tunnel that the request is for, and what becomes of its credential.\<close>

definition asked_tunnel :: "request \<Rightarrow> request \<Rightarrow> tunnel \<Rightarrow> bool" where
  "asked_tunnel r outr tun \<longleftrightarrow> Protocol tun = HTTP \<and> trimPort (tunnel_Host tun) = trimPort (req_Host r) \<and>
     (case NewAuth (tunnel_Auth tun) of
        None \<Rightarrow> header_get (req_Header outr) ''Authorization'' = header_get (req_Header r) ''Authorization''
      | Some a \<Rightarrow> BasicAuth (req_Header r) = (User a, Password a, True) \<and>
          header_get (req_Header outr) ''Authorization'' = [])"

lemma routed_for_tunnel:
  assumes "routed_for E r (i, outr, msg)"
  shows "\<exists>c env ts name tun. Accepted c env \<in> E \<and> identified env i \<and> handshake env i = Inr ts \<and> (name, Some tun) \<in> set ts \<and> asked_tunnel r outr tun"
proof -
  from assms obtain h where h: "asked E i h" "trimPort (ha_Host h) = trimPort (req_Host r)"
    "authorised (ha_Auth h) r" "req_Header outr = out_header (ha_Auth h) r"
    by (auto simp: routed_for_def)
  obtain c env ts name tun where p: "proved E c env i" "handshake env i = Inr ts" "(name, Some tun) \<in> set ts" "Protocol tun = HTTP"
    "h = \<lparr>ha_Host = tunnel_Host tun, ha_Auth = NewAuth (tunnel_Auth tun)\<rparr>"
    using h(1) by (fastforce simp: asked_def tunnel_hosts_def split: option.splits if_splits)
  have "asked_tunnel r outr tun"
    using h(2-4) p(4,5) by (simp add: asked_tunnel_def authorised_def out_header_get split: option.splits)
  with p(2,3) provedD [OF p(1)] show ?thesis by blast
qed

text \<open>What \<open>proxyHTTP\<close> returned is what it returns for some answer of the transport.\<close>

definition proxied :: "http_env \<Rightarrow> ident \<times> request \<times> control_message \<Rightarrow> upload \<Rightarrow> bool" where
  "proxied env = (\<lambda>(i, outr, msg) u.
     upload_ok (he_Write env outr) u \<and>
     (up_main u = U_do \<longrightarrow> (\<exists>req. connectRequest env i msg (he_Write env outr) = Inr req)) \<and>
     (\<forall>res. up_main u = U_done res \<longrightarrow> (\<exists>x. res = proxyHTTP (env\<lparr>he_Do := (\<lambda>req. x)\<rparr>) i outr msg)))"

definition served_ok :: "event set \<Rightarrow> served \<Rightarrow> bool" where
  "served_ok E q \<longleftrightarrow>
     (case sv_route q of
        Some (Inr x) \<Rightarrow> routed_for E (sv_request q) x \<and> (\<exists>u. sv_upload q = Some u \<and> proxied (sv_env q) x u \<and>
          (sv_via q = None \<longrightarrow> up_pipe u = [] \<and> (\<forall>resp. up_main u \<noteq> U_done (Inr resp)))) \<and>
          (\<forall>d. sv_via q = Some d \<longrightarrow> (\<exists>env. proved E d env (fst x)))
      | _ \<Rightarrow> sv_upload q = None \<and> sv_via q = None) \<and>
     (\<forall>a. sv_answer q = Some a \<longrightarrow>
        (\<exists>res. served_result q = Some res \<and> a = answer_user (sv_env q) (sv_header q) (sv_request q) res))"

lemma served_ok_mono:
  assumes "served_ok E q" and "E \<subseteq> F"
  shows "served_ok F q"
proof -
  have "\<exists>env. proved F d env i" if "\<exists>env. proved E d env i" for d i using that proved_mono assms(2) by blast
  with assms(1) routed_for_mono [OF _ assms(2)] show ?thesis
    by (auto simp: served_ok_def split: option.splits sum.splits)
qed

lemma connectRequest_do [simp]: "connectRequest (env\<lparr>he_Do := f\<rparr>) = connectRequest env"
  by (rule ext)+ (simp add: connectRequest_def)

lemma answer_user_do: "answer_user (env\<lparr>he_Do := f\<rparr>) = answer_user env"
  by (rule ext)+ (simp add: answer_user_def split: sum.split)

lemma connectRequest_error:
  "(case connectRequest env i msg b of Inl e \<Rightarrow> Some e | Inr req \<Rightarrow> None) =
   (case connectRequest env i msg b' of Inl e \<Rightarrow> Some e | Inr req \<Rightarrow> None)"
  by (simp add: connectRequest_def Let_def split: option.split)

lemma proxied_init: "proxied env (i, outr, msg) (upload_init env outr)"
  using uploading.inv_initial [OF refl, of env outr] by (simp add: proxied_def) (simp add: upload_init_def)

lemma proxied_step:
  assumes "proxied env (i, outr, msg) u" and "upload_step u e v"
    and "\<And>err. e = UE_request err \<Longrightarrow> err = (case connectRequest env i msg [] of Inl e \<Rightarrow> Some e | Inr req \<Rightarrow> None)"
  shows "proxied env (i, outr, msg) v"
proof -
  have ok: "upload_ok (he_Write env outr) v"
    using uploading.inv_step [of env outr u e v] assms(1,2) by (simp add: proxied_def)
  have err: "err = (case connectRequest env i msg (he_Write env outr) of Inl e \<Rightarrow> Some e | Inr req \<Rightarrow> None)"
    if "e = UE_request err" for err
    using assms(3) [OF that] connectRequest_error [of env i msg "[]"] by simp
  from assms(2) show ?thesis
  proof cases
    case (request_failed err)
    with err [OF request_failed(1)] have "proxyHTTP (env\<lparr>he_Do := (\<lambda>req. x)\<rparr>) i outr msg =
        Inl (Errorf (''proxy request error: '' @ error_text err))" for x
      by (simp add: proxyHTTP_def split: sum.splits)
    with ok request_failed show ?thesis by (simp add: proxied_def upload_returned_def)
  next
    case request_made
    with err [OF request_made(1)] ok show ?thesis by (simp add: proxied_def split: sum.splits)
  next
    case (do_failed err)
    with assms(1) have "proxyHTTP (env\<lparr>he_Do := (\<lambda>req. Inl err)\<rparr>) i outr msg = Inl (Errorf (''io error: '' @ error_text err))"
      by (auto simp: proxied_def proxyHTTP_def)
    from this [symmetric] ok do_failed show ?thesis by (auto simp: proxied_def upload_returned_def)
  next
    case (do_answered resp)
    with assms(1) have "proxyHTTP (env\<lparr>he_Do := (\<lambda>req. Inr resp)\<rparr>) i outr msg = Inr resp"
      by (auto simp: proxied_def proxyHTTP_def)
    from this [symmetric] ok do_answered show ?thesis by (auto simp: proxied_def upload_returned_def)
  qed (use assms(1) ok in \<open>simp_all add: proxied_def\<close>)
qed

lemma served_result_answer [simp]: "served_result (q\<lparr>sv_answer := a\<rparr>) = served_result q"
  by (simp add: served_result_def split: option.split sum.split)

text \<open>A step of \<open>proxyHTTP\<close> keeps the invariant of its call.\<close>

lemma served_ok_upload:
  assumes ok: "served_ok E q" and "sv_upload q = Some u" and step: "upload_step u e v"
    and may: "may_upload q e \<or> (\<exists>err. e = UE_do (Inl err))"
  shows "served_ok E (q\<lparr>sv_upload := Some v\<rparr>)"
proof -
  obtain x where x: "sv_route q = Some (Inr x)" "proxied (sv_env q) x u"
    using assms by (auto simp: served_ok_def split: option.splits sum.splits)
  obtain i outr msg where x': "x = (i, outr, msg)" by (cases x)
  have p: "proxied (sv_env q) x v"
    unfolding x' by (rule proxied_step [OF x(2) [unfolded x'] step]) (use may x(1) x' in auto)
  have "up_pipe v = [] \<and> (\<forall>resp. up_main v \<noteq> U_done (Inr resp))"
    if "up_pipe u = [] \<and> (\<forall>resp. up_main u \<noteq> U_done (Inr resp))" "sv_via q = None"
    using step may that by cases (auto simp: upload_returned_def)
  moreover have "up_main v = U_done res" if "up_main u = U_done res" for res
    using step that by cases auto
  ultimately show ?thesis
    using x p assms(1,2) by (fastforce simp: served_ok_def served_result_def split: upload_main.splits)
qed

lemma served_ok_step:
  assumes "served_ok E q" and "system_proved E s" and "serve_step s q e q'"
  shows "served_ok E q' \<and> sv_env q' = sv_env q \<and> sv_header q' = sv_header q \<and> sv_request q' = sv_request q"
  using assms(3)
proof cases
  case routed
  show ?thesis
  proof (cases "route_request (w_reg (sy_world s)) (sv_request q)")
    case (Inl err)
    with routed assms(1) show ?thesis by (auto simp: served_ok_def served_result_def route_served_def)
  next
    case (Inr x)
    from route_request_for [OF assms(2) Inr] proxied_init Inr routed assms(1) show ?thesis
      by (cases x) (auto simp: served_ok_def served_result_def route_served_def upload_init_def)
  qed
next
  case (taken i outr msg u cp h err)
  from assms(2) taken(8) have "\<exists>env. proved E (cp_conn cp) env i"
    unfolding system_proved_def pool_proved_def session_conn_def by blast
  with taken assms(1) show ?thesis by (auto simp: served_ok_def served_result_def)
next
  case (unavailable i outr msg u h err e' v)
  with served_ok_upload [OF assms(1) unavailable(4,9)] show ?thesis by simp
next
  case (uploading u e v)
  with served_ok_upload [OF assms(1) uploading(3,4)] show ?thesis by simp
next
  case (answered res)
  with assms(1) show ?thesis by (auto simp: served_ok_def split: option.splits sum.splits)
qed


section \<open>All calls\<close>

definition link_events :: "request_event set \<Rightarrow> link_event set" where
  "link_events E = {e. Linking e \<in> E}"

lemma link_events_insert [simp]:
  "link_events (insert (Linking e) E) = insert e (link_events E)"
  "link_events (insert (Arrived n env h r) E) = link_events E"
  "link_events (insert (Serving n f) E) = link_events E"
  by (auto simp: link_events_def)

definition requests_ok :: "(listener \<Rightarrow> string) \<Rightarrow> (listener \<Rightarrow> string) \<Rightarrow> (nat \<Rightarrow> string) \<Rightarrow> nat set \<Rightarrow>
    request_event set \<Rightarrow> serving \<Rightarrow> bool" where
  "requests_ok network address user base E s \<longleftrightarrow>
     links_ok network address user base (link_events E) (sg_linked s) \<and>
     (\<forall>n q. sg_requests s n = Some q \<longrightarrow> served_ok (server_events (link_events E)) q \<and>
        Arrived n (sv_env q) (sv_header q) (sv_request q) \<in> E)"

definition requests_initial :: "nat set \<Rightarrow> serving \<Rightarrow> bool" where
  "requests_initial base s \<longleftrightarrow> links_initial base (sg_linked s) \<and> sg_requests s = (\<lambda>n. None)"

lemma new_served_ok: "served_ok E (new_served env h r)"
  by (simp add: served_ok_def new_served_def)

lemma requests_ok_step:
  assumes ok: "requests_ok network address user base E s" and "request_step cfg network address user s e t"
  shows "requests_ok network address user base (insert e E) t"
  using assms(2)
proof cases
  case (linking e' l)
  have "server_events (link_events E) \<subseteq> server_events (insert e' (link_events E))"
    by (rule server_events_mono) blast
  with ok links_ok_step [OF _ linking(3)] served_ok_mono linking show ?thesis
    by (fastforce simp: requests_ok_def)
next
  case (arrived n env h r)
  with ok new_served_ok [of "server_events (link_events E)" env h r] show ?thesis
    by (simp add: requests_ok_def new_served_def)
next
  case (serving n q f q')
  have "system_proved (server_events (link_events E)) (sg_sys s)"
    using ok by (simp add: requests_ok_def links_ok_def sg_sys_def)
  from served_ok_step [OF _ this serving(4)] ok serving show ?thesis
    by (simp add: requests_ok_def)
qed

interpretation requesting: history_machine "requests_initial base" "request_step cfg network address user"
    "requests_ok network address user base"
proof (rule history_machine.intro)
  show "requests_ok network address user base {} s" if "requests_initial base s" for s
    using that linking.history_initial [of base "sg_linked s" network address user]
    by (simp add: requests_initial_def requests_ok_def link_events_def)
qed (rule requests_ok_step)

lemma request_reachable:
  assumes "requests_initial base s" and "run (request_step cfg network address user) s es t" and "sg_requests t n = Some q"
  shows "served_ok (server_events (link_events (set es))) q" and "Arrived n (sv_env q) (sv_header q) (sv_request q) \<in> set es"
  using requesting.history_reachable [OF assms(1,2)] assms(3) by (simp_all add: requests_ok_def)


section \<open>Whom a public request reaches\<close>

text \<open>
  C6. A public request reaches only a client that has proved who it is, and only with that client's
  credential, whatever else happens. In every interleaving of the calls of \<open>ServeHTTP\<close> with handlers, dead connections,
  \<open>Unsubscribe\<close>, accept loops and tunnelled connections, from a fresh server: a request that is sent on goes
  to a client \<open>i\<close> that asked for an HTTP tunnel of its host over a TLS connection whose handshake has
  succeeded with the one certificate that \<open>i\<close> is the hash of; if that tunnel has a credential, the request carries it exactly and it is not passed on; the
  connection used belongs to a peer that has proved to be \<open>i\<close> as well; what the client receives is a
  beginning of the request, and without such a connection it receives nothing and the user gets no
  response.
\<close>

theorem public_request_isolated:
  assumes "requests_initial base s" and "run (request_step cfg network address user) s es t"
    and "sg_requests t n = Some q" and "sv_route q = Some (Inr (i, outr, msg))"
  shows "(\<exists>c env ts name tun. Linking (Accepting (Sys (Accepted c env))) \<in> set es \<and>
      identified env i \<and> handshake env i = Inr ts \<and>
      (name, Some tun) \<in> set ts \<and> Protocol tun = HTTP \<and> trimPort (tunnel_Host tun) = trimPort (req_Host (sv_request q)) \<and>
      (case NewAuth (tunnel_Auth tun) of
         None \<Rightarrow> header_get (req_Header outr) ''Authorization'' = header_get (req_Header (sv_request q)) ''Authorization''
       | Some a \<Rightarrow> BasicAuth (req_Header (sv_request q)) = (User a, Password a, True) \<and>
           header_get (req_Header outr) ''Authorization'' = [])) \<and>
    (\<forall>d. sv_via q = Some d \<longrightarrow> (\<exists>env. Linking (Accepting (Sys (Accepted d env))) \<in> set es \<and> identified env i)) \<and>
    (\<exists>u. sv_upload q = Some u \<and> prefix (up_pipe u) (he_Write (sv_env q) outr) \<and>
      (sv_via q = None \<longrightarrow> up_pipe u = [] \<and> (\<forall>resp. served_result q \<noteq> Some (Inr resp))))"
proof -
  let ?E = "server_events (link_events (set es))"
  have ev: "Linking (Accepting (Sys e)) \<in> set es" if "e \<in> ?E" for e
    using that by (simp add: server_events_def link_events_def)
  have ok: "served_ok ?E q" using request_reachable(1) [OF assms(1-3)] .
  then obtain u where u: "routed_for ?E (sv_request q) (i, outr, msg)" "sv_upload q = Some u"
      "proxied (sv_env q) (i, outr, msg) u" "sv_via q = None \<longrightarrow> up_pipe u = [] \<and> (\<forall>resp. up_main u \<noteq> U_done (Inr resp))"
      "\<forall>d. sv_via q = Some d \<longrightarrow> (\<exists>env. proved ?E d env i)"
    using assms(4) by (auto simp: served_ok_def)
  note route = routed_for_tunnel [OF u(1)]
  have via: "\<forall>d. sv_via q = Some d \<longrightarrow> (\<exists>env. Linking (Accepting (Sys (Accepted d env))) \<in> set es \<and> identified env i)"
    using u(5) provedD ev by meson
  have "prefix (up_pipe u) (he_Write (sv_env q) outr)" using u(3) upload_ok_prefix by (simp add: proxied_def)
  moreover have "\<forall>resp. served_result q \<noteq> Some (Inr resp)" if "sv_via q = None"
    using u(2,4) that assms(4) by (auto simp: served_result_def split: upload_main.splits)
  ultimately have "\<exists>u. sv_upload q = Some u \<and> prefix (up_pipe u) (he_Write (sv_env q) outr) \<and>
      (sv_via q = None \<longrightarrow> up_pipe u = [] \<and> (\<forall>resp. served_result q \<noteq> Some (Inr resp)))"
    using u(2,4) by simp
  moreover from route ev have "\<exists>c env ts name tun. Linking (Accepting (Sys (Accepted c env))) \<in> set es \<and>
      identified env i \<and> handshake env i = Inr ts \<and>
      (name, Some tun) \<in> set ts \<and> asked_tunnel (sv_request q) outr tun" by blast
  ultimately show ?thesis using via unfolding asked_tunnel_def by (intro conjI)
qed


section \<open>One moment decides\<close>

lemma serve_step_keeps:
  assumes "serve_step s q e q'"
  shows "sv_request q' = sv_request q \<and>
    (sv_route q \<noteq> None \<and> sv_route q' = sv_route q \<or>
     sv_route q = None \<and> (sv_route q' = None \<or> e = Routed \<and> sv_route q' = Some (route_request (w_reg (sy_world s)) (sv_request q))))"
  using assms by cases (auto simp: route_served_def Let_def)

lemma route_moment:
  assumes "run (request_step cfg network address user) s es t" and "sg_requests s = (\<lambda>n. None)"
    and "sg_requests t n = Some q" and "sv_route q = Some x"
  shows "\<exists>before after m p. es = before @ after \<and> run (request_step cfg network address user) s before m \<and>
    run (request_step cfg network address user) m after t \<and> sg_requests m n = Some p \<and> sv_route p = None \<and>
    x = route_request (sg_registry m) (sv_request q)"
  using assms
proof (induction es arbitrary: t q rule: rev_induct)
  case (snoc e es)
  let ?run = "run (request_step cfg network address user)"
  obtain u where u: "?run s es u" "request_step cfg network address user u e t"
    using snoc.prems(1) by (auto simp: run_append_iff run_Cons_iff)
  have last: "?run u [e] t" using u(2) by (simp add: run_Cons_iff)
  consider (old) p where "sg_requests u n = Some p" "sv_route p = Some x" "sv_request p = sv_request q"
    | (now) p where "sg_requests u n = Some p" "sv_route p = None" "x = route_request (sg_registry u) (sv_request q)"
    using u(2)
  proof cases
    case (serving k p f p')
    show thesis
    proof (cases "k = n")
      case True
      with serving snoc.prems have "p' = q" "sg_requests u n = Some p" by simp_all
      with serve_step_keeps [OF serving(4)] snoc.prems(4) that show thesis
        by (auto simp: sg_registry_def)
    qed (use serving snoc.prems that in auto)
  qed (use snoc.prems that in \<open>auto simp: new_served_def split: if_splits\<close>)
  then show ?case
  proof cases
    case old
    from snoc.IH [OF u(1) snoc.prems(2) old(1,2)] old(3) run_append [OF _ last] show ?thesis
      by (metis append.assoc)
  next
    case now
    with u(1) last show ?thesis by blast
  qed
qed simp

text \<open>
  C7. Every answer a public user gets, in every interleaving, is the one \<open>ServeHTTP\<close> computes from the registry
  at a single moment between the arrival of the request and its answer, for some answer of the transport:
  what other goroutines do before and after cannot show.
\<close>

theorem public_request_linearized:
  assumes "requests_initial base s" and "run (request_step cfg network address user) s es t"
    and "sg_requests t n = Some q" and "sv_answer q = Some a"
  shows "\<exists>before after m p x. es = before @ after \<and> run (request_step cfg network address user) s before m \<and>
    run (request_step cfg network address user) m after t \<and> sg_requests m n = Some p \<and> sv_route p = None \<and>
    a = ServeHTTP (sg_registry m) ((sv_env q)\<lparr>he_Do := (\<lambda>req. x)\<rparr>) (sv_header q) (sv_request q)"
proof -
  note ok = request_reachable(1) [OF assms(1-3)]
  then obtain res where res: "served_result q = Some res" "a = answer_user (sv_env q) (sv_header q) (sv_request q) res"
    using assms(4) by (auto simp: served_ok_def)
  from res(1) obtain y where y: "sv_route q = Some y" by (auto simp: served_result_def split: option.splits)
  from assms(1) have "sg_requests s = (\<lambda>n. None)" by (simp add: requests_initial_def)
  from route_moment [OF assms(2) this assms(3) y] obtain before after m p where
    m: "es = before @ after" "run (request_step cfg network address user) s before m"
      "run (request_step cfg network address user) m after t" "sg_requests m n = Some p" "sv_route p = None"
      "y = route_request (sg_registry m) (sv_request q)" by blast
  have "\<exists>x. res = RoundTrip (sg_registry m) ((sv_env q)\<lparr>he_Do := (\<lambda>req. x)\<rparr>) (sv_request q)"
  proof (cases y)
    case (Inl err)
    with res(1) y have "res = Inl err" by (simp add: served_result_def)
    with m(6) [symmetric] Inl show ?thesis by (simp add: RoundTrip_def)
  next
    case (Inr z)
    obtain i outr msg where z: "z = (i, outr, msg)" by (cases z)
    from ok Inr y obtain u where u: "sv_upload q = Some u" "proxied (sv_env q) z u" by (auto simp: served_ok_def)
    with res(1) y Inr have "up_main u = U_done res" by (auto simp: served_result_def split: upload_main.splits)
    with u(2) obtain x where "res = proxyHTTP ((sv_env q)\<lparr>he_Do := (\<lambda>req. x)\<rparr>) i outr msg" by (auto simp: proxied_def z)
    then have "res = RoundTrip (sg_registry m) ((sv_env q)\<lparr>he_Do := (\<lambda>req. x)\<rparr>) (sv_request q)"
      using m(6) [symmetric] Inr z by (simp add: RoundTrip_def)
    then show ?thesis ..
  qed
  then obtain x where "a = ServeHTTP (sg_registry m) ((sv_env q)\<lparr>he_Do := (\<lambda>req. x)\<rparr>) (sv_header q) (sv_request q)"
    using res(2) by (auto simp: ServeHTTP_def answer_user_do)
  with m(1-5) show ?thesis by blast
qed


section \<open>Every request goes as far as the network\<close>

text \<open>
  Steps that a call makes by itself, with the answers \<open>h\<close> and \<open>e\<close> that \<open>http2\<close> and \<open>net/http\<close> have for it:
  the network does not come into them.
\<close>

fun own_step :: "(nat, nat, world) http2_env \<Rightarrow> go_error \<Rightarrow> serve_event \<Rightarrow> bool" where
  "own_step h e Routed \<longleftrightarrow> True"
| "own_step h e (Asked h' e') \<longleftrightarrow> h' = h \<and> e' = e"
| "own_step h e (Uploading (UE_request err)) \<longleftrightarrow> True"
| "own_step h e (Uploading _) \<longleftrightarrow> False"
| "own_step h e Answered \<longleftrightarrow> True"

text \<open>The user has an answer, or the request is on a connection of its client and waits for the response.\<close>

definition dispatched :: "served \<Rightarrow> bool" where
  "dispatched q \<longleftrightarrow> sv_answer q \<noteq> None \<or>
     sv_via q \<noteq> None \<and> (\<exists>u. sv_upload q = Some u \<and> up_main u = U_do)"

lemma serving_run:
  "run (serve_step sys) q es q' \<Longrightarrow> sg_sys s = sys \<Longrightarrow> sg_requests s n = Some q \<Longrightarrow>
   \<exists>t. run (request_step cfg network address user) s (map (Serving n) es) t \<and> sg_requests t n = Some q' \<and>
     sg_linked t = sg_linked s"
proof (induction arbitrary: s rule: run.induct)
  case (run_Nil q)
  then show ?case by (auto intro: run.run_Nil)
next
  case (run_Cons q e r es u)
  let ?s = "s\<lparr>sg_requests := (sg_requests s)(n \<mapsto> r)\<rparr>"
  have "request_step cfg network address user s (Serving n e) ?s"
    using run_Cons.prems run_Cons.hyps(1) by (intro request_step.serving) simp_all
  moreover from run_Cons.IH [of ?s] run_Cons.prems obtain t where
    "run (request_step cfg network address user) ?s (map (Serving n) es) t"
    "sg_requests t n = Some u" "sg_linked t = sg_linked s" by (auto simp: sg_sys_def)
  ultimately show ?case by (auto intro: run.run_Cons)
qed

text \<open>At most \<open>k\<close> steps of its own get the request there.\<close>

definition within :: "system \<Rightarrow> (nat, nat, world) http2_env \<Rightarrow> go_error \<Rightarrow> nat \<Rightarrow> served \<Rightarrow> bool" where
  "within s h e k q \<longleftrightarrow>
     (\<exists>es q'. run (serve_step s) q es q' \<and> length es \<le> k \<and> list_all (own_step h e) es \<and> dispatched q')"

lemma within_step: "serve_step s q f r \<Longrightarrow> own_step h e f \<Longrightarrow> within s h e k r \<Longrightarrow> within s h e (Suc k) q"
proof -
  assume q: "serve_step s q f r" "own_step h e f"
  assume "within s h e k r"
  then obtain es q' where "run (serve_step s) r es q'" "length es \<le> k" "list_all (own_step h e) es" "dispatched q'"
    by (auto simp: within_def)
  with q show ?thesis
    unfolding within_def by (intro exI [of _ "f # es"] exI [of _ q']) (simp add: run.run_Cons)
qed

lemma within_mono: "within s h e j q \<Longrightarrow> j \<le> k \<Longrightarrow> within s h e k q"
  unfolding within_def by (meson order_trans)

lemma within_now: "dispatched q \<Longrightarrow> within s h e k q"
  unfolding within_def by (intro exI [of _ "[]"] exI [of _ q]) simp

lemma within_returned:
  assumes "served_result q \<noteq> None"
  shows "within s h e 1 q"
proof (cases "sv_answer q")
  case None
  from assms obtain res where "served_result q = Some res" by blast
  let ?r = "q\<lparr>sv_answer := Some (answer_user (sv_env q) (sv_header q) (sv_request q) res)\<rparr>"
  have "within s h e 0 ?r" by (simp add: within_now dispatched_def)
  with serve_step.answered [OF \<open>served_result q = Some res\<close> None] show ?thesis
    using within_step [of s q Answered ?r h e 0] by simp
qed (simp add: within_now dispatched_def)

text \<open>The pool is asked, and has a connection or none.\<close>

lemma within_asked:
  assumes "sv_route q = Some (Inr (i, outr, msg))" and "sv_upload q = Some u" and "up_main u = U_do"
    and "sy_lock s = None" and "sv_via q = None \<longrightarrow> up_pipe u = []"
  shows "within s h e 2 q"
proof (cases "sv_via q")
  case (Some d)
  with assms show ?thesis by (intro within_now) (simp add: dispatched_def)
next
  case None
  with assms(5) have empty: "up_pipe u = []" by blast
  show ?thesis
  proof (cases "GetClientConn h (pool_addr i) (sy_pool s)")
    case (Inl err)
    let ?v = "upload_returned (Inl (Errorf (''io error: '' @ error_text e))) u"
    have "serve_step s q (Asked h e) (q\<lparr>sv_upload := Some ?v\<rparr>)"
      by (rule serve_step.unavailable [OF assms(1-3) empty assms(4) Inl upload_step.do_failed [OF assms(3)]])
    moreover have "within s h e 1 (q\<lparr>sv_upload := Some ?v\<rparr>)"
      by (rule within_returned) (simp add: served_result_def assms(1) upload_returned_def)
    ultimately show ?thesis using within_step [of s q "Asked h e" _ h e 1] by (simp add: numeral_2_eq_2)
  next
    case (Inr d)
    then obtain cp where cp: "session_conn i (sy_pool s) = Some cp" "d = clientConn cp"
      by (auto simp: GetClientConn_def session_conn_def split: option.splits if_splits)
    have "serve_step s q (Asked h e) (q\<lparr>sv_via := Some (cp_conn cp)\<rparr>)"
      by (rule serve_step.taken [OF assms(1-3) empty assms(4) cp(1)]) (simp add: Inr cp(2))
    moreover have "within s h e 1 (q\<lparr>sv_via := Some (cp_conn cp)\<rparr>)"
      using assms(2,3) by (intro within_now) (simp add: dispatched_def)
    ultimately show ?thesis using within_step [of s q "Asked h e" _ h e 1] by (simp add: numeral_2_eq_2)
  qed
qed

lemma within_sent:
  assumes "sv_route q = Some (Inr (i, outr, msg))" and "sv_upload q = Some u"
    and "sy_lock s = None" and "sv_via q = None \<longrightarrow> up_pipe u = []"
  shows "within s h e 3 q"
proof (cases "up_main u")
  case U_start
  let ?err = "case connectRequest (sv_env q) i msg [] of Inl e \<Rightarrow> Some e | Inr req \<Rightarrow> None"
  obtain v where v: "upload_step u (UE_request ?err) v" "up_main v \<noteq> U_start" "up_pipe v = up_pipe u"
  proof (cases ?err)
    case None
    from upload_step.request_made [OF U_start] that show ?thesis unfolding None by auto
  next
    case (Some e)
    from upload_step.request_failed [OF U_start, of e] that show ?thesis unfolding Some by (auto simp: upload_returned_def)
  qed
  let ?r = "q\<lparr>sv_upload := Some v\<rparr>"
  have "serve_step s q (Uploading (UE_request ?err)) ?r"
    by (rule serve_step.uploading [OF assms(2) v(1)]) (simp add: assms(1))
  moreover have "within s h e 2 ?r"
  proof (cases "up_main v")
    case U_do
    with within_asked [of ?r i outr msg v s h e] assms v(3) show ?thesis by simp
  next
    case (U_done res)
    with assms(1) have "served_result ?r \<noteq> None" by (simp add: served_result_def)
    from within_mono [OF within_returned [OF this], of 2] show ?thesis by simp
  qed (use v(2) in simp)
  ultimately show ?thesis using within_step [of s q "Uploading (UE_request ?err)" ?r h e 2] by (simp add: numeral_3_eq_3)
next
  case U_do
  from within_mono [OF within_asked [OF assms(1,2) U_do assms(3,4)], of 3] show ?thesis by simp
next
  case (U_done res)
  with assms(1,2) have "served_result q \<noteq> None" by (simp add: served_result_def)
  from within_mono [OF within_returned [OF this], of 3] show ?thesis by simp
qed

lemma within_routed:
  assumes "sv_route q \<noteq> None" and "served_ok E q" and "sy_lock s = None"
  shows "within s h e 3 q"
proof -
  from assms(1) consider (refused) err where "sv_route q = Some (Inl err)"
    | (sent) i outr msg where "sv_route q = Some (Inr (i, outr, msg))" by (metis not_Some_eq prod_cases3 sum.exhaust)
  then show ?thesis
  proof cases
    case refused
    then have "served_result q \<noteq> None" by (simp add: served_result_def)
    from within_mono [OF within_returned [OF this], of 3] show ?thesis by simp
  next
    case sent
    with assms(2) obtain u where u: "sv_upload q = Some u" "sv_via q = None \<longrightarrow> up_pipe u = []"
      by (auto simp: served_ok_def)
    from within_sent [OF sent u(1) assms(3) u(2)] show ?thesis .
  qed
qed

text \<open>
  C27. Nothing in the server itself keeps a public request from its client: in every reachable state of all
  goroutines in which the mutex of the pool is free, at most four steps that the call makes by itself, whatever
  \<open>http2\<close> says of the connection, give the user an answer or put the request on a connection of its client,
  where it waits for the network, which has no timeout. (That the holder of the mutex can always go on is
  \<open>interleaved_progress\<close>.)
\<close>

theorem public_request_dispatched:
  assumes "requests_initial base s" and "run (request_step cfg network address user) s es t" and "sg_requests t n = Some q"
    and "sy_lock (sg_sys t) = None"
  shows "\<exists>fs u r. run (request_step cfg network address user) t (map (Serving n) fs) u \<and> length fs \<le> 4 \<and>
    list_all (own_step h e) fs \<and> sg_linked u = sg_linked t \<and> sg_requests u n = Some r \<and>
    (sv_answer r \<noteq> None \<or> sv_via r \<noteq> None \<and> (\<exists>up. sv_upload r = Some up \<and> up_main up = U_do))"
proof -
  let ?E = "server_events (link_events (set es))"
  have ok: "served_ok ?E q" using request_reachable(1) [OF assms(1-3)] .
  have "within (sg_sys t) h e 4 q"
  proof (cases "sv_route q")
    case None
    have "system_proved ?E (sg_sys t)"
      using requesting.history_reachable [OF assms(1,2)] by (simp add: requests_ok_def links_ok_def sg_sys_def)
    from served_ok_step [OF ok this serve_step.routed [OF None]]
    have "within (sg_sys t) h e 3 (route_served (w_reg (sy_world (sg_sys t))) q)"
      by (intro within_routed [of _ ?E] assms(4)) (simp_all add: route_served_def Let_def)
    from within_step [OF serve_step.routed [OF None] _ this] show ?thesis by simp
  next
    case (Some x)
    with within_mono [OF within_routed [OF _ ok assms(4)], of 4] show ?thesis by simp
  qed
  then obtain fs r where "run (serve_step (sg_sys t)) q fs r" "length fs \<le> 4" "list_all (own_step h e) fs" "dispatched r"
    by (auto simp: within_def)
  with serving_run [OF this(1) refl assms(3), of cfg network address user] show ?thesis
    unfolding dispatched_def by blast
qed


section \<open>Examples\<close>

definition demo_serving :: serving where
  "demo_serving = \<lparr>sg_linked = demo_linked, sg_requests = (\<lambda>n. None)\<rparr>"

lemma demo_serving_initial: "requests_initial {0} demo_serving"
  using demo_linked_initial by (simp add: requests_initial_def demo_serving_def)

lemma lift_link_run:
  "run (link_step cfg network address user) l es l' \<Longrightarrow> sg_linked s = l \<Longrightarrow>
   run (request_step cfg network address user) s (map Linking es) (s\<lparr>sg_linked := l'\<rparr>)"
proof (induction arbitrary: s rule: run.induct)
  case (run_Cons l e l1 es l2)
  have "request_step cfg network address user s (Linking e) (s\<lparr>sg_linked := l1\<rparr>)"
    using run_Cons by (intro request_step.linking) simp
  moreover from run_Cons.IH [of "s\<lparr>sg_linked := l1\<rparr>"]
  have "run (request_step cfg network address user) (s\<lparr>sg_linked := l1\<rparr>) (map Linking es) (s\<lparr>sg_linked := l2\<rparr>)" by simp
  ultimately show ?case by (simp add: run.run_Cons)
qed (auto intro: run.run_Nil)

text \<open>A request is routed, made, and gets the connection of the client that asked for its host.\<close>

definition demo_sent :: served where
  "demo_sent =
     (let outr = demo_request\<lparr>req_Body := None, req_Header := out_header None demo_request\<rparr>
      in (new_served demo_http_env Map.empty demo_request)
        \<lparr>sv_route := Some (Inr (zero_ident, outr,
             \<lparr>Action = ActionProxy, ForwardedHost = ''a.b'', ForwardedProto = HTTP, RemoteAddr = []\<rparr>)),
         sv_via := Some 7,
         sv_upload := Some ((upload_init demo_http_env outr)\<lparr>up_main := U_do, up_writer := UW_write\<rparr>)\<rparr>)"

lemma demo_sent_steps:
  assumes "Subscriber (req_Host demo_request) (w_reg (sy_world s)) = Some (zero_ident, None)"
    and "session_conn zero_ident (sy_pool s) = Some \<lparr>cp_conn = 7, clientConn = 7\<rparr>" and "sy_lock s = None"
    and "CanTakeNewRequest h 7"
  shows "run (serve_step s) (new_served demo_http_env Map.empty demo_request)
    [Routed, Uploading (UE_request None), Asked h e] demo_sent"
proof -
  let ?q = "new_served demo_http_env Map.empty demo_request"
  let ?outr = "demo_request\<lparr>req_Body := None, req_Header := out_header None demo_request\<rparr>"
  let ?msg = "\<lparr>Action = ActionProxy, ForwardedHost = ''a.b'', ForwardedProto = HTTP, RemoteAddr = []\<rparr>"
  have plain: "req_ContentLength demo_request = 0" "req_Host demo_request = ''a.b''" "request_scheme demo_request = HTTP"
    by (simp_all add: demo_request_def empty_request_def request_scheme_def)
  have "route_request (w_reg (sy_world s)) demo_request = Inr (zero_ident, ?outr, ?msg)"
    using assms(1) by (simp add: route_request_def Let_def plain split: prod.split)
  then have r: "route_served (w_reg (sy_world s)) ?q =
      ?q\<lparr>sv_route := Some (Inr (zero_ident, ?outr, ?msg)), sv_upload := Some (upload_init demo_http_env ?outr)\<rparr>"
    by (simp add: route_served_def new_served_def)
  let ?u = "(upload_init demo_http_env ?outr)\<lparr>up_main := U_do, up_writer := UW_write\<rparr>"
  let ?q1 = "?q\<lparr>sv_route := Some (Inr (zero_ident, ?outr, ?msg)), sv_upload := Some (upload_init demo_http_env ?outr)\<rparr>"
  let ?q2 = "?q1\<lparr>sv_upload := Some ?u\<rparr>"
  have "serve_step s ?q Routed ?q1" unfolding r [symmetric] by (rule serve_step.routed) (simp add: new_served_def)
  moreover have "upload_step (upload_init demo_http_env ?outr) (UE_request None) ?u"
    by (rule upload_step.request_made) (simp add: upload_init_def)
  then have "serve_step s ?q1 (Uploading (UE_request None)) ?q2"
    using serve_step.uploading [of ?q1 "upload_init demo_http_env ?outr" "UE_request None" ?u s]
    by (simp add: connectRequest_def demo_http_env_def new_served_def Let_def)
  moreover have "GetClientConn h (pool_addr zero_ident) (sy_pool s) = Inr 7"
    using assms(2,4) by (simp add: GetClientConn_def session_conn_def)
  then have "serve_step s ?q2 (Asked h e) (?q2\<lparr>sv_via := Some 7\<rparr>)"
    using serve_step.taken [of ?q2 zero_ident ?outr ?msg ?u s "\<lparr>cp_conn = 7, clientConn = 7\<rparr>" h e] assms(2,3)
    by (simp add: upload_init_def)
  moreover have "demo_sent = ?q2\<lparr>sv_via := Some 7\<rparr>" by (simp add: demo_sent_def Let_def)
  ultimately show ?thesis by (simp add: run_Cons_iff) blast
qed

abbreviation demo_request_step :: "serving \<Rightarrow> request_event \<Rightarrow> serving \<Rightarrow> bool" where
  "demo_request_step \<equiv> request_step (demo_cfg True) (\<lambda>l. ''tcp'') (\<lambda>l. ''[::]:1'') (\<lambda>n. ''hello'')"

definition demo_http2 :: "(nat, nat, world) http2_env" where
  "demo_http2 = server_http2 (demo_env demo_web)\<lparr>CanTakeNewRequest := (\<lambda>d. True)\<rparr>"

lemma demo_arrived_run:
  "\<exists>es t. run demo_request_step demo_serving es t \<and>
     sg_requests t 1 = Some (new_served demo_http_env Map.empty demo_request) \<and> sy_lock (sg_sys t) = None \<and>
     run (serve_step (sg_sys t)) (new_served demo_http_env Map.empty demo_request)
       [Routed, Uploading (UE_request None), Asked demo_http2 (Extern [])] demo_sent"
proof -
  obtain es s where run: "run (sys_step (demo_cfg True)) demo_system es s"
    and s: "Subscriber (req_Host demo_request) (w_reg (sy_world s)) = Some (zero_ident, None)"
      "session_conn zero_ident (sy_pool s) = Some \<lparr>cp_conn = 7, clientConn = 7\<rparr>" "sy_lock s = None"
    using demo_stored by blast
  from lift_run [of "demo_cfg True" demo_accepting] run obtain a where
    a: "run (accept_step (demo_cfg True) (\<lambda>l. ''tcp'') (\<lambda>l. ''[::]:1'')) (lk_accept demo_linked) (map Sys es) a" "al_sys a = s"
    by (fastforce simp: demo_accepting_def demo_linked_def)
  have "\<forall>i l c. Loop i l (Inr c) \<notin> set (map Sys es)" by auto
  from lift_link_run [OF lift_server_run [OF a(1) this], of demo_serving] a(2) obtain fs t where
    t: "run demo_request_step demo_serving fs t" "sg_sys t = s" "sg_requests t = (\<lambda>n. None)"
    by (fastforce simp: demo_serving_def sg_sys_def)
  let ?t = "t\<lparr>sg_requests := (sg_requests t)(1 \<mapsto> new_served demo_http_env Map.empty demo_request)\<rparr>"
  have "demo_request_step t (Arrived 1 demo_http_env Map.empty demo_request) ?t"
    by (rule request_step.arrived) (simp add: t(3))
  from run_append [OF t(1) run_one [of demo_request_step, OF this]] demo_sent_steps [OF s, of demo_http2 "Extern []"] t(2) s(3)
  show ?thesis by (fastforce simp: sg_sys_def demo_http2_def)
qed

lemma demo_sent_run: "\<exists>es t. run demo_request_step demo_serving es t \<and> sg_requests t 1 = Some demo_sent"
proof -
  obtain es t where t: "run demo_request_step demo_serving es t"
    "sg_requests t 1 = Some (new_served demo_http_env Map.empty demo_request)"
    "run (serve_step (sg_sys t)) (new_served demo_http_env Map.empty demo_request)
       [Routed, Uploading (UE_request None), Asked demo_http2 (Extern [])] demo_sent"
    using demo_arrived_run by blast
  from serving_run [OF t(3) refl t(2)] run_append [OF t(1)] show ?thesis by blast
qed

lemma public_request_isolated_witness:
  "\<exists>es t. run demo_request_step demo_serving es t \<and> sg_requests t 1 = Some demo_sent \<and>
     (\<exists>env. Linking (Accepting (Sys (Accepted 7 env))) \<in> set es \<and> identified env zero_ident)"
proof -
  obtain es t where run: "run demo_request_step demo_serving es t" "sg_requests t 1 = Some demo_sent"
    using demo_sent_run by blast
  obtain outr msg where "sv_route demo_sent = Some (Inr (zero_ident, outr, msg))" "sv_via demo_sent = Some 7"
    by (simp add: demo_sent_def Let_def)
  with public_request_isolated [OF demo_serving_initial run, of zero_ident outr msg] run show ?thesis by blast
qed

lemma demo_sent_answered: "\<exists>es q a. run (serve_step s) demo_sent es q \<and> sv_answer q = Some a"
proof -
  obtain u where u: "sv_upload demo_sent = Some u" "up_main u = U_do" by (simp add: demo_sent_def Let_def)
  let ?r = "demo_sent\<lparr>sv_upload := Some (upload_returned (Inl (Errorf (''io error: '' @ error_text (Extern [])))) u)\<rparr>"
  have "serve_step s demo_sent (Uploading (UE_do (Inl (Extern [])))) ?r"
    by (rule serve_step.uploading [OF u(1) upload_step.do_failed [OF u(2)]]) (simp add: demo_sent_def Let_def)
  moreover have "served_result ?r = Some (Inl (Errorf (''io error: '' @ error_text (Extern []))))" "sv_answer ?r = None"
    by (simp_all add: served_result_def upload_returned_def demo_sent_def new_served_def Let_def)
  from serve_step.answered [OF this, of s] obtain q a where "serve_step s ?r Answered q" "sv_answer q = Some a" by fastforce
  ultimately show ?thesis by (meson run_Cons run_Nil)
qed

lemma public_request_linearized_witness:
  "\<exists>es t q a m x. run demo_request_step demo_serving es t \<and> sg_requests t 1 = Some q \<and> sv_answer q = Some a \<and>
     a = ServeHTTP (sg_registry m) ((sv_env q)\<lparr>he_Do := (\<lambda>req. x)\<rparr>) (sv_header q) (sv_request q)"
proof -
  obtain es t where run: "run demo_request_step demo_serving es t" "sg_requests t 1 = Some demo_sent"
    using demo_sent_run by blast
  obtain fs q a where "run (serve_step (sg_sys t)) demo_sent fs q" "sv_answer q = Some a"
    using demo_sent_answered by blast
  with serving_run [OF this(1) refl run(2)] run_append [OF run(1)] obtain gs u where
    u: "run demo_request_step demo_serving gs u" "sg_requests u 1 = Some q" "sv_answer q = Some a" by metis
  from public_request_linearized [OF demo_serving_initial u] u show ?thesis by blast
qed

lemma public_request_dispatched_witness:
  "\<exists>es fs t u r. run demo_request_step demo_serving es t \<and> run demo_request_step t (map (Serving 1) fs) u \<and>
     list_all (own_step demo_http2 (Extern [])) fs \<and> sg_requests u 1 = Some r \<and> (sv_answer r \<noteq> None \<or> sv_via r \<noteq> None)"
proof -
  obtain es t where t: "run demo_request_step demo_serving es t"
    "sg_requests t 1 = Some (new_served demo_http_env Map.empty demo_request)" "sy_lock (sg_sys t) = None"
    using demo_arrived_run by blast
  from public_request_dispatched [OF demo_serving_initial t] t(1) show ?thesis by blast
qed

end
