(* ===== verification/Backoff.thy ===== *)
theory Backoff
  imports Prelude Complex_Main
begin

text \<open>
  Staggering of reconnection attempts: the interface \<open>Backoff\<close> (\<open>backoff.go\<close>) as a locale, and the
  exponential policy of \<open>cenkalti/backoff\<close> that the command line client configures (\<open>expBackoff\<close> in
  \<open>cmd/tunnel/tunnel.go\<close>). Durations and times are nanoseconds; Go's \<open>float64\<close> is \<open>rat\<close> here, so
  that its rounding is not modelled; a quotient by zero is the infinity or NaN that Go has, and a
  conversion to an integer drops the fraction.
\<close>

section \<open>The exponential policy\<close>

record exp_backoff =
  InitialInterval :: int
  RandomizationFactor :: rat
  Multiplier :: rat
  MaxInterval :: int
  MaxElapsedTime :: int
  currentInterval :: int
  startTime :: int

definition second :: int where "second = 10 ^ 9"

definition Reset :: "int \<Rightarrow> exp_backoff \<Rightarrow> exp_backoff" where
  "Reset now b = b\<lparr>currentInterval := InitialInterval b, startTime := now\<rparr>"

definition NewExponentialBackOff :: "int \<Rightarrow> exp_backoff" where
  "NewExponentialBackOff now =
     Reset now \<lparr>InitialInterval = 5 * 10 ^ 8, RandomizationFactor = 1 / 2, Multiplier = 3 / 2,
       MaxInterval = 60 * second, MaxElapsedTime = 15 * 60 * second, currentInterval = 0, startTime = 0\<rparr>"

definition trunc :: "rat \<Rightarrow> int" where
  "trunc q = (if q < 0 then \<lceil>q\<rceil> else \<lfloor>q\<rfloor>)"

text \<open>The comparison \<open>x >= m / q\<close> of floats.\<close>

definition ge_quotient :: "rat \<Rightarrow> rat \<Rightarrow> rat \<Rightarrow> bool" where
  "ge_quotient x m q = (if q = 0 then m < 0 else m / q \<le> x)"

definition incrementCurrentInterval :: "exp_backoff \<Rightarrow> exp_backoff" where
  "incrementCurrentInterval b =
     (if ge_quotient (of_int (currentInterval b)) (of_int (MaxInterval b)) (Multiplier b)
      then b\<lparr>currentInterval := MaxInterval b\<rparr>
      else b\<lparr>currentInterval := trunc (of_int (currentInterval b) * Multiplier b)\<rparr>)"

definition getRandomValueFromInterval :: "rat \<Rightarrow> rat \<Rightarrow> int \<Rightarrow> int" where
  "getRandomValueFromInterval factor random interval =
     (let delta = factor * of_int interval;
          minInterval = of_int interval - delta;
          maxInterval = of_int interval + delta
      in trunc (minInterval + random * (maxInterval - minInterval + 1)))"

definition NextBackOff :: "int \<Rightarrow> rat \<Rightarrow> exp_backoff \<Rightarrow> int \<times> exp_backoff" where
  "NextBackOff now random b =
     (if MaxElapsedTime b \<noteq> 0 \<and> now - startTime b > MaxElapsedTime b then (-1, b)
      else (getRandomValueFromInterval (RandomizationFactor b) random (currentInterval b),
            incrementCurrentInterval b))"

text \<open>The configuration of the client; \<open>expBackoff\<close> sets the fields of a policy that was just reset.\<close>

record backoff_config =
  bc_Interval :: int
  bc_Multiplier :: rat
  bc_MaxInterval :: int
  bc_MaxTime :: int

definition expBackoff :: "int \<Rightarrow> backoff_config \<Rightarrow> exp_backoff" where
  "expBackoff now c =
     (NewExponentialBackOff now)\<lparr>InitialInterval := bc_Interval c, Multiplier := bc_Multiplier c,
        MaxInterval := bc_MaxInterval c, MaxElapsedTime := bc_MaxTime c\<rparr>"


section \<open>The interface\<close>

text \<open>
  What a caller that retries may rely on: a policy in good order answers a negative duration, after
  which the caller gives up, or a pause of at least \<open>pause\<close>, and the latter only up to a deadline that
  does not move; a reset brings it in good order again.
\<close>

locale backoff_policy =
  fixes next_pause :: "int \<Rightarrow> rat \<Rightarrow> 'b \<Rightarrow> int \<times> 'b"
    and reset :: "int \<Rightarrow> 'b \<Rightarrow> 'b"
    and good :: "'b \<Rightarrow> bool"
    and deadline :: "'b \<Rightarrow> int"
    and pause :: "'b \<Rightarrow> int"
  assumes pause_pos: "good b \<Longrightarrow> 0 < pause b"
    and good_reset: "good b \<Longrightarrow> good (reset t b)"
    and next_cases: "good b \<Longrightarrow> 0 \<le> r \<Longrightarrow> r < 1 \<Longrightarrow> next_pause t r b = (d, b') \<Longrightarrow>
      d < 0 \<or> pause b \<le> d \<and> t \<le> deadline b \<and> good b' \<and> deadline b' = deadline b \<and> pause b \<le> pause b'"


section \<open>The exponential policy meets it\<close>

text \<open>
  A policy is in good order when the randomization factor is below 1, the interval does not shrink and at least a
  nanosecond of it is left when the randomization is taken off. It has a deadline when \<open>MaxElapsedTime\<close> is positive;
  with 0 it never stops.
\<close>

definition eb_sound :: "exp_backoff \<Rightarrow> bool" where
  "eb_sound b \<longleftrightarrow>
     0 \<le> RandomizationFactor b \<and> RandomizationFactor b < 1 \<and> 1 \<le> Multiplier b \<and>
     1 \<le> (1 - RandomizationFactor b) * of_int (min (currentInterval b) (MaxInterval b)) \<and>
     1 \<le> (1 - RandomizationFactor b) * of_int (min (InitialInterval b) (MaxInterval b))"

definition eb_good :: "exp_backoff \<Rightarrow> bool" where
  "eb_good b \<longleftrightarrow> eb_sound b \<and> 0 < MaxElapsedTime b"

definition eb_deadline :: "exp_backoff \<Rightarrow> int" where
  "eb_deadline b = startTime b + MaxElapsedTime b"

definition eb_pause :: "exp_backoff \<Rightarrow> int" where
  "eb_pause b = \<lfloor>(1 - RandomizationFactor b) * of_int (min (currentInterval b) (MaxInterval b))\<rfloor>"

lemma incrementCurrentInterval_frame [simp]:
  "InitialInterval (incrementCurrentInterval b) = InitialInterval b"
  "RandomizationFactor (incrementCurrentInterval b) = RandomizationFactor b"
  "Multiplier (incrementCurrentInterval b) = Multiplier b"
  "MaxInterval (incrementCurrentInterval b) = MaxInterval b"
  "MaxElapsedTime (incrementCurrentInterval b) = MaxElapsedTime b"
  "startTime (incrementCurrentInterval b) = startTime b"
  by (simp_all add: incrementCurrentInterval_def)

lemma eb_good_pos:
  assumes "0 \<le> (f :: rat)" "f < 1" "1 \<le> (1 - f) * of_int n"
  shows "0 < n"
proof (rule ccontr)
  assume "\<not> 0 < n"
  then have "(1 - f) * of_int n \<le> 0" using assms(2) by (intro mult_nonneg_nonpos) simp_all
  with assms(3) show False by simp
qed

lemma trunc_nonneg: "0 \<le> q \<Longrightarrow> trunc q = \<lfloor>q\<rfloor>"
  by (simp add: trunc_def)

lemma increment_min:
  assumes "1 \<le> Multiplier b" and "0 \<le> currentInterval b"
  shows "min (currentInterval b) (MaxInterval b) \<le>
    min (currentInterval (incrementCurrentInterval b)) (MaxInterval b)"
proof -
  have "(of_int (currentInterval b) :: rat) \<le> of_int (currentInterval b) * Multiplier b"
    using assms by (simp add: mult_le_cancel_left1)
  then have "currentInterval b \<le> \<lfloor>of_int (currentInterval b) * Multiplier b\<rfloor>"
    by (simp add: le_floor_iff)
  moreover have "0 \<le> of_int (currentInterval b) * Multiplier b" using assms by simp
  ultimately have "currentInterval b \<le> trunc (of_int (currentInterval b) * Multiplier b)" by (simp add: trunc_nonneg)
  then show ?thesis by (auto simp: incrementCurrentInterval_def)
qed

lemma getRandomValue_range:
  assumes "0 \<le> f" and "f < 1" and "0 < c" and "0 \<le> r" and "r < 1"
  shows "\<lfloor>(1 - f) * of_int c\<rfloor> \<le> getRandomValueFromInterval f r c \<and>
    getRandomValueFromInterval f r c \<le> \<lfloor>(1 + f) * of_int c\<rfloor> + 1"
proof -
  let ?v = "of_int c - f * of_int c + r * (of_int c + f * of_int c - (of_int c - f * of_int c) + 1) :: rat"
  have fc: "0 \<le> f * of_int c" using assms by simp
  then have lo: "0 \<le> r * (2 * (f * of_int c) + 1)" using assms(4) by simp
  have "r * (2 * (f * of_int c) + 1) \<le> 1 * (2 * (f * of_int c) + 1)"
    using assms(5) fc by (intro mult_right_mono) simp_all
  then have hi: "?v \<le> (1 + f) * of_int c + 1" by (simp add: algebra_simps)
  have min: "(1 - f) * of_int c \<le> ?v" using lo by (simp add: algebra_simps)
  moreover have "0 \<le> (1 - f) * of_int c" using assms by simp
  ultimately have "getRandomValueFromInterval f r c = \<lfloor>?v\<rfloor>"
    by (simp add: getRandomValueFromInterval_def Let_def trunc_nonneg)
  moreover have "\<lfloor>?v\<rfloor> \<le> \<lfloor>(1 + f) * of_int c\<rfloor> + 1" using floor_mono [OF hi] by simp
  ultimately show ?thesis using floor_mono [OF min] by simp
qed

lemma eb_pause_le:
  assumes "RandomizationFactor b < 1" and "min (currentInterval b) (MaxInterval b) \<le> c"
  shows "eb_pause b \<le> \<lfloor>(1 - RandomizationFactor b) * of_int c\<rfloor>"
  unfolding eb_pause_def using assms by (intro floor_mono mult_left_mono) simp_all

lemma eb_sound_pos:
  assumes "eb_sound b"
  shows "0 \<le> RandomizationFactor b" "RandomizationFactor b < 1" "1 \<le> Multiplier b" "0 < currentInterval b"
  using assms eb_good_pos [of "RandomizationFactor b" "min (currentInterval b) (MaxInterval b)"]
  by (auto simp: eb_sound_def)

lemma eb_sound_increment:
  assumes "eb_sound b"
  shows "eb_sound (incrementCurrentInterval b)" and "eb_pause b \<le> eb_pause (incrementCurrentInterval b)"
proof -
  let ?c = "currentInterval (incrementCurrentInterval b)"
  note fac = eb_sound_pos [OF assms]
  have inc: "min (currentInterval b) (MaxInterval b) \<le> min ?c (MaxInterval b)"
    using fac by (intro increment_min) simp_all
  have "(1 - RandomizationFactor b) * of_int (min (currentInterval b) (MaxInterval b)) \<le>
      (1 - RandomizationFactor b) * of_int (min ?c (MaxInterval b))"
  proof (rule mult_left_mono)
    show "(of_int (min (currentInterval b) (MaxInterval b)) :: rat) \<le> of_int (min ?c (MaxInterval b))"
      using inc by (simp only: of_int_le_iff)
    show "0 \<le> 1 - RandomizationFactor b" using fac by simp
  qed
  then have "1 \<le> (1 - RandomizationFactor b) * of_int (min ?c (MaxInterval b))"
    using assms unfolding eb_sound_def by linarith
  with assms show "eb_sound (incrementCurrentInterval b)"
    unfolding eb_sound_def incrementCurrentInterval_frame by blast
  show "eb_pause b \<le> eb_pause (incrementCurrentInterval b)"
    using eb_pause_le [OF fac(2) inc] by (simp add: eb_pause_def [of "incrementCurrentInterval b"])
qed

text \<open>What a call of a policy in good order does.\<close>

lemma NextBackOff_cases:
  assumes "eb_sound b" and "0 \<le> r" and "r < 1" and "NextBackOff t r b = (d, b')"
  obtains (stop) "d = -1" "b' = b" "MaxElapsedTime b \<noteq> 0"
    | (wait) "d = getRandomValueFromInterval (RandomizationFactor b) r (currentInterval b)"
        "b' = incrementCurrentInterval b" "0 < eb_pause b" "eb_pause b \<le> d" "eb_sound b'" "eb_pause b \<le> eb_pause b'"
        "MaxElapsedTime b = 0 \<or> t \<le> eb_deadline b"
proof (cases "MaxElapsedTime b \<noteq> 0 \<and> t - startTime b > MaxElapsedTime b")
  case True
  with assms(4) stop show thesis by (auto simp: NextBackOff_def)
next
  case False
  with assms(4) have d: "d = getRandomValueFromInterval (RandomizationFactor b) r (currentInterval b)"
    and b': "b' = incrementCurrentInterval b" by (auto simp: NextBackOff_def split: if_splits)
  note fac = eb_sound_pos [OF assms(1)]
  have "0 < eb_pause b" using assms(1) by (simp add: eb_sound_def eb_pause_def)
  moreover have "eb_pause b \<le> d"
    unfolding d using getRandomValue_range [OF fac(1,2,4) assms(2,3)]
      eb_pause_le [OF fac(2), of "currentInterval b"] by (simp add: order_trans)
  ultimately show thesis
    using wait [OF d b' _ _ _ _] eb_sound_increment [OF assms(1)] False by (auto simp: b' eb_deadline_def)
qed

interpretation exponential: backoff_policy NextBackOff Reset eb_good eb_deadline eb_pause
proof (rule backoff_policy.intro)
  fix b :: exp_backoff and t d :: int and r :: rat and b'
  assume good: "eb_good b"
  then show "0 < eb_pause b" by (simp add: eb_good_def eb_sound_def eb_pause_def)
  from good show "eb_good (Reset t b)" by (simp add: eb_good_def eb_sound_def Reset_def)
  assume r: "0 \<le> r" "r < 1" and n: "NextBackOff t r b = (d, b')"
  from good have "eb_sound b" by (simp add: eb_good_def)
  from this r n show "d < 0 \<or> eb_pause b \<le> d \<and> t \<le> eb_deadline b \<and> eb_good b' \<and> eb_deadline b' = eb_deadline b \<and>
      eb_pause b \<le> eb_pause b'"
    by (cases rule: NextBackOff_cases) (use good in \<open>auto simp: eb_good_def eb_deadline_def\<close>)
qed

text \<open>The pauses that a sequence of calls at given times and with given random numbers gets.\<close>

fun pauses :: "(int \<times> rat) list \<Rightarrow> exp_backoff \<Rightarrow> int list" where
  "pauses [] b = []"
| "pauses ((t, r) # calls) b = (let (d, b) = NextBackOff t r b in d # pauses calls b)"

lemma increment_max:
  assumes "0 < Multiplier b"
  shows "currentInterval (incrementCurrentInterval b) \<le> MaxInterval b \<or> MaxInterval b < 0"
proof (cases "MaxInterval b < 0")
  case False
  have "of_int (currentInterval b) * Multiplier b < of_int (MaxInterval b)"
    if "\<not> ge_quotient (of_int (currentInterval b)) (of_int (MaxInterval b)) (Multiplier b)"
    using that assms by (simp add: ge_quotient_def not_le pos_less_divide_eq)
  then show ?thesis
    using False by (auto simp: incrementCurrentInterval_def trunc_def floor_le_iff ceiling_le_iff less_eq_rat_def)
qed simp

text \<open>
  The pauses stay within the configured bounds: whatever the times and the random numbers are, each
  call of a policy in good order stops, which it does not without a maximal elapsed time, or asks for a pause that is at least the policy's smallest one and
  at most its maximal interval plus the randomization, and one nanosecond for rounding.
\<close>

theorem pauses_bounded:
  assumes "eb_sound b" and "currentInterval b \<le> MaxInterval b" and "\<forall>(t, r) \<in> set calls. 0 \<le> r \<and> r < 1"
  shows "\<forall>d \<in> set (pauses calls b). d = -1 \<and> MaxElapsedTime b \<noteq> 0 \<or>
    eb_pause b \<le> d \<and> d \<le> \<lfloor>(1 + RandomizationFactor b) * of_int (MaxInterval b)\<rfloor> + 1"
  using assms
proof (induction calls arbitrary: b)
  case (Cons call calls)
  obtain t r where call: "call = (t, r)" by (cases call)
  with Cons.prems(3) have r: "0 \<le> r" "r < 1" by auto
  obtain d b' where n: "NextBackOff t r b = (d, b')" by fastforce
  from Cons.prems(1) r n show ?case
  proof (cases rule: NextBackOff_cases)
    case stop
    with Cons.IH [OF Cons.prems(1,2)] Cons.prems(3) n show ?thesis by (simp add: call)
  next
    case wait
    note fac = eb_sound_pos [OF Cons.prems(1)]
    have "(1 + RandomizationFactor b) * of_int (currentInterval b) \<le> (1 + RandomizationFactor b) * of_int (MaxInterval b)"
      using Cons.prems(2) fac by (intro mult_left_mono) simp_all
    from floor_mono [OF this] getRandomValue_range [OF fac(1,2,4) r, folded wait(1)]
    have "d \<le> \<lfloor>(1 + RandomizationFactor b) * of_int (MaxInterval b)\<rfloor> + 1" by linarith
    moreover have "currentInterval b' \<le> MaxInterval b'"
      using increment_max [of b] fac(3) fac(4) Cons.prems(2) by (auto simp: wait(2))
    ultimately show ?thesis using Cons.IH [OF wait(5)] Cons.prems(3) wait(4,6) by (fastforce simp: call n wait(2))
  qed
qed simp

definition demo_policy :: exp_backoff where
  "demo_policy = expBackoff 0 \<lparr>bc_Interval = 5 * 10 ^ 8, bc_Multiplier = 3 / 2, bc_MaxInterval = 10 ^ 9, bc_MaxTime = 10 ^ 10\<rparr>"

lemma demo_policy_good: "eb_good demo_policy"
  by (simp add: demo_policy_def eb_good_def eb_sound_def expBackoff_def NewExponentialBackOff_def Reset_def)

definition demo_calls :: "(int \<times> rat) list" where
  "demo_calls = [(0, 1 / 2), (10 ^ 9, 0), (3 * 10 ^ 9, 9 / 10), (10 ^ 11, 0)]"

lemma pauses_bounded_witness:
  "25 * 10 ^ 7 \<le> pauses demo_calls demo_policy ! 2 \<and> pauses demo_calls demo_policy ! 2 \<le> 15 * 10 ^ 8 + 1"
proof -
  have len: "length (pauses calls b) = length calls" for calls b
    by (induction calls b rule: pauses.induct) (auto split: prod.split)
  have "pauses demo_calls demo_policy ! 2 \<in> set (pauses demo_calls demo_policy)"
    by (rule nth_mem) (simp only: len, simp add: demo_calls_def)
  moreover have "pauses demo_calls demo_policy ! 2 \<noteq> -1"
    by (simp add: demo_calls_def demo_policy_def expBackoff_def NewExponentialBackOff_def Reset_def NextBackOff_def
        incrementCurrentInterval_def ge_quotient_def getRandomValueFromInterval_def trunc_def floor_eq_iff)
  moreover have "currentInterval demo_policy \<le> MaxInterval demo_policy" "eb_pause demo_policy = 25 * 10 ^ 7"
    "\<lfloor>(1 + RandomizationFactor demo_policy) * of_int (MaxInterval demo_policy)\<rfloor> = 15 * 10 ^ 8"
    by (simp_all add: demo_policy_def eb_pause_def expBackoff_def NewExponentialBackOff_def Reset_def)
  moreover have "\<forall>(t, r) \<in> set demo_calls. 0 \<le> r \<and> r < 1" by (simp add: demo_calls_def)
  ultimately show ?thesis using pauses_bounded [of demo_policy demo_calls] demo_policy_good unfolding eb_good_def by metis
qed

text \<open>
  The configured interval has no effect until the first successful connection: the policy is reset
  when it is made, before the configuration is copied into it, so the pauses of the first dial start
  from half a second whatever interval was configured.
\<close>

theorem expBackoff_ignores_interval:
  "currentInterval (expBackoff now c) = 5 * 10 ^ 8 \<and>
   fst (NextBackOff t r (expBackoff now c)) = fst (NextBackOff t r (expBackoff now (c\<lparr>bc_Interval := i\<rparr>)))"
  by (simp add: expBackoff_def NewExponentialBackOff_def Reset_def NextBackOff_def)

end
