(* ===== verification/Cmd_Config.thy ===== *)
theory Cmd_Config
  imports Control_Msg Go_Url Backoff "HOL-Library.Multiset"
begin

text \<open>
  The configuration of the command line client (\<open>cmd/tunnel/config.go\<close>, \<open>cmd/tunnel/normalize.go\<close>):
  normalising addresses and URLs, validating tunnels, and loading the file. \<open>yaml.Unmarshal\<close> is not
  under the repository's own code: it is a parameter that fills a configuration from a text.
\<close>

section \<open>Normalising\<close>

definition normalizeAddress :: "string \<Rightarrow> go_error + string" where
  "normalizeAddress addr =
     (let addr = (case atoi addr of Inr _ \<Rightarrow> CHR '':'' # addr | Inl _ \<Rightarrow> addr) in
      case split_host_port addr of
        Inl err \<Rightarrow> Inl err
      | Inr (host, port) \<Rightarrow>
          let host = (if host = [] then ''127.0.0.1'' else host) in
          Inr (host @ '':'' @ port))"

definition normalizeURL :: "string \<Rightarrow> go_error + string" where
  "normalizeURL rawurl =
     (let s = splitn2 rawurl ''://'' in
      if 1 < length s \<and> s ! 0 \<notin> set [''http'', ''https''] then
        Inl (Errorf (''unsupported url schema, choose '' @ CHR 0x27 # ''http'' @ CHR 0x27 # '' or '' @
          CHR 0x27 # ''https'' @ [CHR 0x27]))
      else
        let rawurl = (if 1 < length s then rawurl else ''http://'' @ rawurl) in
        case url_Parse rawurl of
          Inl err \<Rightarrow> Inl err
        | Inr u \<Rightarrow>
            if u_Path u \<noteq> [] \<and> \<not> has_suffix (u_Path u) ''/'' then
              Inl (Errorf (''url must end with '' @ CHR 0x27 # ''/'' @ [CHR 0x27]))
            else Inr rawurl)"


section \<open>The configuration\<close>

text \<open>The tunnels are pointers, which YAML can leave nil; the map is the list of its entries.\<close>

record tunnel_config =
  ct_Protocol :: string
  ct_Addr :: string
  ct_Auth :: string
  ct_Host :: string
  ct_RemoteAddr :: string

type_synonym tunnel_map = "(string \<times> tunnel_config option) list"

record cmd_config =
  cfg_ServerAddr :: string
  cfg_TLSCrt :: string
  cfg_TLSKey :: string
  cfg_RootCA :: string
  cfg_Backoff :: backoff_config
  cfg_Tunnels :: tunnel_map

definition DefaultBackoffConfig :: backoff_config where
  "DefaultBackoffConfig = \<lparr>bc_Interval = 5 * 10 ^ 8, bc_Multiplier = 3 / 2,
     bc_MaxInterval = 60 * second, bc_MaxTime = 15 * 60 * second\<rparr>"

definition validateHTTP :: "tunnel_config \<Rightarrow> go_error + tunnel_config" where
  "validateHTTP t =
     (if ct_Host t = [] then Inl (Errorf ''host: missing'')
      else if ct_Addr t = [] then Inl (Errorf ''addr: missing'')
      else case normalizeURL (ct_Addr t) of
        Inl err \<Rightarrow> Inl (Errorf (''addr: '' @ error_text err))
      | Inr a \<Rightarrow>
          let t = t\<lparr>ct_Addr := a\<rparr> in
          if ct_RemoteAddr t \<noteq> [] then Inl (Errorf ''remote_addr: unexpected'') else Inr t)"

definition validateTCP :: "tunnel_config \<Rightarrow> go_error + tunnel_config" where
  "validateTCP t =
     (case normalizeAddress (ct_RemoteAddr t) of
        Inl err \<Rightarrow> Inl (Errorf (''remote_addr: '' @ error_text err))
      | Inr r \<Rightarrow>
          let t = t\<lparr>ct_RemoteAddr := r\<rparr> in
          if ct_Addr t = [] then Inl (Errorf ''addr: missing'')
          else case normalizeAddress (ct_Addr t) of
            Inl err \<Rightarrow> Inl (Errorf (''addr: '' @ error_text err))
          | Inr a \<Rightarrow>
              let t = t\<lparr>ct_Addr := a\<rparr> in
              if ct_Host t \<noteq> [] then Inl (Errorf ''host: unexpected'')
              else if ct_Auth t \<noteq> [] then Inl (Errorf ''auth: unexpected'')
              else Inr t)"

definition validateSNI :: "tunnel_config \<Rightarrow> go_error + tunnel_config" where
  "validateSNI t =
     (if ct_Host t = [] then Inl (Errorf ''host: missing'')
      else if ct_Addr t = [] then Inl (Errorf ''addr: missing'')
      else case normalizeAddress (ct_Addr t) of
        Inl err \<Rightarrow> Inl (Errorf (''addr: '' @ error_text err))
      | Inr a \<Rightarrow>
          let t = t\<lparr>ct_Addr := a\<rparr> in
          if ct_RemoteAddr t \<noteq> [] then Inl (Errorf ''remote_addr: unexpected'')
          else if ct_Auth t \<noteq> [] then Inl (Errorf ''auth: unexpected'')
          else Inr t)"

text \<open>One round of the loop over the tunnels, and the loop in the order the map is iterated.\<close>

definition validate_tunnel :: "string \<Rightarrow> tunnel_config option \<Rightarrow> go_error + tunnel_config" where
  "validate_tunnel name p =
     (case p of
        None \<Rightarrow> Inl (Panic ''nil pointer dereference'')
      | Some t \<Rightarrow>
          let named = map_sum (\<lambda>err. Errorf (name @ '' '' @ error_text err)) id in
          if ct_Protocol t = HTTP then named (validateHTTP t)
          else if ct_Protocol t \<in> set [TCP, TCP4, TCP6] then named (validateTCP t)
          else if ct_Protocol t = SNI then named (validateSNI t)
          else Inl (Errorf (name @ '' invalid protocol '' @ go_quote (ct_Protocol t))))"

fun validate_tunnels :: "tunnel_map \<Rightarrow> go_error + tunnel_map" where
  "validate_tunnels [] = Inr []"
| "validate_tunnels ((name, p) # m) =
     (case validate_tunnel name p of
        Inl err \<Rightarrow> Inl err
      | Inr t \<Rightarrow> map_sum id (\<lambda>m. (name, Some t) # m) (validate_tunnels m))"

text \<open>\<open>filepath.Dir\<close> and \<open>filepath.Join\<close> with slashes.\<close>

definition file_dir :: "string \<Rightarrow> string" where
  "file_dir p = path_clean (take (case last_index p CHR ''/'' of None \<Rightarrow> 0 | Some i \<Rightarrow> Suc i) p)"

definition loadClientConfigFromFile ::
  "(string \<Rightarrow> go_error + string) \<Rightarrow> (string \<Rightarrow> cmd_config \<Rightarrow> go_error + cmd_config) \<Rightarrow> string \<Rightarrow>
   go_error + cmd_config" where
  "loadClientConfigFromFile ReadFile Unmarshal file =
     (case ReadFile file of
        Inl err \<Rightarrow> Inl (Errorf (''failed to read file '' @ go_quote file @ '': '' @ error_text err))
      | Inr buf \<Rightarrow>
          let c = \<lparr>cfg_ServerAddr = [], cfg_TLSCrt = path_join (file_dir file) ''client.crt'',
                   cfg_TLSKey = path_join (file_dir file) ''client.key'', cfg_RootCA = [],
                   cfg_Backoff = DefaultBackoffConfig, cfg_Tunnels = []\<rparr>
          in case Unmarshal buf c of
               Inl err \<Rightarrow> Inl (Errorf (''failed to parse file '' @ go_quote file @ '': '' @ error_text err))
             | Inr c \<Rightarrow>
                 if cfg_ServerAddr c = [] then Inl (Errorf ''server_addr: missing'')
                 else case normalizeAddress (cfg_ServerAddr c) of
                   Inl err \<Rightarrow> Inl (Errorf (''server_addr: '' @ error_text err))
                 | Inr a \<Rightarrow>
                     map_sum id (\<lambda>m. c\<lparr>cfg_ServerAddr := a, cfg_Tunnels := m\<rparr>) (validate_tunnels (cfg_Tunnels c)))"


section \<open>Addresses\<close>

text \<open>What \<open>net.SplitHostPort\<close> accepts has a port without colon or bracket, and a host without bracket.\<close>

definition unbracketed :: "string \<Rightarrow> bool" where
  "unbracketed s \<longleftrightarrow> CHR ''['' \<notin> set s \<and> CHR '']'' \<notin> set s"

lemma last_index_SomeD: "last_index s c = Some i \<Longrightarrow> i < length s \<and> c \<notin> set (drop (Suc i) s)"
proof -
  assume "last_index s c = Some i"
  then obtain k where k: "index_byte (rev s) c = Some k" and i: "i = length s - Suc k"
    by (auto simp: last_index_def)
  from k have lt: "k < length s" and first: "\<forall>j<k. rev s ! j \<noteq> c" by (auto simp: index_byte_Some_iff)
  have "s ! j \<noteq> c" if "Suc i \<le> j" "j < length s" for j
    using first [rule_format, of "length s - Suc j"] that lt i by (simp add: rev_nth)
  then have "c \<notin> set (drop (Suc i) s)" by (auto simp: in_set_conv_nth)
  with lt i show ?thesis by auto
qed

lemma set_drop_le: "m \<le> n \<Longrightarrow> set (drop n xs) \<subseteq> set (drop m xs)"
  by (simp add: set_drop_subset_set_drop)

lemma split_host_port_shape:
  assumes "split_host_port hp = Inr (h, p)"
  shows "plain p \<and> unbracketed h"
proof -
  from assms obtain i where i: "last_index hp CHR '':'' = Some i"
    by (auto simp: split_host_port_def split: option.splits)
  from last_index_SomeD [OF i] have colon: "CHR '':'' \<notin> set (drop (Suc i) hp)" by blast
  show ?thesis
  proof (cases "hp ! 0 = CHR ''[''")
    case False
    with assms i have tail: "shp_tail hp i (take i hp) 0 0 = Inr (h, p)"
      by (auto simp: split_host_port_def split: if_splits)
    then have "p = drop (Suc i) hp" "h = take i hp" "CHR ''['' \<notin> set hp" "CHR '']'' \<notin> set hp"
      by (auto simp: shp_tail_def split: if_splits)
    with colon show ?thesis
      by (auto simp: plain_def unbracketed_def dest: in_set_dropD in_set_takeD)
  next
    case True
    with assms i obtain e where e: "index_byte hp CHR '']'' = Some e" and ei: "e + 1 = i"
      and tail: "shp_tail hp i (take (e - 1) (drop 1 hp)) 1 (e + 1) = Inr (h, p)"
      by (auto simp: split_host_port_def split: option.splits if_splits)
    from tail have p: "p = drop (Suc i) hp" and h: "h = take (e - 1) (drop 1 hp)"
      and no: "CHR ''['' \<notin> set (drop 1 hp)" "CHR '']'' \<notin> set (drop (e + 1) hp)"
      by (auto simp: shp_tail_def split: if_splits)
    have "CHR '']'' \<notin> set (take e hp)"
      using e by (auto simp: index_byte_Some_iff in_set_conv_nth)
    moreover have "h = drop 1 (take e hp)" by (simp add: h drop_take)
    ultimately have "CHR '']'' \<notin> set h" by (auto dest: in_set_dropD)
    with p h no colon ei set_drop_le [of 1 "Suc i" hp] set_drop_le [of "e + 1" "Suc i" hp]
    show ?thesis by (auto simp: plain_def unbracketed_def dest: in_set_takeD)
  qed
qed

text \<open>An address as \<open>normalizeAddress\<close> gives it.\<close>

definition host_colon_port :: "string \<Rightarrow> string \<Rightarrow> string \<Rightarrow> bool" where
  "host_colon_port a host port \<longleftrightarrow> a = host @ '':'' @ port \<and> host \<noteq> [] \<and> unbracketed host \<and> plain port"

lemma split_normalized:
  assumes "host_colon_port a host port"
  shows "split_host_port a =
    (if CHR '':'' \<in> set host then Inl (addr_error a ''too many colons in address'') else Inr (host, port))"
proof (cases "CHR '':'' \<in> set host")
  case False
  with assms split_host_port_plain [of host port] show ?thesis
    by (simp add: host_colon_port_def plain_def unbracketed_def)
next
  case True
  have "last_index a CHR '':'' = Some (length host)"
    using assms last_index_append_fresh [of "CHR '':''" port host] by (auto simp: host_colon_port_def)
  moreover have "a ! 0 \<noteq> CHR ''[''"
    using assms by (cases host) (auto simp: host_colon_port_def unbracketed_def)
  moreover have "take (length host) a = host" using assms by (simp add: host_colon_port_def)
  ultimately show ?thesis using True by (simp add: split_host_port_def)
qed

lemma atoi_not_digits: "c \<in> set s \<Longrightarrow> \<not> is_digit c \<Longrightarrow> c \<notin> {CHR ''-'', CHR ''+''} \<Longrightarrow> isl (atoi s)"
  by (cases s) (auto simp: atoi_def split_sign_def Let_def list_all_iff)

lemma atoi_colon: "isl (atoi (host @ CHR '':'' # port))"
  by (rule atoi_not_digits [of "CHR '':''"]) (simp_all add: is_digit_def char_code_def)

lemma normalizeAddress_form:
  assumes "normalizeAddress addr = Inr a"
  shows "\<exists>host port. host_colon_port a host port"
proof -
  let ?s = "case atoi addr of Inr _ \<Rightarrow> CHR '':'' # addr | Inl _ \<Rightarrow> addr"
  from assms obtain h p where sp: "split_host_port ?s = Inr (h, p)"
    and a: "a = (if h = [] then ''127.0.0.1'' else h) @ '':'' @ p"
    by (auto simp: normalizeAddress_def Let_def split: sum.splits prod.splits)
  from split_host_port_shape [OF sp] a
  have "host_colon_port a (if h = [] then ''127.0.0.1'' else h) p"
    by (auto simp: host_colon_port_def unbracketed_def)
  then show ?thesis by blast
qed

lemma normalizeAddress_normalized:
  assumes "host_colon_port a host port"
  shows "normalizeAddress a =
    (if CHR '':'' \<in> set host then Inl (addr_error a ''too many colons in address'') else Inr a)"
proof -
  have "isl (atoi a)" using assms atoi_colon by (simp add: host_colon_port_def)
  then obtain e where "atoi a = Inl e" by (auto simp: isl_def)
  with split_normalized [OF assms] assms show ?thesis
    by (simp add: normalizeAddress_def host_colon_port_def)
qed

text \<open>
  A normalised address is one host, a colon and one port, and normalising it again changes nothing,
  unless its host is an IPv6 address: the brackets are lost, so that every later reader of the
  address refuses it.
\<close>

theorem normalizeAddress_again:
  assumes "normalizeAddress addr = Inr a"
  shows "(count_list a CHR '':'' = 1 \<longrightarrow> normalizeAddress a = Inr a \<and> isl (split_host_port a) = False) \<and>
    (count_list a CHR '':'' \<noteq> 1 \<longrightarrow>
      normalizeAddress a = Inl (addr_error a ''too many colons in address'') \<and>
      split_host_port a = Inl (addr_error a ''too many colons in address''))"
proof -
  obtain host port where hp: "host_colon_port a host port" using normalizeAddress_form [OF assms] by blast
  then have "count_list port CHR '':'' = 0" by (auto simp: host_colon_port_def plain_def count_list_0_iff)
  with hp have "count_list a CHR '':'' = Suc (count_list host CHR '':'')"
    by (simp add: host_colon_port_def)
  then have "count_list a CHR '':'' = 1 \<longleftrightarrow> CHR '':'' \<notin> set host" by (simp add: count_list_0_iff)
  then show ?thesis using normalizeAddress_normalized [OF hp] split_normalized [OF hp] by simp
qed

lemma normalizeAddress_again_witness:
  "normalizeAddress ''22'' = Inr ''127.0.0.1:22'' \<and> normalizeAddress ''127.0.0.1:22'' = Inr ''127.0.0.1:22''"
proof
  show n: "normalizeAddress ''22'' = Inr ''127.0.0.1:22''" by code_simp
  show "normalizeAddress ''127.0.0.1:22'' = Inr ''127.0.0.1:22''"
    using normalizeAddress_again [OF n] by simp
qed


section \<open>Valid configurations\<close>

definition backend_url :: "string \<Rightarrow> bool" where
  "backend_url a \<longleftrightarrow>
     (\<exists>u. url_Parse a = Inr u \<and> u_Scheme u \<in> {''http'', ''https''} \<and> u_Opaque u = [] \<and>
       (u_Path u = [] \<or> has_suffix (u_Path u) ''/''))"

definition net_address :: "string \<Rightarrow> bool" where
  "net_address a \<longleftrightarrow> (\<exists>host port. host_colon_port a host port)"

definition valid_tunnel :: "tunnel_config \<Rightarrow> bool" where
  "valid_tunnel t \<longleftrightarrow>
     (ct_Protocol t = ''http'' \<and> ct_Host t \<noteq> [] \<and> ct_RemoteAddr t = [] \<and> backend_url (ct_Addr t)) \<or>
     (ct_Protocol t \<in> {''tcp'', ''tcp4'', ''tcp6''} \<and> ct_Host t = [] \<and> ct_Auth t = [] \<and>
       net_address (ct_Addr t) \<and> net_address (ct_RemoteAddr t)) \<or>
     (ct_Protocol t = ''sni'' \<and> ct_Host t \<noteq> [] \<and> ct_Auth t = [] \<and> ct_RemoteAddr t = [] \<and> net_address (ct_Addr t))"

lemma url_Parse_scheme:
  assumes "url_Parse (sch @ ''://'' @ s) = Inr u" and "sch = ''http'' \<or> sch = ''https''"
  shows "u_Scheme u = sch \<and> u_Opaque u = []"
proof -
  have "fst (cut_or (sch @ ''://'' @ s) ''#'') = sch @ ''://'' @ fst (cut_or s ''#'')"
    using assms(2) by (auto simp: cut_or_def split: option.split)
  then have "parse_url (sch @ ''://'' @ fst (cut_or s ''#'')) = Inr u"
    using assms(1) by (auto simp: url_Parse_def Let_def split: prod.splits sum.splits if_splits)
  then show ?thesis using parse_url_scheme assms(2) by blast
qed

lemma cut_sep: "cut s sep = Some (a, b) \<Longrightarrow> s = a @ sep @ b"
proof (induction s arbitrary: a b)
  case Nil
  then show ?case by (auto split: if_splits)
next
  case (Cons c s)
  show ?case
  proof (cases "has_prefix (c # s) sep")
    case True
    then have "take (length sep) (c # s) = sep" by (simp add: has_prefix_iff)
    with True Cons.prems show ?thesis by (metis append_Nil append_take_drop_id cut.simps(2) option.inject prod.inject)
  next
    case False
    with Cons show ?thesis by auto
  qed
qed

lemma normalizeURL_form:
  assumes "normalizeURL raw = Inr a"
  shows "\<exists>sch s. a = sch @ ''://'' @ s \<and> (sch = ''http'' \<or> sch = ''https'') \<and>
    (a = raw \<or> a = ''http://'' @ raw)"
proof (cases "cut raw ''://''")
  case None
  with assms have "a = ''http://'' @ raw"
    by (auto simp: normalizeURL_def splitn2_def Let_def split: sum.splits if_splits)
  then show ?thesis by (intro exI [of _ "''http''"] exI [of _ raw]) simp
next
  case (Some p)
  obtain x y where p: "p = (x, y)" by fastforce
  from Some p have raw: "raw = x @ ''://'' @ y" using cut_sep by blast
  from assms Some p have "(x = ''http'' \<or> x = ''https'') \<and> a = raw"
    by (auto simp: normalizeURL_def splitn2_def Let_def split: sum.splits if_splits)
  with raw show ?thesis by blast
qed

lemma normalizeURL_backend:
  assumes "normalizeURL raw = Inr a" shows "backend_url a"
proof -
  obtain sch s where a: "a = sch @ ''://'' @ s" and sch: "sch = ''http'' \<or> sch = ''https''"
    and from_raw: "a = raw \<or> a = ''http://'' @ raw"
    using normalizeURL_form [OF assms] by blast
  obtain u where u: "url_Parse a = Inr u" and path: "u_Path u = [] \<or> has_suffix (u_Path u) ''/''"
    using assms by (auto simp: normalizeURL_def Let_def split: sum.splits if_splits)
  have "u_Scheme u = sch \<and> u_Opaque u = []" using url_Parse_scheme [of sch s u] u a sch by simp
  with u path sch show ?thesis by (auto simp: backend_url_def)
qed

lemma address_normalized: "normalizeAddress raw = Inr a \<Longrightarrow> net_address a"
  using normalizeAddress_form by (auto simp: net_address_def)

lemma validateHTTP_valid: "validateHTTP t = Inr t' \<Longrightarrow> ct_Protocol t = HTTP \<Longrightarrow> valid_tunnel t'"
  using normalizeURL_backend [of "ct_Addr t"]
  by (auto simp: validateHTTP_def valid_tunnel_def Let_def protocol_names split: if_splits sum.splits)

lemma validateTCP_valid: "validateTCP t = Inr t' \<Longrightarrow> ct_Protocol t \<in> {TCP, TCP4, TCP6} \<Longrightarrow> valid_tunnel t'"
  using address_normalized [of "ct_Addr t"] address_normalized [of "ct_RemoteAddr t"]
  by (auto simp: validateTCP_def valid_tunnel_def Let_def protocol_names split: if_splits sum.splits)

lemma validateSNI_valid: "validateSNI t = Inr t' \<Longrightarrow> ct_Protocol t = SNI \<Longrightarrow> valid_tunnel t'"
  using address_normalized [of "ct_Addr t"]
  by (auto simp: validateSNI_def valid_tunnel_def Let_def protocol_names split: if_splits sum.splits)

lemma named_InrD: "map_sum f id x = Inr t \<Longrightarrow> x = Inr t"
  by (cases x) auto

lemma validate_tunnel_valid:
  assumes "validate_tunnel name p = Inr t" shows "valid_tunnel t"
proof -
  obtain q where q: "p = Some q" using assms by (cases p) (simp_all add: validate_tunnel_def)
  consider "ct_Protocol q = HTTP" "validateHTTP q = Inr t"
    | "ct_Protocol q \<in> {TCP, TCP4, TCP6}" "validateTCP q = Inr t"
    | "ct_Protocol q = SNI" "validateSNI q = Inr t"
    using assms by (auto simp: validate_tunnel_def q Let_def dest!: named_InrD split: if_splits)
  then show ?thesis
    by cases (use validateHTTP_valid validateTCP_valid validateSNI_valid in blast)+
qed

text \<open>The loop as a whole: it succeeds when every entry does, and keeps the names.\<close>

definition validated :: "string \<times> tunnel_config option \<Rightarrow> string \<times> tunnel_config option" where
  "validated e = (fst e, case validate_tunnel (fst e) (snd e) of Inl _ \<Rightarrow> None | Inr t \<Rightarrow> Some t)"

lemma validate_tunnels_iff:
  "validate_tunnels m = Inr m' \<longleftrightarrow>
     (\<forall>e \<in> set m. \<not> isl (validate_tunnel (fst e) (snd e))) \<and> m' = map validated m"
proof (induction m arbitrary: m')
  case Nil
  then show ?case by auto
next
  case (Cons e m)
  obtain name p where e: "e = (name, p)" by fastforce
  show ?case
  proof (cases "validate_tunnel name p")
    case (Inl err)
    then show ?thesis by (simp add: e)
  next
    case (Inr t)
    have "validate_tunnels (e # m) = Inr m' \<longleftrightarrow> (\<exists>n. validate_tunnels m = Inr n \<and> m' = (name, Some t) # n)"
      using Inr by (cases "validate_tunnels m") (auto simp: e)
    then show ?thesis using Cons.IH Inr by (auto simp: e validated_def)
  qed
qed

lemma load_valid:
  assumes "loadClientConfigFromFile ReadFile Unmarshal file = Inr c"
  shows "net_address (cfg_ServerAddr c) \<and> (\<forall>e \<in> set (cfg_Tunnels c). \<exists>t. snd e = Some t \<and> valid_tunnel t)"
proof -
  from assms obtain c0 a m where a: "normalizeAddress (cfg_ServerAddr c0) = Inr a"
    and m: "validate_tunnels (cfg_Tunnels c0) = Inr m" and c: "c = c0\<lparr>cfg_ServerAddr := a, cfg_Tunnels := m\<rparr>"
    by (auto simp: loadClientConfigFromFile_def Let_def dest!: map_sum_InrD split: sum.splits if_splits)
  have "\<exists>t. snd e = Some t \<and> valid_tunnel t" if "e \<in> set m" for e
  proof -
    from that m obtain e0 where e0: "\<not> isl (validate_tunnel (fst e0) (snd e0))" "e = validated e0"
      by (auto simp: validate_tunnels_iff)
    then obtain t where "validate_tunnel (fst e0) (snd e0) = Inr t"
      by (cases "validate_tunnel (fst e0) (snd e0)") auto
    then show ?thesis using e0(2) validate_tunnel_valid by (auto simp: validated_def)
  qed
  with address_normalized [OF a] show ?thesis by (simp add: c)
qed

text \<open>
  C35. What a configuration that loads looks like. The server address is a host and a port with a colon in between:
  the host is not empty and has no brackets, the port has neither colons nor brackets and may be empty; the address
  splits again into the two unless the host is an IPv6 address, whose brackets \<open>normalizeAddress\<close> has taken off.
  Every tunnel is there and has exactly the fields its protocol uses (\<open>valid_tunnel\<close>): an HTTP tunnel a host and the
  absolute \<open>http\<close> or \<open>https\<close> URL of a backend, whose path, if there is one, ends in a slash; a TCP tunnel two
  addresses as above; an SNI tunnel a host and one such address.
\<close>

theorem loadClientConfigFromFile_valid:
  assumes "loadClientConfigFromFile ReadFile Unmarshal file = Inr c"
  shows "(\<exists>host port. cfg_ServerAddr c = host @ '':'' @ port \<and> host \<noteq> [] \<and> unbracketed host \<and> plain port \<and>
      (if CHR '':'' \<in> set host then isl (split_host_port (cfg_ServerAddr c))
       else split_host_port (cfg_ServerAddr c) = Inr (host, port))) \<and>
    (\<forall>e \<in> set (cfg_Tunnels c). \<exists>t. snd e = Some t \<and> valid_tunnel t)"
proof
  from load_valid [OF assms] obtain host port where "host_colon_port (cfg_ServerAddr c) host port"
    by (auto simp: net_address_def)
  with split_normalized [OF this] show "\<exists>host port. cfg_ServerAddr c = host @ '':'' @ port \<and> host \<noteq> [] \<and>
      unbracketed host \<and> plain port \<and>
      (if CHR '':'' \<in> set host then isl (split_host_port (cfg_ServerAddr c))
       else split_host_port (cfg_ServerAddr c) = Inr (host, port))"
    by (intro exI [of _ host] exI [of _ port]) (simp add: host_colon_port_def)
qed (use load_valid [OF assms] in blast)

definition demo_file :: cmd_config where
  "demo_file = \<lparr>cfg_ServerAddr = ''a.b:5223'', cfg_TLSCrt = ''client.crt'', cfg_TLSKey = ''client.key'', cfg_RootCA = [],
     cfg_Backoff = DefaultBackoffConfig,
     cfg_Tunnels = [(''ssh'', Some \<lparr>ct_Protocol = ''tcp'', ct_Addr = ''22'', ct_Auth = [], ct_Host = [], ct_RemoteAddr = ''0.0.0.0:22''\<rparr>)]\<rparr>"

definition demo_loaded :: cmd_config where
  "demo_loaded = demo_file\<lparr>cfg_Tunnels := [(''ssh'', Some \<lparr>ct_Protocol = ''tcp'', ct_Addr = ''127.0.0.1:22'', ct_Auth = [],
     ct_Host = [], ct_RemoteAddr = ''0.0.0.0:22''\<rparr>)]\<rparr>"

lemma demo_addresses:
  "normalizeAddress ''22'' = Inr ''127.0.0.1:22''" "normalizeAddress ''0.0.0.0:22'' = Inr ''0.0.0.0:22''"
  "normalizeAddress ''a.b:5223'' = Inr ''a.b:5223''"
  by code_simp+

lemma demo_loads:
  "loadClientConfigFromFile (\<lambda>f. Inr ''server_addr: a.b:5223'') (\<lambda>b c. Inr demo_file) ''tunnel.yml'' = Inr demo_loaded"
  by (simp add: loadClientConfigFromFile_def demo_file_def demo_loaded_def Let_def validate_tunnel_def validateTCP_def
      protocol_names demo_addresses)

lemma loadClientConfigFromFile_valid_witness:
  "\<exists>t. snd (hd (cfg_Tunnels demo_loaded)) = Some t \<and> valid_tunnel t"
  using loadClientConfigFromFile_valid [OF demo_loads] by (simp add: demo_loaded_def)

text \<open>
  Go iterates a map in random order, but loading does not depend on it: for any two orders of the same
  tunnels either both are refused, though perhaps with different errors, or both give the same
  tunnels.
\<close>

theorem validate_tunnels_order:
  assumes "mset m = mset m'"
  shows "isl (validate_tunnels m) = isl (validate_tunnels m') \<and>
    (\<forall>n. validate_tunnels m = Inr n \<longrightarrow> (\<exists>n'. validate_tunnels m' = Inr n' \<and> mset n = mset n'))"
proof -
  have eq: "set m = set m'" using assms by (rule mset_eq_setD)
  then have "(\<exists>n. validate_tunnels m = Inr n) = (\<exists>n. validate_tunnels m' = Inr n)"
    by (simp add: validate_tunnels_iff)
  moreover have "isl x = (\<not> (\<exists>n. x = Inr n))" for x :: "go_error + tunnel_map" by (cases x) auto
  moreover have "mset (map validated m) = mset (map validated m')" using assms by simp
  ultimately show ?thesis using eq by (simp add: validate_tunnels_iff)
qed

lemma validate_tunnels_order_witness:
  "isl (validate_tunnels [(''a'', None), (''b'', None)]) = isl (validate_tunnels [(''b'', None), (''a'', None)])"
  using validate_tunnels_order [of "[(''a'', None), (''b'', None)]" "[(''b'', None), (''a'', None)]"] by simp

lemma validate_tunnels_nil:
  assumes "(name, None) \<in> set m" and "\<forall>e \<in> set m. snd e = None \<or> \<not> isl (validate_tunnel (fst e) (snd e))"
  shows "validate_tunnels m = Inl (Panic ''nil pointer dereference'')"
  using assms
proof (induction m)
  case Nil
  then show ?case by simp
next
  case (Cons e m)
  obtain n p where e: "e = (n, p)" by fastforce
  show ?case
  proof (cases p)
    case None
    then show ?thesis by (simp add: e validate_tunnel_def)
  next
    case (Some t)
    with Cons.prems e obtain t' where "validate_tunnel n p = Inr t'"
      by (cases "validate_tunnel n p") auto
    with Cons Some show ?thesis by (simp add: e)
  qed
qed

text \<open>
  A tunnel without a body, which YAML reads as a nil pointer, makes the client panic while it loads
  its configuration, when everything else in the file is valid.
\<close>

theorem load_nil_tunnel_panics:
  assumes "ReadFile file = Inr buf" and "\<And>c. Unmarshal buf c = Inr c'" and "cfg_ServerAddr c' \<noteq> []"
    and "normalizeAddress (cfg_ServerAddr c') = Inr a" and "(name, None) \<in> set (cfg_Tunnels c')"
    and "\<forall>e \<in> set (cfg_Tunnels c'). snd e = None \<or> \<not> isl (validate_tunnel (fst e) (snd e))"
  shows "loadClientConfigFromFile ReadFile Unmarshal file = Inl (Panic ''nil pointer dereference'')"
  using assms(1-4) validate_tunnels_nil [OF assms(5,6)] by (simp add: loadClientConfigFromFile_def Let_def)

lemma load_nil_tunnel_panics_witness:
  "loadClientConfigFromFile (\<lambda>f. Inr []) (\<lambda>b c. Inr (demo_file\<lparr>cfg_Tunnels := [(''www'', None)]\<rparr>)) ''tunnel.yml'' =
     Inl (Panic ''nil pointer dereference'')"
  by (rule load_nil_tunnel_panics [of _ _ "[]" _ "demo_file\<lparr>cfg_Tunnels := [(''www'', None)]\<rparr>" "''a.b:5223''" "''www''"])
     (simp_all add: demo_file_def demo_addresses)

end
