(* ===== verification/Go_Flag.thy ===== *)
theory Go_Flag
  imports GoStd
begin

text \<open>
  The part of Go's \<open>flag\<close> and \<open>strconv\<close> behind the two command lines: string, integer and boolean flags
  of the default flag set, which exits the process on an error.
\<close>

section \<open>Integers and booleans\<close>

definition digit_value :: "char \<Rightarrow> nat option" where
  "digit_value c =
     (let n = char_code (lower_byte c) in
      if is_digit c then Some (n - 48) else if 97 \<le> n \<and> n \<le> 122 then Some (n - 87) else None)"

text \<open>\<open>ParseUint\<close> with base 0, without the range check: underscores are skipped here.\<close>

fun digits_in :: "nat \<Rightarrow> nat \<Rightarrow> string \<Rightarrow> nat option" where
  "digits_in base acc [] = Some acc"
| "digits_in base acc (c # s) =
     (if c = CHR ''_'' then digits_in base acc s
      else case digit_value c of
        None \<Rightarrow> None
      | Some d \<Rightarrow> if base \<le> d then None else digits_in base (base * acc + d) s)"

text \<open>
  \<open>underscoreOK\<close> after the base prefix: \<open>prev\<close> is the class of the byte before, \<open>0\<close> for a digit or the
  prefix, \<open>_\<close> for an underscore and \<open>!\<close> for anything else.
\<close>

fun underscores_ok :: "bool \<Rightarrow> char \<Rightarrow> string \<Rightarrow> bool" where
  "underscores_ok hex prev [] = (prev \<noteq> CHR ''_'')"
| "underscores_ok hex prev (c # s) =
     (if is_digit c \<or> hex \<and> (\<exists>d \<in> set ''abcdef''. lower_byte c = d) then underscores_ok hex CHR ''0'' s
      else if c = CHR ''_'' then prev = CHR ''0'' \<and> underscores_ok hex CHR ''_'' s
      else prev \<noteq> CHR ''_'' \<and> underscores_ok hex CHR ''!'' s)"

definition base_prefix :: "string \<Rightarrow> nat option" where
  "base_prefix s =
     (case s of
        c # d # _ \<Rightarrow>
          if c \<noteq> CHR ''0'' then None
          else if lower_byte d = CHR ''b'' then Some 2
          else if lower_byte d = CHR ''o'' then Some 8
          else if lower_byte d = CHR ''x'' then Some 16
          else None
      | _ \<Rightarrow> None)"

definition parse_uint :: "string \<Rightarrow> nat option" where
  "parse_uint s =
     (let (base, ds) =
        (if has_prefix s ''0'' then
           (case base_prefix s of
              Some b \<Rightarrow> if 3 \<le> length s then (b, drop 2 s) else (8, drop 1 s)
            | None \<Rightarrow> (8, drop 1 s))
         else (10, s))
      in if s = [] then None
         else if CHR ''_'' \<in> set ds \<and>
           \<not> (case base_prefix s of
                Some b \<Rightarrow> underscores_ok (b = 16) CHR ''0'' (drop 2 s)
              | None \<Rightarrow> underscores_ok False CHR ''^'' s)
         then None
         else digits_in base 0 ds)"

definition parse_int :: "string \<Rightarrow> int option" where
  "parse_int s =
     (let (neg, ds) = split_sign s in
      case parse_uint ds of
        None \<Rightarrow> None
      | Some n \<Rightarrow>
          let i = (if neg then - int n else int n) in
          if i < - (2 ^ 63) \<or> 2 ^ 63 \<le> i then None else Some i)"

definition parse_bool :: "string \<Rightarrow> bool option" where
  "parse_bool s =
     (if s \<in> set [''1'', ''t'', ''T'', ''true'', ''TRUE'', ''True''] then Some True
      else if s \<in> set [''0'', ''f'', ''F'', ''false'', ''FALSE'', ''False''] then Some False
      else None)"


section \<open>Flags\<close>

datatype flag_value = VString string | VInt int | VBool bool

text \<open>The flag set: each flag with its value so far. \<open>None\<close> is an invalid value.\<close>

type_synonym flag_set = "(string \<times> flag_value) list"

definition set_flag :: "flag_value \<Rightarrow> string \<Rightarrow> flag_value option" where
  "set_flag old v =
     (case old of
        VString _ \<Rightarrow> Some (VString v)
      | VInt _ \<Rightarrow> map_option VInt (parse_int v)
      | VBool _ \<Rightarrow> map_option VBool (parse_bool v))"

definition update_flag :: "string \<Rightarrow> flag_value \<Rightarrow> flag_set \<Rightarrow> flag_set" where
  "update_flag name v fs = map (\<lambda>(n, w). (n, if n = name then v else w)) fs"

text \<open>The end of parsing: the flags and the remaining arguments, or the exit status of the process.\<close>

datatype parsed = Parsed flag_set "string list" | Exits int

function flag_parse :: "flag_set \<Rightarrow> string list \<Rightarrow> parsed" where
  "flag_parse fs [] = Parsed fs []"
| "flag_parse fs (s # args) =
     (if length s < 2 \<or> hd s \<noteq> CHR ''-'' then Parsed fs (s # args)
      else if s = ''--'' then Parsed fs args
      else
        let name = (if s ! 1 = CHR ''-'' then drop 2 s else drop 1 s) in
        if name = [] \<or> hd name = CHR ''-'' \<or> hd name = CHR ''='' then Exits 2
        else
          let (name, value) =
            (case cut (tl name) ''='' of None \<Rightarrow> (name, None) | Some (a, v) \<Rightarrow> (hd name # a, Some v))
          in
          case map_of fs name of
            None \<Rightarrow> if name = ''help'' \<or> name = ''h'' then Exits 0 else Exits 2
          | Some old \<Rightarrow>
              (case (value, old) of
                 (None, VBool _) \<Rightarrow> flag_parse (update_flag name (VBool True) fs) args
               | (Some v, _) \<Rightarrow>
                   (case set_flag old v of None \<Rightarrow> Exits 2 | Some w \<Rightarrow> flag_parse (update_flag name w fs) args)
               | (None, _) \<Rightarrow>
                   (case args of
                      [] \<Rightarrow> Exits 2
                    | v # rest \<Rightarrow>
                        (case set_flag old v of None \<Rightarrow> Exits 2 | Some w \<Rightarrow> flag_parse (update_flag name w fs) rest))))"
  by pat_completeness auto
termination
  by (relation "measure (\<lambda>(fs, args). length args)") auto

definition string_flag :: "flag_set \<Rightarrow> string \<Rightarrow> string" where
  "string_flag fs n = (case map_of fs n of Some (VString s) \<Rightarrow> s | _ \<Rightarrow> [])"

definition int_flag :: "flag_set \<Rightarrow> string \<Rightarrow> int" where
  "int_flag fs n = (case map_of fs n of Some (VInt i) \<Rightarrow> i | _ \<Rightarrow> 0)"

definition bool_flag :: "flag_set \<Rightarrow> string \<Rightarrow> bool" where
  "bool_flag fs n = (case map_of fs n of Some (VBool b) \<Rightarrow> b | _ \<Rightarrow> False)"

text \<open>\<open>flag.Arg(0)\<close> is empty when there is no argument.\<close>

definition arg0 :: "string list \<Rightarrow> string" where
  "arg0 args = (case args of [] \<Rightarrow> [] | a # _ \<Rightarrow> a)"

lemma flag_parse_plain:
  "hd s \<noteq> CHR ''-'' \<Longrightarrow> flag_parse fs (s # args) = Parsed fs (s # args)"
  by simp

declare flag_parse.simps(2) [simp del]

lemma map_of_update_flag:
  "map_of (update_flag n v fs) k = (if k = n then map_option (\<lambda>_. v) (map_of fs k) else map_of fs k)"
  by (induction fs) (auto simp: update_flag_def)

end
