(* ===== verification/Client_Core.thy ===== *)
theory Client_Core
  imports Control_Msg Backoff
begin

text \<open>
  The client (\<open>client.go\<close>): its configuration, dialling with backoff, the loop of sessions with the
  server, and the handling of the server's requests.
\<close>

section \<open>Configuration\<close>

text \<open>
  Of the TLS configuration, the dial function, the backoff policy and the proxy function the code
  decides on whether they are given. A Go map is the list of its entries.
\<close>

record client_config =
  cc_ServerAddr :: string
  cc_TLSClientConfig :: bool
  cc_DialTLS :: bool
  cc_Backoff :: bool
  cc_Tunnels :: "(string \<times> tunnel) list"
  cc_Proxy :: bool

record client =
  c_config :: client_config
  c_conn :: "nat option"
  c_serverErr :: "go_error option"
  c_lastDisconnect :: "int option"

definition NewClient :: "client_config \<Rightarrow> go_error + client" where
  "NewClient config =
     (if cc_ServerAddr config = [] then Inl (Errorf ''missing ServerAddr'')
      else if \<not> cc_TLSClientConfig config then Inl (Errorf ''missing TLSClientConfig'')
      else if length (cc_Tunnels config) = 0 then Inl (Errorf ''missing Tunnels'')
      else if \<not> cc_Proxy config then Inl (Errorf ''missing Proxy'')
      else Inr \<lparr>c_config = config, c_conn = None, c_serverErr = None, c_lastDisconnect = None\<rparr>)"


section \<open>Dialling\<close>

text \<open>
  One attempt: what the configured dial function gives, or what dialling, \<open>keepAlive\<close> and the TLS
  handshake give; how long it takes and the random number for the pause after it.
\<close>

record attempt =
  at_DialTLS :: "nat option \<times> go_error option"
  at_Dial :: "go_error + nat"
  at_keepAlive :: "go_error option"
  at_Handshake :: "go_error option"
  at_duration :: int
  at_random :: rat

text \<open>\<open>doDial\<close>: the connection, the error and the connection it closed.\<close>

definition doDial :: "client_config \<Rightarrow> attempt \<Rightarrow> nat option \<times> go_error option \<times> nat option" where
  "doDial config a =
     (let (conn, err) =
        (if cc_DialTLS config then at_DialTLS a
         else case at_Dial a of
           Inl err \<Rightarrow> (None, Some err)
         | Inr conn \<Rightarrow>
             (Some conn, if at_keepAlive a = None then at_Handshake a else at_keepAlive a))
      in if err \<noteq> None then (None, err, conn) else (conn, None, None))"

text \<open>
  The loop of \<open>dial\<close> over the attempts; \<open>None\<close> while it is still dialling. \<open>now\<close> is the time, which
  advances by the attempts and the pauses. The policy is a parameter.
\<close>

fun dial_loop ::
  "(int \<Rightarrow> rat \<Rightarrow> 'b \<Rightarrow> int \<times> 'b) \<Rightarrow> (int \<Rightarrow> 'b \<Rightarrow> 'b) \<Rightarrow> client_config \<Rightarrow> attempt list \<Rightarrow> int \<Rightarrow> 'b \<Rightarrow>
   (go_error + nat option) option \<times> int \<times> 'b" where
  "dial_loop next_pause reset config [] now b = (None, now, b)"
| "dial_loop next_pause reset config (a # as) now b =
     (let now = now + at_duration a in
      case doDial config a of
        (conn, None, shut) \<Rightarrow> (Some (Inr conn), now, reset now b)
      | (conn, Some err, shut) \<Rightarrow>
          let (d, b) = next_pause now (at_random a) b in
          if d < 0 then (Some (Inl (Errorf (''backoff limit exeded: '' @ error_text err))), now, b)
          else dial_loop next_pause reset config as (now + d) b)"

definition dial ::
  "(int \<Rightarrow> rat \<Rightarrow> 'b \<Rightarrow> int \<times> 'b) \<Rightarrow> (int \<Rightarrow> 'b \<Rightarrow> 'b) \<Rightarrow> client_config \<Rightarrow> attempt list \<Rightarrow> int \<Rightarrow> 'b \<Rightarrow>
   (go_error + nat option) option \<times> int \<times> 'b" where
  "dial next_pause reset config as now b =
     (if cc_Backoff config then dial_loop next_pause reset config as now b
      else case as of
        [] \<Rightarrow> (None, now, b)
      | a # _ \<Rightarrow>
          (case doDial config a of
             (conn, None, shut) \<Rightarrow> (Some (Inr conn), now + at_duration a, b)
           | (conn, Some err, shut) \<Rightarrow> (Some (Inl err), now + at_duration a, b)))"

definition attempt_ok :: "attempt \<Rightarrow> bool" where
  "attempt_ok a \<longleftrightarrow> 0 \<le> at_duration a \<and> 0 \<le> at_random a \<and> at_random a < 1"

text \<open>
  For any policy that meets the interface: while the loop goes on, every failed attempt has cost at
  least one pause, so the number of attempts is bounded by the time until the deadline.
\<close>

context backoff_policy
begin

lemma dial_loop_running:
  assumes "dial_loop next_pause reset config as now b = (None, now', b')"
    and "good b" and "\<forall>a \<in> set as. attempt_ok a"
  shows "now + int (length as) * pause b \<le> now' \<and> good b' \<and> deadline b' = deadline b \<and> pause b \<le> pause b' \<and>
    (as \<noteq> [] \<longrightarrow> now + (int (length as) - 1) * pause b \<le> deadline b)"
  using assms
proof (induction as arbitrary: now b)
  case Nil
  then show ?case by simp
next
  case (Cons a as)
  let ?t = "now + at_duration a"
  obtain d c where n: "next_pause ?t (at_random a) b = (d, c)" by fastforce
  obtain conn err shut where dd: "doDial config a = (conn, err, shut)" by (metis prod_cases3)
  have at: "attempt_ok a" using Cons.prems(3) by simp
  from Cons.prems(1) dd obtain e where err: "err = Some e" by (cases err) (auto simp: Let_def)
  with Cons.prems(1) dd n have d: "\<not> d < 0" and
    rest: "dial_loop next_pause reset config as (?t + d) c = (None, now', b')"
    by (auto simp: Let_def split: if_splits)
  from next_cases [OF Cons.prems(2) _ _ n] at d have step: "pause b \<le> d" "?t \<le> deadline b" "good c"
      "deadline c = deadline b" "pause b \<le> pause c"
    by (auto simp: attempt_ok_def)
  have IH: "?t + d + int (length as) * pause c \<le> now' \<and> good b' \<and> deadline b' = deadline c \<and> pause c \<le> pause b' \<and>
      (as \<noteq> [] \<longrightarrow> ?t + d + (int (length as) - 1) * pause c \<le> deadline c)"
    using Cons.IH [OF rest step(3)] Cons.prems(3) by simp
  have dur: "0 \<le> at_duration a" using at by (simp add: attempt_ok_def)
  have mono: "int (length as) * pause b \<le> int (length as) * pause c"
    using step(5) by (intro mult_left_mono) simp_all
  have "now + int (length (a # as)) * pause b \<le> now'"
    using IH mono step(1) dur by (simp add: algebra_simps)
  moreover have "now + (int (length (a # as)) - 1) * pause b \<le> deadline b"
  proof (cases "as = []")
    case True
    with step(2) dur show ?thesis by simp
  next
    case False
    then have "(int (length as) - 1) * pause b \<le> (int (length as) - 1) * pause c"
      using step(5) by (intro mult_left_mono) (auto simp: Suc_leI)
    with IH False step(1,4) dur show ?thesis by (simp add: algebra_simps)
  qed
  ultimately show ?case using IH step(4,5) by simp
qed

lemma dial_loop_ends:
  assumes "good b" and "\<forall>a \<in> set as. attempt_ok a"
    and "deadline b - now < (int (length as) - 1) * pause b" and "as \<noteq> []"
  shows "fst (dial_loop next_pause reset config as now b) \<noteq> None"
proof
  assume "fst (dial_loop next_pause reset config as now b) = None"
  then obtain now' b' where "dial_loop next_pause reset config as now b = (None, now', b')"
    by (metis prod.collapse)
  from dial_loop_running [OF this assms(1,2)] assms(3,4) show False by simp
qed

end

text \<open>Without a limit the exponential policy goes on as long as attempts fail.\<close>

lemma dial_loop_unlimited:
  "eb_sound b \<Longrightarrow> MaxElapsedTime b = 0 \<Longrightarrow> \<forall>a \<in> set as. attempt_ok a \<and> fst (snd (doDial config a)) \<noteq> None \<Longrightarrow>
   fst (dial_loop NextBackOff Reset config as now b) = None"
proof (induction as arbitrary: now b)
  case (Cons a as)
  obtain conn err shut where dd: "doDial config a = (conn, Some err, shut)"
    using Cons.prems(3) by (metis list.set_intros(1) not_None_eq prod_cases3 fst_conv snd_conv)
  have r: "0 \<le> at_random a" "at_random a < 1" using Cons.prems(3) by (auto simp: attempt_ok_def)
  obtain d b' where n: "NextBackOff (now + at_duration a) (at_random a) b = (d, b')" by fastforce
  from Cons.prems(1) r n show ?case
  proof (cases rule: NextBackOff_cases)
    case wait
    then have "\<not> d < 0" "MaxElapsedTime b' = 0" using Cons.prems(2) by simp_all
    with Cons.IH [OF wait(5)] Cons.prems(3) show ?thesis by (simp add: dd n Let_def)
  qed (use Cons.prems(2) in simp)
qed simp

text \<open>
  C25. Dialling with an exponential policy in good order, however long the attempts take and whatever the random
  numbers are. With a maximal elapsed time it ends: within a number of attempts that depends only on the time left
  until the policy's deadline and its smallest pause, the client is connected or has given up. With
  a maximal elapsed time of 0 it never gives up: as long as all attempts fail it goes on.
\<close>

theorem dial_terminates:
  assumes "cc_Backoff config" and "eb_sound b" and "\<forall>a \<in> set as. attempt_ok a"
  shows "(0 < MaxElapsedTime b \<and> as \<noteq> [] \<and> eb_deadline b - now < (int (length as) - 1) * eb_pause b \<longrightarrow>
      (\<exists>r. fst (dial NextBackOff Reset config as now b) = Some r)) \<and>
    (MaxElapsedTime b = 0 \<and> list_all (\<lambda>a. fst (snd (doDial config a)) \<noteq> None) as \<longrightarrow>
      fst (dial NextBackOff Reset config as now b) = None)"
proof (intro conjI impI)
  assume *: "0 < MaxElapsedTime b \<and> as \<noteq> [] \<and> eb_deadline b - now < (int (length as) - 1) * eb_pause b"
  with assms(2) have "eb_good b" by (simp add: eb_good_def)
  from exponential.dial_loop_ends [OF this assms(3), of now config] * assms(1)
  show "\<exists>r. fst (dial NextBackOff Reset config as now b) = Some r" by (simp add: dial_def option.discI)
next
  assume "MaxElapsedTime b = 0 \<and> list_all (\<lambda>a. fst (snd (doDial config a)) \<noteq> None) as"
  with dial_loop_unlimited [OF assms(2), of as config now] assms(1,3)
  show "fst (dial NextBackOff Reset config as now b) = None" by (simp add: dial_def list_all_iff)
qed

text \<open>
  A client gives up on the first failure after a long session: the policy is reset when a connection
  succeeds, not when it is lost, so after a session longer than its maximal elapsed time a single
  failed attempt is past the deadline and \<open>dial\<close> returns without a retry.
\<close>

theorem dial_after_long_session:
  assumes "cc_Backoff config" and "doDial config a = (conn, Some e, shut)"
    and "MaxElapsedTime b \<noteq> 0" and "MaxElapsedTime b < now + at_duration a - startTime b"
  shows "fst (dial NextBackOff Reset config (a # as) now b) =
    Some (Inl (Errorf (''backoff limit exeded: '' @ error_text e)))"
  using assms by (simp add: dial_def NextBackOff_def Let_def)


section \<open>Handling the requests of the server\<close>

text \<open>
  \<open>fmt.Errorf\<close> of a format without operands, which is how the client makes an error of the text it is
  sent: every verb of the text is reported as missing. \<open>spec_end\<close> skips flags, width, precision and
  argument indexes as \<open>fmt\<close> does and says whether an index was seen and what was already printed.
\<close>

definition skip_index :: "string \<Rightarrow> bool \<times> string" where
  "skip_index s =
     (case s of
        [] \<Rightarrow> (False, s)
      | c # cs \<Rightarrow>
          if c = CHR ''['' then (True, case index_byte s CHR '']'' of None \<Rightarrow> cs | Some k \<Rightarrow> drop (Suc k) s)
          else (False, s))"

definition starts_with :: "char \<Rightarrow> string \<Rightarrow> bool" where
  "starts_with c s = (case s of [] \<Rightarrow> False | d # _ \<Rightarrow> d = c)"

definition spec_end :: "string \<Rightarrow> string \<times> bool \<times> string" where
  "spec_end s =
     (let s = dropWhile (\<lambda>c. c \<in> set ''#0+- '') s;
          (ix, s) = skip_index s;
          (out, ix1, s) =
            (if starts_with CHR ''*'' s then (''%!(BADWIDTH)'', False, tl s)
             else ([], ix, dropWhile is_digit s));
          (out, ix2, s) =
            (if starts_with CHR ''.'' s then
               (let (ix3, s) = skip_index (tl s) in
                if starts_with CHR ''*'' s then (out @ ''%!(BADPREC)'', ix3, tl s)
                else (out, ix3, dropWhile is_digit s))
             else (out, ix1, s));
          (ix4, s) = (if ix2 then (True, s) else skip_index s)
      in (out, ix \<or> ix1 \<or> ix2 \<or> ix4, s))"

text \<open>Every verb takes at least one byte, so the length of the text is enough fuel.\<close>

fun format_fuel :: "nat \<Rightarrow> string \<Rightarrow> string" where
  "format_fuel 0 s = []"
| "format_fuel (Suc n) [] = []"
| "format_fuel (Suc n) (c # s) =
     (if c \<noteq> CHR ''%'' then c # format_fuel n s
      else
        let (out, ix, s) = spec_end s in
        out @ (case s of
                 [] \<Rightarrow> ''%!(NOVERB)''
               | v # s \<Rightarrow>
                   (if v = CHR ''%'' then ''%''
                    else ''%!'' @ [v] @ (if ix then ''(BADINDEX)'' else ''(MISSING)'')) @ format_fuel n s))"

definition format0 :: "string \<Rightarrow> string" where
  "format0 s = format_fuel (length s) s"



text \<open>
  What the handler of a request answers. An unknown action dereferences a nil error; the HTTP/2 library
  recovers that panic and resets the stream.
\<close>

datatype answer =
    Handshake_answer string
  | Error_noted
  | Bad_request string
  | Proxied control_message
  | Handler_panic

definition handleHandshakeError :: "request \<Rightarrow> client \<Rightarrow> answer \<times> client" where
  "handleHandshakeError r c =
     (let err = Errorf (format0 (header_get (req_Header r) HeaderError))
      in (Error_noted, c\<lparr>c_serverErr := Some (Errorf (''server error: '' @ error_text err))\<rparr>))"

definition handleHandshake ::
  "((string \<times> tunnel) list \<Rightarrow> go_error + string) \<Rightarrow> client \<Rightarrow> answer \<times> client" where
  "handleHandshake marshal c =
     (case marshal (cc_Tunnels (c_config c)) of
        Inl err \<Rightarrow> (Handshake_answer [], c)
      | Inr b \<Rightarrow> (Handshake_answer b, c))"

definition serveHTTP ::
  "((string \<times> tunnel) list \<Rightarrow> go_error + string) \<Rightarrow> request \<Rightarrow> client \<Rightarrow> answer \<times> client" where
  "serveHTTP marshal r c =
     (if req_Method r = ''CONNECT'' then
        if header_get (req_Header r) HeaderError \<noteq> [] then handleHandshakeError r c
        else handleHandshake marshal c
      else case ReadControlMessage r of
        Inl err \<Rightarrow> (Bad_request (error_text err @ [CHR 0x0A]), c)
      | Inr msg \<Rightarrow>
          if Action msg = ActionProxy then (Proxied msg, c) else (Handler_panic, c))"

definition Client_Stop :: "client \<Rightarrow> client" where
  "Client_Stop c = c\<lparr>c_conn := None\<rparr>"


section \<open>The loop of sessions\<close>

text \<open>
  One round of \<open>Start\<close>: the attempts of its dial, what happens while the connection is served and for
  how long. \<open>ServeConn\<close> returns when the connection ends, also by \<open>Stop\<close>.
\<close>

datatype client_event = Ev_request request | Ev_stop

record session =
  se_attempts :: "attempt list"
  se_events :: "client_event list"
  se_duration :: int

fun client_step :: "((string \<times> tunnel) list \<Rightarrow> go_error + string) \<Rightarrow> client_event \<Rightarrow> client \<Rightarrow> client" where
  "client_step marshal (Ev_request r) c = snd (serveHTTP marshal r c)"
| "client_step marshal Ev_stop c = Client_Stop c"

definition serve_session ::
  "((string \<times> tunnel) list \<Rightarrow> go_error + string) \<Rightarrow> session \<Rightarrow> client \<Rightarrow> client" where
  "serve_session marshal s c = fold (client_step marshal) (se_events s) c"

text \<open>What \<open>Start\<close> does after \<open>ServeConn\<close> has returned at time \<open>now\<close>.\<close>

definition session_error :: "int \<Rightarrow> client \<Rightarrow> go_error option" where
  "session_error now c =
     (if c_serverErr c = None \<and>
         (case c_lastDisconnect c of None \<Rightarrow> False | Some t \<Rightarrow> now - t < 5 * second)
      then Some (Errorf ''connection is being cut'') else c_serverErr c)"

definition disconnect :: "int \<Rightarrow> client \<Rightarrow> client" where
  "disconnect now c = c\<lparr>c_conn := None, c_serverErr := None, c_lastDisconnect := Some now\<rparr>"

text \<open>\<open>connect\<close> holds the mutex of the client while it dials; \<open>None\<close> while it is dialling.\<close>

definition connect ::
  "(int \<Rightarrow> rat \<Rightarrow> 'b \<Rightarrow> int \<times> 'b) \<Rightarrow> (int \<Rightarrow> 'b \<Rightarrow> 'b) \<Rightarrow> attempt list \<Rightarrow> client \<Rightarrow> int \<Rightarrow> 'b \<Rightarrow>
   (go_error + nat option) option \<times> client \<times> int \<times> 'b" where
  "connect next_pause reset as c now b =
     (if c_conn c \<noteq> None then (Some (Inl (Errorf ''already connected'')), c, now, b)
      else case dial next_pause reset (c_config c) as now b of
        (None, now, b) \<Rightarrow> (None, c, now, b)
      | (Some (Inl err), now, b) \<Rightarrow>
          (Some (Inl (Errorf (''failed to connect to server: '' @ error_text err))), c, now, b)
      | (Some (Inr conn), now, b) \<Rightarrow> (Some (Inr conn), c\<lparr>c_conn := conn\<rparr>, now, b))"

text \<open>
  The loop over the rounds; the first component is the error \<open>Start\<close> returns, \<open>None\<close> while it runs.
\<close>

fun Start_loop ::
  "(int \<Rightarrow> rat \<Rightarrow> 'b \<Rightarrow> int \<times> 'b) \<Rightarrow> (int \<Rightarrow> 'b \<Rightarrow> 'b) \<Rightarrow>
   ((string \<times> tunnel) list \<Rightarrow> go_error + string) \<Rightarrow> session list \<Rightarrow> client \<Rightarrow> int \<Rightarrow> 'b \<Rightarrow>
   go_error option \<times> client \<times> int \<times> 'b" where
  "Start_loop next_pause reset marshal [] c now b = (None, c, now, b)"
| "Start_loop next_pause reset marshal (s # ss) c now b =
     (case connect next_pause reset (se_attempts s) c now b of
        (None, c, now, b) \<Rightarrow> (None, c, now, b)
      | (Some (Inl err), c, now, b) \<Rightarrow> (Some err, c, now, b)
      | (Some (Inr conn), c, now, b) \<Rightarrow>
          let c = serve_session marshal s c;
              now = now + se_duration s;
              err = session_error now c;
              c = disconnect now c
          in if err \<noteq> None then (err, c, now, b)
             else Start_loop next_pause reset marshal ss c now b)"

lemma serveHTTP_frame [simp]:
  "c_config (snd (serveHTTP marshal r c)) = c_config c"
  "c_lastDisconnect (snd (serveHTTP marshal r c)) = c_lastDisconnect c"
  by (auto simp: serveHTTP_def handleHandshakeError_def handleHandshake_def Let_def split: sum.split)

lemma client_step_frame [simp]:
  "c_config (client_step marshal e c) = c_config c"
  "c_lastDisconnect (client_step marshal e c) = c_lastDisconnect c"
  by (cases e; simp add: Client_Stop_def)+

lemma serve_events_frame [simp]:
  "c_config (fold (client_step marshal) es c) = c_config c"
  "c_lastDisconnect (fold (client_step marshal) es c) = c_lastDisconnect c"
  by (induction es arbitrary: c) simp_all

definition is_server_error :: "client_event \<Rightarrow> bool" where
  "is_server_error e =
     (case e of Ev_request r \<Rightarrow> req_Method r = ''CONNECT'' \<and> header_get (req_Header r) HeaderError \<noteq> []
      | Ev_stop \<Rightarrow> False)"

lemma client_step_serverErr:
  "c_serverErr (client_step marshal e c) =
     (case e of
        Ev_request r \<Rightarrow>
          if is_server_error e
          then Some (Errorf (''server error: '' @ format0 (header_get (req_Header r) HeaderError)))
          else c_serverErr c
      | Ev_stop \<Rightarrow> c_serverErr c)"
  by (cases e)
     (auto simp: is_server_error_def serveHTTP_def handleHandshakeError_def handleHandshake_def
        Client_Stop_def Let_def split: sum.split)

lemma client_step_quiet: "\<not> is_server_error e \<Longrightarrow> c_serverErr (client_step marshal e c) = c_serverErr c"
  by (cases e) (simp_all only: client_step_serverErr client_event.case if_False)


lemma no_server_error:
  "\<forall>e \<in> set es. \<not> is_server_error e \<Longrightarrow> c_serverErr (fold (client_step marshal) es c) = c_serverErr c"
proof (induction es arbitrary: c)
  case (Cons e es)
  then have "c_serverErr (fold (client_step marshal) es (client_step marshal e c)) = c_serverErr (client_step marshal e c)"
    by simp
  also have "\<dots> = c_serverErr c" using Cons.prems by (intro client_step_quiet) simp
  finally show ?case by simp
qed simp


section \<open>What ends the client\<close>



text \<open>
  A session without a report from the server ends the client only when it follows the one before by
  less than five seconds; otherwise the client dials again, from a clean state. This holds as well when
  the session ended because \<open>Stop\<close> was called, so that \<open>Stop\<close> does not stop the client.
\<close>

theorem Start_reconnects:
  assumes "c_conn c = None" and "c_serverErr c = None"
    and "dial next_pause reset (c_config c) (se_attempts s) now b = (Some (Inr conn), now', b')"
    and "\<forall>e \<in> set (se_events s). \<not> is_server_error e"
  shows "Start_loop next_pause reset marshal (s # ss) c now b =
    (let now'' = now' + se_duration s;
         c' = c\<lparr>c_conn := None, c_serverErr := None, c_lastDisconnect := Some now''\<rparr>
     in if \<exists>t. c_lastDisconnect c = Some t \<and> now'' - t < 5 * second
        then (Some (Errorf ''connection is being cut''), c', now'', b')
        else Start_loop next_pause reset marshal ss c' now'' b')"
proof -
  let ?c = "serve_session marshal s (c\<lparr>c_conn := conn\<rparr>)"
  have err: "c_serverErr ?c = None"
    using assms(2,4) by (simp add: serve_session_def no_server_error)
  have "disconnect t ?c = c\<lparr>c_conn := None, c_serverErr := None, c_lastDisconnect := Some t\<rparr>" for t
    by (rule client.equality) (simp_all add: disconnect_def serve_session_def)
  moreover have "c_lastDisconnect ?c = c_lastDisconnect c" by (simp add: serve_session_def)
  ultimately show ?thesis
    using assms(1,3) err by (auto simp: connect_def Let_def session_error_def split: option.split)
qed

text \<open>
  The client's answer to each request of the server: a CONNECT with an error is noted, another CONNECT
  is answered with the tunnels, a complete message with the action \<open>proxy\<close> goes to the proxy, an
  incomplete one is refused and leaves the client unchanged, and a complete message with any other action
  makes the handler panic on a nil error.
\<close>

theorem serveHTTP_outcomes:
  "serveHTTP marshal r c =
     (if req_Method r = ''CONNECT'' then
        (if header_get (req_Header r) ''X-Error'' = []
         then (Handshake_answer (case marshal (cc_Tunnels (c_config c)) of Inl e \<Rightarrow> [] | Inr body \<Rightarrow> body), c)
         else (Error_noted, c\<lparr>c_serverErr :=
                 Some (Errorf (''server error: '' @ format0 (header_get (req_Header r) ''X-Error'')))\<rparr>))
      else case ReadControlMessage r of
        Inl e \<Rightarrow> (Bad_request (error_text e @ [CHR 0x0A]), c)
      | Inr msg \<Rightarrow> (if Action msg = ''proxy'' then Proxied msg else Handler_panic, c))"
  by (simp add: serveHTTP_def handleHandshakeError_def handleHandshake_def HeaderError_def ActionProxy_def Let_def
      split: sum.split)


section \<open>Examples\<close>

definition demo_client_config :: client_config where
  "demo_client_config = \<lparr>cc_ServerAddr = ''a.b:5223'', cc_TLSClientConfig = True, cc_DialTLS = False,
     cc_Backoff = True, cc_Tunnels = [], cc_Proxy = True\<rparr>"

definition demo_client :: client where
  "demo_client = \<lparr>c_config = demo_client_config, c_conn = None, c_serverErr = None, c_lastDisconnect = None\<rparr>"

definition demo_attempt :: "go_error + nat \<Rightarrow> attempt" where
  "demo_attempt r = \<lparr>at_DialTLS = (None, None), at_Dial = r, at_keepAlive = None, at_Handshake = None,
     at_duration = second, at_random = 0\<rparr>"

definition demo_backoff :: exp_backoff where
  "demo_backoff = NewExponentialBackOff 0"

lemma demo_backoff_good: "eb_good demo_backoff"
  unfolding eb_good_def eb_sound_def by (simp add: demo_backoff_def NewExponentialBackOff_def Reset_def second_def)

lemma demo_attempt_ok: "attempt_ok (demo_attempt r)"
  by (simp add: attempt_ok_def demo_attempt_def second_def)

lemma dial_terminates_witness:
  "(\<exists>r. fst (dial NextBackOff Reset demo_client_config (replicate 4000 (demo_attempt (Inl (Extern ''refused'')))) 0 demo_backoff) = Some r) \<and>
   fst (dial NextBackOff Reset demo_client_config (replicate 4000 (demo_attempt (Inl (Extern ''refused'')))) 0
     (demo_backoff\<lparr>MaxElapsedTime := 0\<rparr>)) = None"
proof
  let ?as = "replicate 4000 (demo_attempt (Inl (Extern ''refused'')))"
  have on: "cc_Backoff demo_client_config" by (simp add: demo_client_config_def)
  have ok: "\<forall>a \<in> set ?as. attempt_ok a" by (simp add: demo_attempt_ok)
  have good: "eb_sound demo_backoff" "0 < MaxElapsedTime demo_backoff" using demo_backoff_good by (simp_all add: eb_good_def)
  have "eb_deadline demo_backoff - 0 < (int (length ?as) - 1) * eb_pause demo_backoff"
    by (simp add: eb_deadline_def eb_pause_def demo_backoff_def NewExponentialBackOff_def Reset_def second_def)
  with dial_terminates [OF on good(1) ok, of 0] good(2)
  show "\<exists>r. fst (dial NextBackOff Reset demo_client_config ?as 0 demo_backoff) = Some r" by simp
  have "eb_sound (demo_backoff\<lparr>MaxElapsedTime := 0\<rparr>)" using good(1) by (simp add: eb_sound_def)
  moreover have "list_all (\<lambda>a. fst (snd (doDial demo_client_config a)) \<noteq> None) ?as"
    by (simp add: list_all_iff doDial_def demo_attempt_def demo_client_config_def)
  ultimately show "fst (dial NextBackOff Reset demo_client_config ?as 0 (demo_backoff\<lparr>MaxElapsedTime := 0\<rparr>)) = None"
    using dial_terminates [OF on _ ok, of "demo_backoff\<lparr>MaxElapsedTime := 0\<rparr>" 0] by simp
qed

lemma dial_after_long_session_witness:
  "fst (dial NextBackOff Reset demo_client_config [demo_attempt (Inl (Extern ''refused''))] (1000 * second) demo_backoff) =
     Some (Inl (Errorf (''backoff limit exeded: '' @ ''refused'')))"
  using dial_after_long_session [of demo_client_config "demo_attempt (Inl (Extern ''refused''))" None "Extern ''refused''" None
      demo_backoff "1000 * second" "[]"]
  by (simp add: demo_client_config_def doDial_def demo_attempt_def demo_backoff_def NewExponentialBackOff_def Reset_def second_def)


definition demo_session :: "client_event list \<Rightarrow> session" where
  "demo_session es = \<lparr>se_attempts = [demo_attempt (Inr 3)], se_events = es, se_duration = 60 * second\<rparr>"

lemma demo_dial:
  "dial NextBackOff Reset (c_config demo_client) (se_attempts (demo_session es)) 0 demo_backoff =
     (Some (Inr (Some 3)), second, Reset second demo_backoff)"
  by (simp add: dial_def demo_client_def demo_client_config_def demo_session_def doDial_def demo_attempt_def)


lemma Start_reconnects_witness:
  "fst (Start_loop NextBackOff Reset (\<lambda>_. Inr []) [demo_session [Ev_stop]] demo_client 0 demo_backoff) = None"
proof -
  have "c_conn demo_client = None" "c_serverErr demo_client = None" "c_lastDisconnect demo_client = None"
    "\<forall>e \<in> set (se_events (demo_session [Ev_stop])). \<not> is_server_error e"
    by (simp_all add: demo_client_def demo_session_def is_server_error_def)
  then show ?thesis
    using Start_reconnects [OF _ _ demo_dial, of "[Ev_stop]" "\<lambda>_. Inr []" "[]"] by (simp add: Let_def)
qed

end
