(* ===== verification/Client_Steps.thy ===== *)
theory Client_Steps
  imports Client_Core
begin

text \<open>
  The client with its goroutines interleaved (\<open>client.go\<close>): callers of \<open>Start\<close>, the handlers of the
  server's requests and callers of \<open>Stop\<close>. The mutex \<open>connMu\<close> is held while \<open>connect\<close> dials, in
  \<open>Stop\<close>, when a handler notes an error, and when \<open>Start\<close> cleans up after a session.
\<close>

section \<open>The machine\<close>

text \<open>
  Where a caller of \<open>Start\<close> is: before \<open>connect\<close>, dialling with the mutex, in \<open>ServeConn\<close>, between its
  return and the clean-up, or returned.
\<close>

datatype start_pc =
    S_idle
  | S_connect
  | S_dialing
  | S_serving "nat option"
  | S_served
  | S_returned go_error

record client_system =
  cs_client :: client
  cs_lock :: "nat option"
  cs_open :: "nat set"
  cs_pc :: "nat \<Rightarrow> start_pc"

datatype start_event =
    Start_called nat
  | Connect nat
  | Dialled nat "go_error + nat option"
  | Handled nat request
  | Serve_ended nat
  | Cleaned_up nat int
  | Stop_called

text \<open>
  \<open>ServeConn\<close> closes the connection when it returns, which it may do at any time. A new connection is
  none of the open ones. Only a handler that notes an error needs the mutex.
\<close>

inductive client_sys ::
  "((string \<times> tunnel) list \<Rightarrow> go_error + string) \<Rightarrow> client_system \<Rightarrow> start_event \<Rightarrow> client_system \<Rightarrow> bool"
  for marshal :: "(string \<times> tunnel) list \<Rightarrow> go_error + string" where
  start_called: "cs_pc s a = S_idle \<Longrightarrow>
    client_sys marshal s (Start_called a) (s\<lparr>cs_pc := (cs_pc s)(a := S_connect)\<rparr>)"
| refused: "cs_pc s a = S_connect \<Longrightarrow> cs_lock s = None \<Longrightarrow> c_conn (cs_client s) \<noteq> None \<Longrightarrow>
    client_sys marshal s (Connect a)
      (s\<lparr>cs_pc := (cs_pc s)(a := S_returned (Errorf ''already connected''))\<rparr>)"
| dialing: "cs_pc s a = S_connect \<Longrightarrow> cs_lock s = None \<Longrightarrow> c_conn (cs_client s) = None \<Longrightarrow>
    client_sys marshal s (Connect a) (s\<lparr>cs_pc := (cs_pc s)(a := S_dialing), cs_lock := Some a\<rparr>)"
| dialled: "cs_pc s a = S_dialing \<Longrightarrow> set_option conn \<inter> cs_open s = {} \<Longrightarrow>
    client_sys marshal s (Dialled a (Inr conn))
      (s\<lparr>cs_client := (cs_client s)\<lparr>c_conn := conn\<rparr>, cs_lock := None, cs_open := cs_open s \<union> set_option conn,
         cs_pc := (cs_pc s)(a := S_serving conn)\<rparr>)"
| dial_failed: "cs_pc s a = S_dialing \<Longrightarrow>
    client_sys marshal s (Dialled a (Inl err))
      (s\<lparr>cs_lock := None,
         cs_pc := (cs_pc s)(a := S_returned (Errorf (''failed to connect to server: '' @ error_text err)))\<rparr>)"
| handled: "cs_pc s a = S_serving conn \<Longrightarrow> cs_lock s = None \<or> \<not> is_server_error (Ev_request r) \<Longrightarrow>
    client_sys marshal s (Handled a r) (s\<lparr>cs_client := snd (serveHTTP marshal r (cs_client s))\<rparr>)"
| serve_ended: "cs_pc s a = S_serving conn \<Longrightarrow>
    client_sys marshal s (Serve_ended a)
      (s\<lparr>cs_open := cs_open s - set_option conn, cs_pc := (cs_pc s)(a := S_served)\<rparr>)"
| cleaned_up: "cs_pc s a = S_served \<Longrightarrow> cs_lock s = None \<Longrightarrow>
    client_sys marshal s (Cleaned_up a now)
      (s\<lparr>cs_client := disconnect now (cs_client s),
         cs_pc := (cs_pc s)(a := (case session_error now (cs_client s) of None \<Rightarrow> S_connect | Some err \<Rightarrow> S_returned err))\<rparr>)"
| stop_called: "cs_lock s = None \<Longrightarrow>
    client_sys marshal s Stop_called
      (s\<lparr>cs_client := Client_Stop (cs_client s), cs_open := cs_open s - set_option (c_conn (cs_client s))\<rparr>)"

inductive_cases client_sysE: "client_sys marshal s e t"

definition client_initial :: "client \<Rightarrow> client_system" where
  "client_initial c = \<lparr>cs_client = c, cs_lock = None, cs_open = {}, cs_pc = (\<lambda>_. S_idle)\<rparr>"


section \<open>The mutex and one caller of Start\<close>

definition client_lock_ok :: "client_system \<Rightarrow> bool" where
  "client_lock_ok s \<longleftrightarrow> (\<forall>a. cs_pc s a = S_dialing \<longleftrightarrow> cs_lock s = Some a)"

lemma client_lock_step:
  assumes "client_sys marshal s e t" and "client_lock_ok s"
  shows "client_lock_ok t"
proof -
  have free: "cs_lock s \<noteq> Some b" if "cs_pc s b \<noteq> S_dialing" for b
    using that assms(2) by (simp add: client_lock_ok_def)
  from assms(1) show ?thesis
  proof cases
    case (start_called a)
    with assms(2) free [of a] show ?thesis by (auto simp: client_lock_ok_def)
  next
    case (serve_ended a conn)
    with assms(2) free [of a] show ?thesis by (auto simp: client_lock_ok_def)
  qed (use assms(2) in \<open>auto simp: client_lock_ok_def split: option.split\<close>)
qed

text \<open>
  When only \<open>a\<close> has called \<open>Start\<close>: the client knows the connection that is served as long as it is
  open, and it knows none while \<open>a\<close> connects.
\<close>

fun sole_pc :: "start_pc \<Rightarrow> nat option \<Rightarrow> nat set \<Rightarrow> bool" where
  "sole_pc (S_serving conn) known opened \<longleftrightarrow>
     opened \<subseteq> set_option conn \<and> (known = conn \<or> known = None \<and> opened = {})"
| "sole_pc S_served known opened \<longleftrightarrow> opened = {}"
| "sole_pc _ known opened \<longleftrightarrow> known = None \<and> opened = {}"

definition sole_start :: "nat \<Rightarrow> client_system \<Rightarrow> bool" where
  "sole_start a s \<longleftrightarrow>
     (\<forall>b. b \<noteq> a \<longrightarrow> cs_pc s b = S_idle) \<and> client_lock_ok s \<and>
     sole_pc (cs_pc s a) (c_conn (cs_client s)) (cs_open s)"

lemma serveHTTP_conn [simp]: "c_conn (snd (serveHTTP marshal r c)) = c_conn c"
  by (auto simp: serveHTTP_def handleHandshakeError_def handleHandshake_def Let_def split: sum.split)

lemma sole_start_step:
  assumes "client_sys marshal s e t" and "sole_start a s" and "\<forall>b. e = Start_called b \<longrightarrow> b = a"
  shows "sole_start a t"
proof -
  have lock: "client_lock_ok t" using client_lock_step [OF assms(1)] assms(2) by (simp add: sole_start_def)
  have mine: "b = a" if "cs_pc s b \<noteq> S_idle" for b using that assms(2) by (auto simp: sole_start_def)
  have pc: "\<forall>b. b \<noteq> a \<longrightarrow> cs_pc s b = S_idle" "sole_pc (cs_pc s a) (c_conn (cs_client s)) (cs_open s)"
    using assms(2) by (simp_all add: sole_start_def)
  show ?thesis
    using assms(1)
  proof cases
    case (cleaned_up b now)
    moreover from this have "b = a" by (intro mine) simp
    ultimately show ?thesis using lock pc by (simp add: sole_start_def disconnect_def split: option.split)
  next
    case stop_called
    with pc lock show ?thesis
      by (cases "cs_pc s a") (auto simp: sole_start_def Client_Stop_def)
  next
    case (start_called b)
    with assms(3) have "b = a" by simp
    with start_called pc lock show ?thesis by (simp add: sole_start_def)
  next
    case (serve_ended b conn)
    moreover from this have "b = a" by (intro mine) simp
    ultimately show ?thesis using lock pc by (auto simp: sole_start_def)
  next
    case (dialled b conn)
    moreover from this have "b = a" by (intro mine) simp
    ultimately show ?thesis using lock pc by (simp add: sole_start_def)
  next
    case (handled b conn r)
    moreover from this have "b = a" by (intro mine) simp
    ultimately show ?thesis using lock pc by (simp add: sole_start_def)
  next
    case (refused b)
    moreover from this have "b = a" by (intro mine) simp
    ultimately show ?thesis using lock pc by (simp add: sole_start_def)
  next
    case (dialing b)
    moreover from this have "b = a" by (intro mine) simp
    ultimately show ?thesis using lock pc by (simp add: sole_start_def)
  next
    case (dial_failed b err)
    moreover from this have "b = a" by (intro mine) simp
    ultimately show ?thesis using lock pc by (simp add: sole_start_def)
  qed
qed

text \<open>Steps of a machine in which only \<open>a\<close> calls \<open>Start\<close>.\<close>

definition sole_sys ::
  "((string \<times> tunnel) list \<Rightarrow> go_error + string) \<Rightarrow> nat \<Rightarrow> client_system \<Rightarrow> start_event \<Rightarrow> client_system \<Rightarrow> bool" where
  "sole_sys marshal a s e t \<longleftrightarrow> client_sys marshal s e t \<and> (\<forall>b. e = Start_called b \<longrightarrow> b = a)"

interpretation sole: invariant_machine "\<lambda>s. \<exists>c. c_conn c = None \<and> s = client_initial c" "sole_sys marshal a" "sole_start a"
proof (rule invariant_machine.intro)
  show "sole_start a s" if "\<exists>c. c_conn c = None \<and> s = client_initial c" for s
    using that by (auto simp: sole_start_def client_initial_def client_lock_ok_def)
  show "sole_start a t" if "sole_start a s" "sole_sys marshal a s e t" for s e t
    using that(2) sole_start_step [of marshal s e t a] that(1) unfolding sole_sys_def by blast
qed

lemma sole_run:
  "run (client_sys marshal) s es t \<Longrightarrow> \<forall>b. Start_called b \<in> set es \<longrightarrow> b = a \<Longrightarrow> run (sole_sys marshal a) s es t"
  by (induction rule: run.induct) (auto intro!: run.intros simp: sole_sys_def)

text \<open>
  C24. \<open>Stop\<close> closes the connection of a client that was started once: however its session, the
  handlers and other calls of \<open>Stop\<close> interleave, no connection is open after it, whatever the client is
  doing at that moment, and it can be called again whenever the client is not dialling. The caller of
  \<open>Start\<close> never finds that it is connected already.
\<close>

theorem Stop_closes_sole_client:
  assumes "c_conn c = None" and "run (client_sys marshal) (client_initial c) es s"
    and "\<forall>b. Start_called b \<in> set es \<longrightarrow> b = a"
  shows "(cs_pc s a \<noteq> S_dialing \<longrightarrow> (\<exists>t. client_sys marshal s Stop_called t)) \<and>
    (\<forall>t. client_sys marshal s Stop_called t \<longrightarrow> cs_open t = {} \<and> c_conn (cs_client t) = None) \<and>
    (cs_pc s a = S_connect \<longrightarrow> c_conn (cs_client s) = None)"
proof -
  have ok: "sole_start a s"
    using sole.inv_reachable [OF _ sole_run [OF assms(2,3)]] assms(1) by blast
  have free: "cs_lock s = None" if "cs_pc s a \<noteq> S_dialing"
  proof (cases "cs_lock s")
    case (Some b)
    with ok have "cs_pc s b = S_dialing" by (simp add: sole_start_def client_lock_ok_def)
    with ok that show ?thesis by (cases "b = a") (auto simp: sole_start_def)
  qed
  have "cs_open t = {} \<and> c_conn (cs_client t) = None" if "client_sys marshal s Stop_called t" for t
    using that ok by (cases "cs_pc s a") (auto simp: sole_start_def Client_Stop_def elim!: client_sysE)
  moreover have "c_conn (cs_client s) = None" if "cs_pc s a = S_connect"
    using that ok by (simp add: sole_start_def)
  ultimately show ?thesis using free by (blast intro: client_sys.stop_called)
qed

text \<open>
  Two callers of \<open>Start\<close> break this: when the second one connects after a \<open>Stop\<close> and before the first one
  has cleaned up, the first one forgets the second one's connection. That connection is served on,
  \<open>Stop\<close> no longer closes it, and the first caller goes on to dial another one.
\<close>

theorem two_Starts_lose_connection:
  assumes "c_conn c = None" and "c_serverErr c = None" and "c_lastDisconnect c = None" and "a \<noteq> b" and "n \<noteq> m"
  shows "\<exists>s. run (client_sys marshal) (client_initial c)
      [Start_called a, Connect a, Dialled a (Inr (Some n)), Stop_called, Start_called b, Connect b,
       Dialled b (Inr (Some m)), Serve_ended a, Cleaned_up a now] s \<and>
    cs_pc s b = S_serving (Some m) \<and> m \<in> cs_open s \<and> cs_pc s a = S_connect \<and> c_conn (cs_client s) = None \<and>
    (\<forall>t. client_sys marshal s Stop_called t \<longrightarrow> m \<in> cs_open t)"
proof -
  let ?pc = "\<lambda>x y. (\<lambda>_. S_idle)(a := x, b := y)"
  let ?st = "\<lambda>conn lock opened x y. \<lparr>cs_client = c\<lparr>c_conn := conn\<rparr>, cs_lock = lock, cs_open = opened, cs_pc = ?pc x y\<rparr>"
  let ?s = "\<lparr>cs_client = c\<lparr>c_conn := None, c_serverErr := None, c_lastDisconnect := Some now\<rparr>, cs_lock = None, cs_open = {m},
    cs_pc = ?pc S_connect (S_serving (Some m))\<rparr>"
  have c: "c\<lparr>c_conn := None\<rparr> = c" using assms(1) by (simp add: client.equality)
  have upd: "(?pc x y)(a := z) = ?pc z y" "(?pc x y)(b := z) = ?pc x z" for x y z
    using assms(4) by (auto simp: fun_upd_def)
  note step = client_sys.intros [where marshal = marshal]
  have "(\<lambda>_. S_idle) = ?pc S_idle S_idle" by (rule ext) simp
  then have init: "client_initial c = ?st None None {} S_idle S_idle" by (simp only: client_initial_def c)
  have "client_sys marshal (client_initial c) (Start_called a) (?st None None {} S_connect S_idle)"
    unfolding init using step(1) [of "?st None None {} S_idle S_idle" a] assms(4)
    by (simp only: upd client_system.simps) simp
  moreover have "client_sys marshal (?st None None {} S_connect S_idle) (Connect a) (?st None (Some a) {} S_dialing S_idle)"
    using step(3) [of "?st None None {} S_connect S_idle" a] assms(4) by (simp add: upd)
  moreover have "client_sys marshal (?st None (Some a) {} S_dialing S_idle) (Dialled a (Inr (Some n)))
      (?st (Some n) None {n} (S_serving (Some n)) S_idle)"
    using step(4) [of "?st None (Some a) {} S_dialing S_idle" a "Some n"] assms(4) by (simp add: upd)
  moreover have "client_sys marshal (?st (Some n) None {n} (S_serving (Some n)) S_idle) Stop_called
      (?st None None {} (S_serving (Some n)) S_idle)"
    using step(9) [of "?st (Some n) None {n} (S_serving (Some n)) S_idle"] by (simp add: Client_Stop_def)
  moreover have "client_sys marshal (?st None None {} (S_serving (Some n)) S_idle) (Start_called b)
      (?st None None {} (S_serving (Some n)) S_connect)"
    using step(1) [of "?st None None {} (S_serving (Some n)) S_idle" b] assms(4) by (simp add: upd)
  moreover have "client_sys marshal (?st None None {} (S_serving (Some n)) S_connect) (Connect b)
      (?st None (Some b) {} (S_serving (Some n)) S_dialing)"
    using step(3) [of "?st None None {} (S_serving (Some n)) S_connect" b] by (simp add: upd)
  moreover have "client_sys marshal (?st None (Some b) {} (S_serving (Some n)) S_dialing) (Dialled b (Inr (Some m)))
      (?st (Some m) None {m} (S_serving (Some n)) (S_serving (Some m)))"
    using step(4) [of "?st None (Some b) {} (S_serving (Some n)) S_dialing" b "Some m"] by (simp add: upd)
  moreover have "client_sys marshal (?st (Some m) None {m} (S_serving (Some n)) (S_serving (Some m))) (Serve_ended a)
      (?st (Some m) None {m} S_served (S_serving (Some m)))"
    using step(7) [of "?st (Some m) None {m} (S_serving (Some n)) (S_serving (Some m))" a] assms(4,5) by (simp add: upd)
  moreover have "client_sys marshal (?st (Some m) None {m} S_served (S_serving (Some m))) (Cleaned_up a now) ?s"
    using step(8) [of "?st (Some m) None {m} S_served (S_serving (Some m))" a now] assms(2-4)
    by (simp add: upd session_error_def disconnect_def)
  ultimately have "run (client_sys marshal) (client_initial c)
      [Start_called a, Connect a, Dialled a (Inr (Some n)), Stop_called, Start_called b, Connect b,
       Dialled b (Inr (Some m)), Serve_ended a, Cleaned_up a now] ?s"
    by (meson run_Cons run_Nil)
  moreover have "m \<in> cs_open t" if "client_sys marshal ?s Stop_called t" for t
    using that by (auto elim: client_sysE)
  ultimately show ?thesis using assms(4) by (intro exI [of _ ?s]) simp
qed


section \<open>The loop of Start is a run of the machine\<close>

fun as_event :: "nat \<Rightarrow> client_event \<Rightarrow> start_event" where
  "as_event a (Ev_request r) = Handled a r"
| "as_event a Ev_stop = Stop_called"

lemma events_run:
  assumes "cs_pc s a = S_serving conn" and "cs_lock s = None" and "cs_open s \<subseteq> set_option conn"
  shows "\<exists>t. run (client_sys marshal) s (map (as_event a) es) t \<and> cs_pc t a = S_serving conn \<and> cs_lock t = None \<and>
    cs_open t \<subseteq> set_option conn \<and> cs_client t = fold (client_step marshal) es (cs_client s)"
  using assms
proof (induction es arbitrary: s)
  case (Cons e es)
  obtain u where step: "client_sys marshal s (as_event a e) u" and u: "cs_pc u a = S_serving conn" "cs_lock u = None"
    "cs_open u \<subseteq> set_option conn" "cs_client u = client_step marshal e (cs_client s)"
  proof (cases e)
    case (Ev_request r)
    from client_sys.handled [OF Cons.prems(1), of r marshal] Cons.prems Ev_request that show ?thesis by simp
  next
    case Ev_stop
    from client_sys.stop_called [OF Cons.prems(2), of marshal] Cons.prems Ev_stop that show ?thesis
      by (simp add: subset_iff)
  qed
  from Cons.IH [OF u(1-3)] u(4) step show ?case by (auto intro: run_Cons)
qed (auto intro: run_Nil)

lemma as_event_not_Start [simp]: "Start_called b \<noteq> as_event a e" "as_event a e \<noteq> Start_called b"
  by (cases e; simp)+

lemma start_called_not_event [simp]: "Start_called b \<notin> as_event a ` set es"
  by auto

text \<open>One round: a dial that succeeds, the session, and the clean-up.\<close>

lemma round_run:
  assumes pc: "cs_pc s a = S_connect" and lock: "cs_lock s = None" and opened: "cs_open s = {}"
    and conn: "c_conn (cs_client s) = None"
  shows "\<exists>es t. run (client_sys marshal) s es t \<and> (\<forall>d. Start_called d \<notin> set es) \<and> cs_lock t = None \<and> cs_open t = {} \<and>
    cs_client t = disconnect now (serve_session marshal se ((cs_client s)\<lparr>c_conn := k\<rparr>)) \<and>
    cs_pc t a = (case session_error now (serve_session marshal se ((cs_client s)\<lparr>c_conn := k\<rparr>)) of
      None \<Rightarrow> S_connect | Some err \<Rightarrow> S_returned err)"
proof -
  let ?d = "s\<lparr>cs_pc := (cs_pc s)(a := S_dialing), cs_lock := Some a\<rparr>"
  have dialing: "client_sys marshal s (Connect a) ?d" using pc lock conn by (rule client_sys.dialing)
  let ?u = "?d\<lparr>cs_client := (cs_client s)\<lparr>c_conn := k\<rparr>, cs_lock := None, cs_open := set_option k,
    cs_pc := (cs_pc ?d)(a := S_serving k)\<rparr>"
  have dialled: "client_sys marshal ?d (Dialled a (Inr k)) ?u"
    using client_sys.dialled [of ?d a k marshal] opened by simp
  obtain v where v: "run (client_sys marshal) ?u (map (as_event a) (se_events se)) v" "cs_pc v a = S_serving k"
    "cs_lock v = None" "cs_open v \<subseteq> set_option k"
    "cs_client v = serve_session marshal se ((cs_client s)\<lparr>c_conn := k\<rparr>)"
    using events_run [of ?u a k marshal "se_events se"] by (auto simp: serve_session_def)
  let ?x = "v\<lparr>cs_open := cs_open v - set_option k, cs_pc := (cs_pc v)(a := S_served)\<rparr>"
  have ended: "client_sys marshal v (Serve_ended a) ?x" using v(2) by (rule client_sys.serve_ended)
  let ?y = "?x\<lparr>cs_client := disconnect now (cs_client ?x), cs_pc := (cs_pc ?x)(a :=
    (case session_error now (cs_client ?x) of None \<Rightarrow> S_connect | Some err \<Rightarrow> S_returned err))\<rparr>"
  have cleaned: "client_sys marshal ?x (Cleaned_up a now) ?y"
    using v(3) by (intro client_sys.cleaned_up) simp_all
  let ?es = "[Connect a, Dialled a (Inr k)] @ map (as_event a) (se_events se) @ [Serve_ended a, Cleaned_up a now]"
  have "run (client_sys marshal) s ?es ?y"
    using dialing dialled v(1) ended cleaned by (intro run_append [OF _ run_append]) (auto simp: run_Cons_iff)
  with v(3-5) show ?thesis by (intro exI [of _ ?es] exI [of _ ?y]) auto
qed

text \<open>A round whose \<open>connect\<close> fails.\<close>

lemma failed_run:
  assumes "cs_pc s a = S_connect" and "cs_lock s = None"
    and "connect next_pause reset as (cs_client s) now b = (Some (Inl err), c, now', b')"
  shows "\<exists>es t. run (client_sys marshal) s es t \<and> cs_pc t a = S_returned err \<and> cs_client t = c \<and>
    (\<forall>d. Start_called d \<notin> set es)"
proof (cases "c_conn (cs_client s) = None")
  case False
  with client_sys.refused [OF assms(1,2) False, of marshal] assms(3) show ?thesis
    by (intro exI [of _ "[Connect a]"]) (auto simp: run_Cons_iff connect_def)
next
  case True
  let ?d = "s\<lparr>cs_pc := (cs_pc s)(a := S_dialing), cs_lock := Some a\<rparr>"
  obtain e where e: "err = Errorf (''failed to connect to server: '' @ error_text e)" "c = cs_client s"
    using True assms(3) by (auto simp: connect_def split: prod.splits option.splits sum.splits)
  have "client_sys marshal s (Connect a) ?d" using assms(1,2) True by (rule client_sys.dialing)
  with client_sys.dial_failed [of ?d a marshal e] e show ?thesis
    by (intro exI [of _ "[Connect a, Dialled a (Inl e)]"]) (auto simp: run_Cons_iff)
qed

text \<open>
  C4. The sequential account of \<open>Start\<close> is faithful to its goroutines: whatever error the loop returns, with
  whatever final client, is returned by a run of the interleaved client in which the caller connects,
  its handlers and calls of \<open>Stop\<close> run during the sessions, and it cleans up after each.
\<close>

theorem Start_refined:
  assumes "Start_loop next_pause reset marshal ss (cs_client s) now b = (Some err, c, now', b')"
    and "cs_pc s a = S_connect" and "cs_lock s = None" and "cs_open s = {}"
  shows "\<exists>es t. run (client_sys marshal) s es t \<and> cs_pc t a = S_returned err \<and> cs_client t = c \<and>
    (\<forall>d. Start_called d \<notin> set es)"
  using assms
proof (induction ss arbitrary: s now b)
  case Nil
  then show ?case by simp
next
  case (Cons se ss)
  obtain res c1 now1 b1 where con: "connect next_pause reset (se_attempts se) (cs_client s) now b = (res, c1, now1, b1)"
    by (metis prod_cases4)
  with Cons.prems(1) obtain r where r: "res = Some r" by (cases res) auto
  show ?case
  proof (cases r)
    case (Inl e)
    with con r Cons.prems(1) have "err = e" "c = c1" by simp_all
    with failed_run [OF Cons.prems(2,3) con [unfolded r Inl], of marshal] show ?thesis by simp
  next
    case (Inr k)
    with con r have c1: "c_conn (cs_client s) = None" "c1 = (cs_client s)\<lparr>c_conn := k\<rparr>"
      by (auto simp: connect_def split: if_splits prod.splits option.splits sum.splits)
    let ?now = "now1 + se_duration se"
    obtain es t where t: "run (client_sys marshal) s es t" "\<forall>d. Start_called d \<notin> set es" "cs_lock t = None" "cs_open t = {}"
      "cs_client t = disconnect ?now (serve_session marshal se c1)"
      "cs_pc t a = (case session_error ?now (serve_session marshal se c1) of None \<Rightarrow> S_connect | Some err \<Rightarrow> S_returned err)"
      using round_run [OF Cons.prems(2-4) c1(1), of marshal ?now se k] c1(2) by auto
    show ?thesis
    proof (cases "session_error ?now (serve_session marshal se c1)")
      case (Some e)
      with Cons.prems(1) con r Inr have "err = e" "c = disconnect ?now (serve_session marshal se c1)"
        by (auto simp: Let_def)
      with Some t show ?thesis by (intro exI [of _ es] exI [of _ t]) simp
    next
      case None
      with Cons.prems(1) con r Inr t(5)
      have "Start_loop next_pause reset marshal ss (cs_client t) ?now b1 = (Some err, c, now', b')" by (simp add: Let_def)
      from Cons.IH [OF this _ t(3,4)] t(6) None obtain es' u where "run (client_sys marshal) t es' u"
        "cs_pc u a = S_returned err" "cs_client u = c" "\<forall>d. Start_called d \<notin> set es'" by auto
      with run_append [OF t(1) this(1)] t(2) show ?thesis by (intro exI [of _ "es @ es'"] exI [of _ u]) auto
    qed
  qed
qed


section \<open>Examples\<close>

definition demo_marshal :: "(string \<times> tunnel) list \<Rightarrow> go_error + string" where
  "demo_marshal m = Inr ''{}''"

definition demo_serving :: client_system where
  "demo_serving = \<lparr>cs_client = demo_client\<lparr>c_conn := Some 5\<rparr>, cs_lock = None, cs_open = {5},
     cs_pc = (\<lambda>_. S_idle)(1 := S_serving (Some 5))\<rparr>"

lemma demo_serving_run:
  "run (client_sys demo_marshal) (client_initial demo_client) [Start_called 1, Connect 1, Dialled 1 (Inr (Some 5))] demo_serving"
proof -
  let ?st = "\<lambda>lock x. \<lparr>cs_client = demo_client, cs_lock = lock, cs_open = {}, cs_pc = (\<lambda>_. S_idle)(1 := x)\<rparr>"
  have "client_sys demo_marshal (client_initial demo_client) (Start_called 1) (?st None S_connect)"
    using client_sys.start_called [of "client_initial demo_client" 1] by (simp add: client_initial_def)
  moreover have "client_sys demo_marshal (?st None S_connect) (Connect 1) (?st (Some 1) S_dialing)"
    using client_sys.dialing [of "?st None S_connect" 1] by (simp add: demo_client_def)
  moreover have "client_sys demo_marshal (?st (Some 1) S_dialing) (Dialled 1 (Inr (Some 5))) demo_serving"
    using client_sys.dialled [of "?st (Some 1) S_dialing" 1 "Some 5"] by (simp add: demo_serving_def)
  ultimately show ?thesis by (meson run_Cons run_Nil)
qed

lemma Stop_closes_sole_client_witness:
  "5 \<in> cs_open demo_serving \<and> (\<exists>t. client_sys demo_marshal demo_serving Stop_called t \<and> cs_open t = {})"
  using Stop_closes_sole_client [OF _ demo_serving_run, of 1] by (auto simp: demo_serving_def demo_client_def)

lemma two_Starts_lose_connection_witness:
  "\<exists>s. cs_pc s 2 = S_serving (Some 6) \<and> 6 \<in> cs_open s \<and> c_conn (cs_client s) = None \<and>
     run (client_sys demo_marshal) (client_initial demo_client)
       [Start_called 1, Connect 1, Dialled 1 (Inr (Some 5)), Stop_called, Start_called 2, Connect 2,
        Dialled 2 (Inr (Some 6)), Serve_ended 1, Cleaned_up 1 0] s"
  using two_Starts_lose_connection [of demo_client 1 2 5 6 demo_marshal 0] by (auto simp: demo_client_def)

definition demo_offline :: client_system where
  "demo_offline = \<lparr>cs_client = demo_client\<lparr>c_config := demo_client_config\<lparr>cc_Backoff := False\<rparr>\<rparr>, cs_lock = None,
     cs_open = {}, cs_pc = (\<lambda>_. S_idle)(1 := S_connect)\<rparr>"

lemma Start_refined_witness:
  "\<exists>es t. run (client_sys demo_marshal) demo_offline es t \<and>
     cs_pc t 1 = S_returned (Errorf ''failed to connect to server: refused'')"
proof -
  let ?session = "\<lparr>se_attempts = [demo_attempt (Inl (Extern ''refused''))], se_events = [], se_duration = 0\<rparr>"
  have loop: "Start_loop NextBackOff Reset demo_marshal [?session] (cs_client demo_offline) 0 demo_backoff =
      (Some (Errorf ''failed to connect to server: refused''), cs_client demo_offline, second, demo_backoff)"
    by (simp add: demo_offline_def demo_client_def demo_client_config_def connect_def dial_def doDial_def demo_attempt_def)
  from Start_refined [OF loop, of 1] show ?thesis by (auto simp: demo_offline_def)
qed

end
