(* ===== verification/Cmd_Tunnel.thy ===== *)
theory Cmd_Tunnel
  imports Cmd_Config Go_Flag Proxies Client_Steps Ident "HOL-Library.List_Lexorder"
begin

text \<open>
  The command line client (\<open>cmd/tunnel/options.go\<close>, \<open>cmd/tunnel/tunnel.go\<close>): its arguments, the choice
  of tunnels, the TLS configuration, the routes of the local proxies, and \<open>main\<close> up to the start of the
  client.
\<close>

section \<open>Arguments\<close>

record options =
  o_config :: string
  o_logLevel :: int
  o_version :: bool
  o_command :: string
  o_args :: "string list"

datatype 'o args_result = Options 'o | Args_error go_error | Args_exit int

definition tunnel_flags :: flag_set where
  "tunnel_flags =
     [(''config'', VString ''tunnel.yml''), (''log-level'', VInt 1), (''version'', VBool False)]"

definition parseArgs :: "string list \<Rightarrow> options args_result" where
  "parseArgs argv =
     (case flag_parse tunnel_flags argv of
        Exits n \<Rightarrow> Args_exit n
      | Parsed fs args \<Rightarrow>
          let opts = \<lparr>o_config = string_flag fs ''config'', o_logLevel = int_flag fs ''log-level'',
                      o_version = bool_flag fs ''version'', o_command = arg0 args, o_args = []\<rparr>;
              opts' = opts\<lparr>o_args := drop 1 args\<rparr>
          in if o_version opts then Options opts
             else if o_command opts = [] then Args_exit 2
             else if o_command opts = ''id'' \<or> o_command opts = ''list'' then
               (if 0 < length (o_args opts') then Args_error (Errorf ''list takes no arguments'') else Options opts')
             else if o_command opts = ''start'' then
               (if length (o_args opts') = 0
                then Args_error (Errorf ''you must specify at least one tunnel to start'') else Options opts')
             else if o_command opts = ''start-all'' then
               (if 0 < length (o_args opts')
                then Args_error (Errorf ''start-all takes no arguments'') else Options opts')
             else Args_error (Errorf (''unknown command '' @ go_quote (o_command opts))))"


section \<open>The tunnels to start\<close>

fun select_tunnels :: "string list \<Rightarrow> tunnel_map \<Rightarrow> tunnel_map \<Rightarrow> string + tunnel_map" where
  "select_tunnels [] all chosen = Inr chosen"
| "select_tunnels (arg # args) all chosen =
     (case map_of all arg of
        None \<Rightarrow> Inl (''no such tunnel '' @ go_quote arg)
      | Some t \<Rightarrow> select_tunnels args all (map_put arg t chosen))"

definition tunnels :: "tunnel_map \<Rightarrow> (string \<times> tunnel) list" where
  "tunnels m =
     map (\<lambda>(name, p). (name, \<lparr>Protocol = ct_Protocol (the p), tunnel_Host = ct_Host (the p),
                              tunnel_Auth = ct_Auth (the p), tunnel_Addr = ct_RemoteAddr (the p)\<rparr>)) m"


section \<open>The local routes\<close>

text \<open>The two maps \<open>proxy\<close> fills, in the order it ranges over the tunnels.\<close>

type_synonym proxy_maps = "(string \<times> url option) list \<times> (string \<times> string) list"

fun proxy_fill :: "tunnel_map \<Rightarrow> proxy_maps \<Rightarrow> string + proxy_maps" where
  "proxy_fill [] maps = Inr maps"
| "proxy_fill ((name, p) # m) (httpURL, tcpAddr) =
     (let t = the p in
      if ct_Protocol t = HTTP then
        (case url_Parse (ct_Addr t) of
           Inl err \<Rightarrow> Inl (''invalid tunnel address: '' @ error_text err)
         | Inr u \<Rightarrow> proxy_fill m (map_put (ct_Host t) (Some u) httpURL, tcpAddr))
      else if ct_Protocol t \<in> set [TCP, TCP4, TCP6] then
        proxy_fill m (httpURL, map_put (ct_RemoteAddr t) (ct_Addr t) tcpAddr)
      else if ct_Protocol t = SNI then
        proxy_fill m (httpURL, map_put (ct_Host t) (ct_Addr t) tcpAddr)
      else proxy_fill m (httpURL, tcpAddr))"

definition proxy :: "tunnel_map \<Rightarrow> string + http_proxy \<times> tcp_proxy" where
  "proxy m =
     map_sum id (\<lambda>(httpURL, tcpAddr). (NewMultiHTTPProxy httpURL, NewMultiTCPProxy tcpAddr))
       (proxy_fill m ([], []))"


section \<open>TLS\<close>

record tls_client_config =
  tls_ServerName :: string
  tls_InsecureSkipVerify :: bool
  tls_RootCAs :: "string option"

text \<open>
  What the commands see of the file system, of the certificate libraries and of YAML. A certificate
  is the list of its raw parts.
\<close>

record cmd_env =
  cm_ReadFile :: "string \<Rightarrow> go_error + string"
  cm_Unmarshal :: "string \<Rightarrow> cmd_config \<Rightarrow> go_error + cmd_config"
  cm_Marshal :: "cmd_config \<Rightarrow> go_error + string"
  cm_LoadX509KeyPair :: "string \<Rightarrow> string \<Rightarrow> go_error + byte list list"
  cm_ParseCertificate :: "byte list \<Rightarrow> go_error + byte list"
  cm_AppendCertsFromPEM :: "string \<Rightarrow> bool"
  cm_sha256 :: "byte list \<Rightarrow> byte list"
  cm_now :: int

text \<open>
  The pair of results of \<open>tlsConfig\<close>: \<open>Inr None\<close> is \<open>nil, nil\<close>, which is what the code returns for a
  root file without a certificate, because \<open>err\<close> is nil there.
\<close>

definition tlsConfig :: "cmd_env \<Rightarrow> cmd_config \<Rightarrow> go_error + tls_client_config option" where
  "tlsConfig env config =
     (case cm_LoadX509KeyPair env (cfg_TLSCrt config) (cfg_TLSKey config) of
        Inl err \<Rightarrow> Inl err
      | Inr cert \<Rightarrow>
          let finish = (\<lambda>roots. case split_host_port (cfg_ServerAddr config) of
                Inl err \<Rightarrow> Inl err
              | Inr (host, _) \<Rightarrow>
                  Inr (Some \<lparr>tls_ServerName = host, tls_InsecureSkipVerify = (roots = None), tls_RootCAs = roots\<rparr>))
          in if cfg_RootCA config \<noteq> [] then
               (case cm_ReadFile env (cfg_RootCA config) of
                  Inl err \<Rightarrow> Inl err
                | Inr rootPEM \<Rightarrow>
                    if \<not> cm_AppendCertsFromPEM env rootPEM then Inr None else finish (Some rootPEM))
             else finish None)"


section \<open>main\<close>

datatype main_result =
    Exits_with int
  | Fatal string
  | Prints "string list"
  | Starts client "tls_client_config option" exp_backoff http_proxy tcp_proxy

definition sort_names :: "string list \<Rightarrow> string list" where
  "sort_names names = sort_key (map char_code) names"

definition start_client :: "cmd_env \<Rightarrow> cmd_config \<Rightarrow> main_result" where
  "start_client env config =
     (if length (cfg_Tunnels config) = 0 then Fatal ''no tunnels''
      else case tlsConfig env config of
        Inl err \<Rightarrow> Fatal (''failed to configure tls: '' @ error_text err)
      | Inr tlsconf \<Rightarrow>
          (case cm_Marshal env config of
             Inl err \<Rightarrow> Fatal (''failed to dump config: '' @ error_text err)
           | Inr b \<Rightarrow>
               (case proxy (cfg_Tunnels config) of
                  Inl msg \<Rightarrow> Fatal msg
                | Inr (hp, tp) \<Rightarrow>
                    (case NewClient \<lparr>cc_ServerAddr = cfg_ServerAddr config, cc_TLSClientConfig = (tlsconf \<noteq> None),
                        cc_DialTLS = False, cc_Backoff = True, cc_Tunnels = tunnels (cfg_Tunnels config),
                        cc_Proxy = True\<rparr> of
                       Inl err \<Rightarrow> Fatal (''failed to create client: '' @ error_text err)
                     | Inr client \<Rightarrow>
                         Starts client tlsconf (expBackoff (cm_now env) (cfg_Backoff config)) hp tp))))"

text \<open>
  \<open>id.New(...)\<close> printed with \<open>Println\<close> is the identifier's \<open>String\<close>. \<open>cert.Certificate[0]\<close> exists: a
  key pair has at least one certificate; without it the indexing would panic.
\<close>

definition run_command :: "cmd_env \<Rightarrow> options \<Rightarrow> cmd_config \<Rightarrow> main_result" where
  "run_command env opts config =
     (if o_command opts = ''id'' then
        (case cm_LoadX509KeyPair env (cfg_TLSCrt config) (cfg_TLSKey config) of
           Inl err \<Rightarrow> Fatal (''failed to load key pair: '' @ error_text err)
         | Inr cert \<Rightarrow>
             (case cert of
                [] \<Rightarrow> Fatal ''index out of range''
              | c # _ \<Rightarrow>
                  (case cm_ParseCertificate env c of
                     Inl err \<Rightarrow> Fatal (''failed to parse certificate: '' @ error_text err)
                   | Inr raw \<Rightarrow> Prints [projr (String (New (cm_sha256 env) raw))])))
      else if o_command opts = ''list'' then Prints (sort_names (map fst (cfg_Tunnels config)))
      else if o_command opts = ''start'' then
        (case select_tunnels (o_args opts) (cfg_Tunnels config) [] of
           Inl msg \<Rightarrow> Fatal msg
         | Inr chosen \<Rightarrow> start_client env (config\<lparr>cfg_Tunnels := chosen\<rparr>))
      else start_client env config)"

definition main :: "cmd_env \<Rightarrow> string list \<Rightarrow> main_result" where
  "main env argv =
     (case parseArgs argv of
        Args_exit n \<Rightarrow> Exits_with n
      | Args_error err \<Rightarrow> Fatal (format0 (error_text err))
      | Options opts \<Rightarrow>
          if o_version opts then Prints [''snapshot'']
          else case loadClientConfigFromFile (cm_ReadFile env) (cm_Unmarshal env) (o_config opts) of
            Inl err \<Rightarrow> Fatal (''configuration error: '' @ error_text err)
          | Inr config \<Rightarrow> run_command env opts config)"


section \<open>What is started\<close>

lemma select_tunnels_map:
  "select_tunnels args all chosen = Inr m \<Longrightarrow>
   map_of m = map_of chosen ++ (map_of all |` set args) \<and> (\<forall>a \<in> set args. map_of all a \<noteq> None) \<and>
   (distinct (map fst chosen) \<longrightarrow> distinct (map fst m))"
proof (induction args all chosen arbitrary: m rule: select_tunnels.induct)
  case (1 all chosen)
  then show ?case by simp
next
  case (2 arg args all chosen)
  then obtain t where t: "map_of all arg = Some t" by (cases "map_of all arg") auto
  with "2.prems" have rest: "select_tunnels args all (map_put arg t chosen) = Inr m" by simp
  note IH = "2.IH" [OF t rest]
  have "(map_of chosen)(arg \<mapsto> t) ++ (map_of all |` set args) = map_of chosen ++ (map_of all |` set (arg # args))"
    by (rule ext) (use t in \<open>auto simp: map_add_def restrict_map_def split: option.split\<close>)
  then have "map_of m = map_of chosen ++ (map_of all |` set (arg # args))"
    using IH by (simp only: map_of_map_put)
  moreover have "\<forall>a \<in> set (arg # args). map_of all a \<noteq> None" using IH t by simp
  moreover have "distinct (map fst chosen) \<longrightarrow> distinct (map fst m)" using IH distinct_map_put by blast
  ultimately show ?case by blast
qed

lemma select_tunnels_error:
  "isl (select_tunnels args all chosen) = (\<exists>a \<in> set args. map_of all a = None)"
  by (induction args all chosen rule: select_tunnels.induct) (auto split: option.splits)

text \<open>
  \<open>tunnel start\<close> starts exactly the tunnels it is given: it fails when a name is not in the
  configuration, and otherwise the client's tunnels are the configured ones of these names, each
  once, however often a name is repeated.
\<close>

theorem select_tunnels_spec:
  "case select_tunnels args all [] of
     Inl msg \<Rightarrow> \<exists>a \<in> set args. map_of all a = None
   | Inr m \<Rightarrow> (\<forall>a \<in> set args. map_of all a \<noteq> None) \<and> map_of m = map_of all |` set args \<and> distinct (map fst m)"
proof (cases "select_tunnels args all []")
  case (Inl msg)
  then show ?thesis using select_tunnels_error [of args all "[]"] by simp
next
  case (Inr m)
  then show ?thesis using select_tunnels_map [OF Inr] by simp
qed


section \<open>Where the streams go\<close>

text \<open>
  The key under which \<open>proxy\<close> enters a tunnel in one of its two maps. \<open>proxy_fill\<close> writes the entries
  in turn, so for a key the last tunnel that has it wins.
\<close>

definition http_key :: "tunnel_config \<Rightarrow> string option" where
  "http_key t = (if ct_Protocol t = HTTP then Some (ct_Host t) else None)"

definition tcp_key :: "tunnel_config \<Rightarrow> string option" where
  "tcp_key t =
     (if ct_Protocol t \<in> set [TCP, TCP4, TCP6] then Some (ct_RemoteAddr t)
      else if ct_Protocol t = SNI then Some (ct_Host t) else None)"

lemma keys_disjoint: "http_key t = Some k \<Longrightarrow> tcp_key t = None"
  by (auto simp: http_key_def tcp_key_def protocol_names split: if_splits)

lemma proxy_fill_step:
  assumes "proxy_fill ((name, Some t) # m) (hs, ts) = Inr maps"
  obtains (http) u where "http_key t = Some (ct_Host t)" "url_Parse (ct_Addr t) = Inr u"
      "proxy_fill m (map_put (ct_Host t) (Some u) hs, ts) = Inr maps"
    | (tcp) k where "tcp_key t = Some k" "http_key t = None" "proxy_fill m (hs, map_put k (ct_Addr t) ts) = Inr maps"
    | (none) "http_key t = None" "tcp_key t = None" "proxy_fill m (hs, ts) = Inr maps"
  using assms
  by (auto simp: Let_def http_key_def tcp_key_def protocol_names split: sum.splits if_splits)

lemma proxy_fill_other:
  assumes "proxy_fill m (hs, ts) = Inr (hs', ts')" and "\<forall>e \<in> set m. snd e \<noteq> None"
  shows "(\<forall>k. (\<forall>e \<in> set m. http_key (the (snd e)) \<noteq> Some k) \<longrightarrow> map_of hs' k = map_of hs k) \<and>
    (\<forall>k. (\<forall>e \<in> set m. tcp_key (the (snd e)) \<noteq> Some k) \<longrightarrow> map_of ts' k = map_of ts k)"
  using assms
proof (induction m arbitrary: hs ts)
  case Nil
  then show ?case by simp
next
  case (Cons e m)
  obtain name t where e: "e = (name, Some t)" using Cons.prems(2) by (cases e) auto
  have rest: "\<forall>e \<in> set m. snd e \<noteq> None" using Cons.prems(2) by simp
  from Cons.prems(1) [unfolded e] show ?case
    by (cases rule: proxy_fill_step) (use Cons.IH [OF _ rest] keys_disjoint [of t] in \<open>fastforce simp: e\<close>)+
qed

lemma proxy_fill_last:
  assumes "proxy_fill m (hs, ts) = Inr (hs', ts')" and "\<forall>e \<in> set m. snd e \<noteq> None"
    and "m = pre @ (name, Some t) # post"
  shows "(http_key t = Some k \<and> (\<forall>e \<in> set post. http_key (the (snd e)) \<noteq> Some k) \<longrightarrow>
      (\<exists>u. url_Parse (ct_Addr t) = Inr u \<and> map_of hs' k = Some (Some u))) \<and>
    (tcp_key t = Some k \<and> (\<forall>e \<in> set post. tcp_key (the (snd e)) \<noteq> Some k) \<longrightarrow> map_of ts' k = Some (ct_Addr t))"
  using assms
proof (induction m arbitrary: hs ts pre)
  case Nil
  then show ?case by simp
next
  case (Cons e m)
  have rest: "\<forall>e \<in> set m. snd e \<noteq> None" using Cons.prems(2) by simp
  show ?case
  proof (cases pre)
    case Nil
    with Cons.prems(3) have e: "e = (name, Some t)" "post = m" by simp_all
    from Cons.prems(1) [unfolded e(1)] show ?thesis
      by (cases rule: proxy_fill_step)
         (use proxy_fill_other [OF _ rest] keys_disjoint [of t] e(2) in
           \<open>fastforce simp: http_key_def split: if_splits\<close>)+
  next
    case (Cons e' pre')
    with Cons.prems(3) have split: "m = pre' @ (name, Some t) # post" and e': "e' = e" by simp_all
    obtain name' t' where e: "e = (name', Some t')" using Cons.prems(2) by (cases e) auto
    from Cons.prems(1) [unfolded e] show ?thesis
      by (cases rule: proxy_fill_step) (use Cons.IH [OF _ rest split] in blast)+
  qed
qed


lemma proxy_fill_total:
  assumes "\<forall>e \<in> set m. \<exists>t. snd e = Some t \<and> valid_tunnel t"
  shows "\<exists>maps'. proxy_fill m maps = Inr maps'"
  using assms
proof (induction m arbitrary: maps)
  case Nil
  then show ?case by simp
next
  case (Cons e m)
  obtain name t where e: "e = (name, Some t)" and t: "valid_tunnel t" using Cons.prems by (cases e) auto
  obtain hs ts where maps: "maps = (hs, ts)" by fastforce
  have "ct_Protocol t = HTTP \<Longrightarrow> \<exists>u. url_Parse (ct_Addr t) = Inr u"
    using t by (auto simp: valid_tunnel_def backend_url_def protocol_names)
  with Cons e maps show ?case by (auto simp: Let_def)
qed

lemma map_of_fill_entry:
  assumes "map_of m name = Some p" and "distinct (map fst m)"
  obtains pre post where "m = pre @ (name, p) # post" "\<forall>e \<in> set (pre @ post). fst e \<noteq> name"
proof -
  obtain pre post where m: "m = pre @ (name, p) # post" using map_of_SomeD [OF assms(1)] split_list by fast
  with assms(2) have "\<forall>e \<in> set (pre @ post). fst e \<noteq> name" by (auto simp: image_iff)
  with m that show thesis by blast
qed

lemma routes_built:
  assumes "\<forall>e \<in> set m. \<exists>t. snd e = Some t \<and> valid_tunnel t" and "distinct (map fst m)"
    and "map_of m name = Some (Some t)"
    and "\<forall>e \<in> set m. fst e \<noteq> name \<longrightarrow>
      (http_key t = None \<or> http_key (the (snd e)) \<noteq> http_key t) \<and> (tcp_key t = None \<or> tcp_key (the (snd e)) \<noteq> tcp_key t)"
  shows "\<exists>hp tp. proxy m = Inr (hp, tp) \<and>
    (ct_Protocol t = HTTP \<longrightarrow> (\<exists>u. url_Parse (ct_Addr t) = Inr u \<and> localURLFor hp (ct_Host t) = Some u)) \<and>
    (ct_Protocol t \<in> {TCP, TCP4, TCP6} \<longrightarrow> localAddrFor tp (ct_RemoteAddr t) = ct_Addr t) \<and>
    (ct_Protocol t = SNI \<longrightarrow> localAddrFor tp (ct_Host t) = ct_Addr t)"
proof -
  obtain hs ts where fill: "proxy_fill m ([], []) = Inr (hs, ts)"
    using proxy_fill_total [OF assms(1)] by fastforce
  obtain pre post where m: "m = pre @ (name, Some t) # post" and others: "\<forall>e \<in> set (pre @ post). fst e \<noteq> name"
    using map_of_fill_entry [OF assms(3,2)] by blast
  have some: "\<forall>e \<in> set m. snd e \<noteq> None" using assms(1) by fastforce
  have http: "\<exists>u. url_Parse (ct_Addr t) = Inr u \<and> map_of hs k = Some (Some u)" if "http_key t = Some k" for k
    using proxy_fill_last [OF fill some m, of k] that assms(4) others m by auto
  have tcp: "map_of ts k = Some (ct_Addr t)" if "tcp_key t = Some k" for k
    using proxy_fill_last [OF fill some m, of k] that assms(4) others m by auto
  have "valid_tunnel t" using assms(1) m by auto
  then have addr: "ct_Addr t \<noteq> []" if "ct_Protocol t \<noteq> HTTP"
    using that by (auto simp: valid_tunnel_def net_address_def host_colon_port_def protocol_names)
  have url: "localURLFor (NewMultiHTTPProxy hs) k = Some u" if "map_of hs k = Some (Some u)" for k u
    using that by (cases hs) (auto simp: localURLFor_def NewMultiHTTPProxy_def url_at_def)
  have tcp_url: "localAddrFor (NewMultiTCPProxy ts) k = a" if "map_of ts k = Some a" "a \<noteq> []" for k a
    using that by (cases ts) (auto simp: localAddrFor_def NewMultiTCPProxy_def addr_at_def)
  have h: "ct_Protocol t = HTTP \<longrightarrow> (\<exists>u. url_Parse (ct_Addr t) = Inr u \<and> localURLFor (NewMultiHTTPProxy hs) (ct_Host t) = Some u)"
    using http [of "ct_Host t"] url by (auto simp: http_key_def)
  have r: "ct_Protocol t \<in> {TCP, TCP4, TCP6} \<longrightarrow> localAddrFor (NewMultiTCPProxy ts) (ct_RemoteAddr t) = ct_Addr t"
    using tcp [of "ct_RemoteAddr t"] tcp_url addr by (auto simp: tcp_key_def protocol_names)
  have n: "ct_Protocol t = SNI \<longrightarrow> localAddrFor (NewMultiTCPProxy ts) (ct_Host t) = ct_Addr t"
    using tcp [of "ct_Host t"] tcp_url addr by (auto simp: tcp_key_def protocol_names)
  have "proxy m = Inr (NewMultiHTTPProxy hs, NewMultiTCPProxy ts)" by (simp add: proxy_def fill)
  with h r n show ?thesis by blast
qed

text \<open>
  Every tunnel of a valid configuration reaches its own local service: the routes can be built, an
  HTTP tunnel's host leads to the parsed URL of its backend and a TCP or SNI tunnel's remote address or
  host leads to its local address, whatever the order of the tunnels, provided no other tunnel has the
  same key in the same map.
\<close>

theorem proxy_routes:
  assumes "\<forall>e \<in> set m. \<exists>t. snd e = Some t \<and> valid_tunnel t" and "distinct (map fst m)"
    and "map_of m name = Some (Some t)"
    and "\<forall>e \<in> set m. fst e \<noteq> name \<longrightarrow>
      (http_key t = None \<or> http_key (the (snd e)) \<noteq> http_key t) \<and> (tcp_key t = None \<or> tcp_key (the (snd e)) \<noteq> tcp_key t)"
  shows "\<exists>hp tp. proxy m = Inr (hp, tp) \<and>
    (ct_Protocol t = HTTP \<longrightarrow> (\<exists>u. url_Parse (ct_Addr t) = Inr u \<and> localURLFor hp (ct_Host t) = Some u)) \<and>
    (ct_Protocol t \<in> {TCP, TCP4, TCP6} \<longrightarrow> localAddrFor tp (ct_RemoteAddr t) = ct_Addr t) \<and>
    (ct_Protocol t = SNI \<longrightarrow> localAddrFor tp (ct_Host t) = ct_Addr t)"
  using assms by (rule routes_built)

definition demo_ssh :: tunnel_config where
  "demo_ssh = \<lparr>ct_Protocol = ''tcp'', ct_Addr = ''127.0.0.1:22'', ct_Auth = [], ct_Host = [], ct_RemoteAddr = ''0.0.0.0:22''\<rparr>"

definition demo_tls :: tunnel_config where
  "demo_tls = \<lparr>ct_Protocol = ''sni'', ct_Addr = ''127.0.0.1:443'', ct_Auth = [], ct_Host = ''a.b'', ct_RemoteAddr = []\<rparr>"

lemma demo_valid: "valid_tunnel demo_ssh" "valid_tunnel demo_tls"
proof -
  have "host_colon_port ''127.0.0.1:22'' ''127.0.0.1'' ''22''" "host_colon_port ''0.0.0.0:22'' ''0.0.0.0'' ''22''"
    "host_colon_port ''127.0.0.1:443'' ''127.0.0.1'' ''443''"
    by (simp_all add: host_colon_port_def unbracketed_def plain_def)
  then have "net_address ''127.0.0.1:22''" "net_address ''0.0.0.0:22''" "net_address ''127.0.0.1:443''"
    unfolding net_address_def by blast+
  then show "valid_tunnel demo_ssh" "valid_tunnel demo_tls"
    by (simp_all add: valid_tunnel_def demo_ssh_def demo_tls_def)
qed

lemma proxy_routes_witness:
  "\<exists>hp tp. proxy [(''tls'', Some demo_tls), (''ssh'', Some demo_ssh)] = Inr (hp, tp) \<and>
     localAddrFor tp ''0.0.0.0:22'' = ''127.0.0.1:22''"
  using proxy_routes [of "[(''tls'', Some demo_tls), (''ssh'', Some demo_ssh)]" "''ssh''" demo_ssh] demo_valid
  by (auto simp: http_key_def tcp_key_def demo_ssh_def demo_tls_def protocol_names)


section \<open>The TLS configuration of a started client\<close>

lemma tlsConfig_cases:
  assumes "tlsConfig env config = Inr (Some tls)"
  shows "(\<exists>port. split_host_port (cfg_ServerAddr config) = Inr (tls_ServerName tls, port)) \<and>
    tls_InsecureSkipVerify tls = (cfg_RootCA config = []) \<and>
    (if cfg_RootCA config = [] then tls_RootCAs tls = None
     else \<exists>pem. cm_ReadFile env (cfg_RootCA config) = Inr pem \<and> cm_AppendCertsFromPEM env pem \<and> tls_RootCAs tls = Some pem)"
  using assms by (auto simp: tlsConfig_def Let_def split: sum.splits if_splits prod.splits)

lemma start_client_cases:
  assumes "start_client env config = Starts client tlsconf b hp tp"
  shows "\<exists>tls. tlsconf = Some tls \<and> tlsConfig env config = Inr (Some tls) \<and> cfg_Tunnels config \<noteq> [] \<and>
    cfg_ServerAddr config \<noteq> [] \<and>
    proxy (cfg_Tunnels config) = Inr (hp, tp) \<and> b = expBackoff (cm_now env) (cfg_Backoff config) \<and>
    cc_Tunnels (c_config client) = tunnels (cfg_Tunnels config) \<and> cc_ServerAddr (c_config client) = cfg_ServerAddr config"
  using assms
  by (auto simp: start_client_def NewClient_def split: sum.splits prod.splits if_splits)

text \<open>
  C33. A client that is told which authorities to trust never talks to a server without checking its
  certificate: when it starts and a root file is configured, verification is on with exactly the
  certificates of that file and against the host of the server address; a root file that cannot be read
  or holds no certificate prevents the start.
\<close>

theorem started_client_verifies:
  assumes "start_client env config = Starts client tlsconf b hp tp" and "cfg_RootCA config \<noteq> []"
  shows "\<exists>tls pem port. tlsconf = Some tls \<and> \<not> tls_InsecureSkipVerify tls \<and> tls_RootCAs tls = Some pem \<and>
    cm_ReadFile env (cfg_RootCA config) = Inr pem \<and> cm_AppendCertsFromPEM env pem \<and>
    split_host_port (cfg_ServerAddr config) = Inr (tls_ServerName tls, port)"
proof -
  obtain tls where "tlsconf = Some tls" "tlsConfig env config = Inr (Some tls)"
    using start_client_cases [OF assms(1)] by blast
  with tlsConfig_cases [of env config tls] assms(2) show ?thesis by auto
qed

text \<open>
  A server with an IPv6 address cannot be reached from the command line: the loader accepts the address
  in brackets but drops them, after which no host can be read from it and the client never starts.
\<close>

theorem ipv6_server_unusable:
  assumes "CHR '':'' \<in> set host" and "unbracketed host" and "plain port"
  shows "\<exists>a. normalizeAddress (''['' @ host @ '']:'' @ port) = Inr a \<and>
    (\<forall>env config. cfg_ServerAddr config = a \<longrightarrow> (\<exists>msg. start_client env config = Fatal msg))"
proof -
  let ?raw = "CHR ''['' # host @ CHR '']'' # CHR '':'' # port"
  let ?a = "host @ '':'' @ port"
  have hcp: "host_colon_port ?a host port" using assms by (auto simp: host_colon_port_def)
  have "isl (atoi ?raw)" by (rule atoi_not_digits [of "CHR '':''"]) (simp_all add: is_digit_def char_code_def)
  then obtain e where "atoi ?raw = Inl e" by (auto simp: isl_def)
  moreover have "split_host_port ?raw = Inr (host, port)"
    using split_host_port_bracket assms by (simp add: unbracketed_def)
  ultimately have n: "normalizeAddress (''['' @ host @ '']:'' @ port) = Inr ?a"
    using hcp by (simp add: normalizeAddress_def host_colon_port_def)
  have "\<exists>msg. start_client env config = Fatal msg" if "cfg_ServerAddr config = ?a" for env config
  proof (cases "start_client env config")
    case (Starts client tlsconf b hp tp)
    then obtain tls where "tlsConfig env config = Inr (Some tls)" using start_client_cases by blast
    from tlsConfig_cases [OF this] split_normalized [OF hcp] assms(1) that show ?thesis by simp
  qed (auto simp: start_client_def split: sum.splits prod.splits if_splits)
  with n show ?thesis by blast
qed

lemma ipv6_server_unusable_witness:
  "\<exists>a. normalizeAddress ''[::1]:5223'' = Inr a \<and>
    (\<forall>env config. cfg_ServerAddr config = a \<longrightarrow> (\<exists>msg. start_client env config = Fatal msg))"
  using ipv6_server_unusable [of "''::1''" "''5223''"] by (simp add: unbracketed_def plain_def)


section \<open>The command as a whole\<close>

lemma run_command_Starts:
  assumes "run_command env opts config = Starts client tlsconf b hp tp"
  shows "\<exists>m. start_client env (config\<lparr>cfg_Tunnels := m\<rparr>) = Starts client tlsconf b hp tp \<and>
    (if o_command opts = ''start'' then select_tunnels (o_args opts) (cfg_Tunnels config) [] = Inr m
     else m = cfg_Tunnels config)"
  using assms
  by (auto simp: run_command_def split: sum.splits list.splits if_splits)

lemma map_of_tunnels:
  "map_of (tunnels m) n = map_option (\<lambda>t. \<lparr>Protocol = ct_Protocol (the t), tunnel_Host = ct_Host (the t),
     tunnel_Auth = ct_Auth (the t), tunnel_Addr = ct_RemoteAddr (the t)\<rparr>) (map_of m n)"
  by (induction m) (auto simp: tunnels_def)

text \<open>
  C34. A started client asks for what the file says: it got there from a file that loads, it connects to
  the server of the file and asks for the chosen tunnels, at least one, each configured and valid, with
  the protocol, host, credential and remote address of the file, and for no others.
\<close>

theorem main_starts:
  assumes "main env argv = Starts client tlsconf b hp tp"
  shows "\<exists>opts config m. parseArgs argv = Options opts \<and>
    loadClientConfigFromFile (cm_ReadFile env) (cm_Unmarshal env) (o_config opts) = Inr config \<and>
    cc_ServerAddr (c_config client) = cfg_ServerAddr config \<and> m \<noteq> [] \<and>
    (\<forall>n. map_of (cc_Tunnels (c_config client)) n =
      map_option (\<lambda>t. \<lparr>Protocol = ct_Protocol (the t), tunnel_Host = ct_Host (the t), tunnel_Auth = ct_Auth (the t),
        tunnel_Addr = ct_RemoteAddr (the t)\<rparr>) (map_of m n)) \<and>
    map_of m \<subseteq>\<^sub>m map_of (cfg_Tunnels config) \<and> proxy m = Inr (hp, tp) \<and>
    (\<forall>n t. map_of m n = Some t \<longrightarrow> (\<exists>c. t = Some c \<and> valid_tunnel c)) \<and>
    (o_command opts = ''start'' \<longrightarrow> dom (map_of m) = set (o_args opts)) \<and>
    (o_command opts \<noteq> ''start'' \<longrightarrow> m = cfg_Tunnels config)"
proof -
  obtain opts config where args: "parseArgs argv = Options opts"
    and load: "loadClientConfigFromFile (cm_ReadFile env) (cm_Unmarshal env) (o_config opts) = Inr config"
    and run: "run_command env opts config = Starts client tlsconf b hp tp"
    using assms by (auto simp: main_def split: args_result.splits sum.splits if_splits)
  obtain m where start: "start_client env (config\<lparr>cfg_Tunnels := m\<rparr>) = Starts client tlsconf b hp tp"
    and m: "if o_command opts = ''start'' then select_tunnels (o_args opts) (cfg_Tunnels config) [] = Inr m
      else m = cfg_Tunnels config"
    using run_command_Starts [OF run] by blast
  have chosen: "map_of m = map_of (cfg_Tunnels config) |` set (o_args opts) \<and> dom (map_of m) = set (o_args opts)"
    if "o_command opts = ''start''"
    using select_tunnels_map [of "o_args opts" "cfg_Tunnels config" "[]" m] m that
    by (auto simp: dom_def restrict_map_def)
  have sub: "map_of m \<subseteq>\<^sub>m map_of (cfg_Tunnels config)"
    using chosen m by (cases "o_command opts = ''start''") (auto simp: map_le_def restrict_map_def)
  have valid: "\<exists>c. t = Some c \<and> valid_tunnel c" if "map_of m n = Some t" for n t
  proof -
    have "map_of (cfg_Tunnels config) n = Some t" using sub that by (metis domI map_le_def)
    then have "(n, t) \<in> set (cfg_Tunnels config)" by (rule map_of_SomeD)
    with load_valid [OF load] show ?thesis by auto
  qed
  have dom: "o_command opts = ''start'' \<longrightarrow> dom (map_of m) = set (o_args opts)" using chosen by blast
  have all: "o_command opts \<noteq> ''start'' \<longrightarrow> m = cfg_Tunnels config" using m by auto
  have cl: "m \<noteq> [] \<and> proxy m = Inr (hp, tp) \<and> cc_Tunnels (c_config client) = tunnels m \<and>
      cc_ServerAddr (c_config client) = cfg_ServerAddr config"
    using start_client_cases [OF start] by auto
  with map_of_tunnels [of m] show ?thesis using args load sub valid dom all by (intro exI conjI) auto
qed

definition demo_cmd_env :: cmd_env where
  "demo_cmd_env = \<lparr>cm_ReadFile = (\<lambda>f. Inr []), cm_Unmarshal = (\<lambda>b c. Inr demo_file), cm_Marshal = (\<lambda>c. Inr []),
     cm_LoadX509KeyPair = (\<lambda>c k. Inr [[]]), cm_ParseCertificate = (\<lambda>b. Inr b), cm_AppendCertsFromPEM = (\<lambda>p. True),
     cm_sha256 = (\<lambda>d. d), cm_now = 0\<rparr>"

lemma demo_load: "loadClientConfigFromFile (cm_ReadFile demo_cmd_env) (cm_Unmarshal demo_cmd_env) f = Inr demo_loaded"
  by (simp add: demo_cmd_env_def loadClientConfigFromFile_def demo_file_def demo_loaded_def Let_def validate_tunnel_def
      validateTCP_def protocol_names demo_addresses)

lemma demo_args:
  "parseArgs [''start'', ''ssh''] =
     Options \<lparr>o_config = ''tunnel.yml'', o_logLevel = 1, o_version = False, o_command = ''start'', o_args = [''ssh'']\<rparr>"
  by code_simp

lemma demo_split: "split_host_port ''a.b:5223'' = Inr (''a.b'', ''5223'')"
  by code_simp

lemma demo_main: "\<exists>client tlsconf b hp tp. main demo_cmd_env [''start'', ''ssh''] = Starts client tlsconf b hp tp"
  unfolding main_def demo_args
  by (simp add: demo_load run_command_def)
     (simp add: demo_loaded_def demo_file_def start_client_def tlsConfig_def demo_cmd_env_def demo_split map_put_def
       proxy_def protocol_names NewClient_def tunnels_def Let_def)

lemma main_starts_witness:
  "\<exists>client tlsconf b hp tp. main demo_cmd_env [''start'', ''ssh''] = Starts client tlsconf b hp tp \<and>
     dom (map_of (cc_Tunnels (c_config client))) = {''ssh''}"
proof -
  obtain client tlsconf b hp tp where s: "main demo_cmd_env [''start'', ''ssh''] = Starts client tlsconf b hp tp"
    using demo_main by blast
  from main_starts [OF s] obtain m :: tunnel_map where "dom (map_of (cc_Tunnels (c_config client))) = dom (map_of m)"
    "dom (map_of m) = {''ssh''}"
  proof (elim exE conjE)
    fix opts config and m :: tunnel_map assume "parseArgs [''start'', ''ssh''] = Options opts"
      "o_command opts = ''start'' \<longrightarrow> dom (map_of m) = set (o_args opts)"
    then have "dom (map_of m) = {''ssh''}" by (auto simp: demo_args)
    moreover assume "\<forall>n. map_of (cc_Tunnels (c_config client)) n =
      map_option (\<lambda>t. \<lparr>Protocol = ct_Protocol (the t), tunnel_Host = ct_Host (the t), tunnel_Auth = ct_Auth (the t),
        tunnel_Addr = ct_RemoteAddr (the t)\<rparr>) (map_of m n)"
    then have "dom (map_of (cc_Tunnels (c_config client))) = dom (map_of m)" by (simp add: dom_def)
    ultimately show thesis by (intro that)
  qed
  with s show ?thesis by simp
qed

lemma started_client_verifies_witness:
  "\<exists>client tls b hp tp. start_client demo_cmd_env (demo_loaded\<lparr>cfg_RootCA := ''ca.crt''\<rparr>) = Starts client (Some tls) b hp tp \<and>
     \<not> tls_InsecureSkipVerify tls"
proof -
  let ?config = "demo_loaded\<lparr>cfg_RootCA := ''ca.crt''\<rparr>"
  have "\<exists>client tlsconf b hp tp. start_client demo_cmd_env ?config = Starts client tlsconf b hp tp"
    by (simp add: demo_loaded_def demo_file_def start_client_def tlsConfig_def demo_cmd_env_def demo_split map_put_def
       proxy_def protocol_names NewClient_def tunnels_def Let_def)
  then obtain client tlsconf b hp tp where s: "start_client demo_cmd_env ?config = Starts client tlsconf b hp tp" by blast
  from started_client_verifies [OF s] s show ?thesis by auto
qed

end
