(* ===== verification/Cmd_Tunneld.thy ===== *)
theory Cmd_Tunneld
  imports Cmd_Tunnel Server_Client
begin

text \<open>
  The command line server (\<open>cmd/tunneld/options.go\<close>, \<open>cmd/tunneld/tunneld.go\<close>): its flags, its TLS
  configuration, the list of clients it accepts, and \<open>main\<close> up to the start of the listeners.
\<close>

section \<open>Flags\<close>

record server_options =
  so_httpAddr :: string
  so_httpsAddr :: string
  so_tunnelAddr :: string
  so_sniAddr :: string
  so_tlsCrt :: string
  so_tlsKey :: string
  so_rootCA :: string
  so_clients :: string
  so_logLevel :: int
  so_version :: bool

definition server_flags :: flag_set where
  "server_flags =
     [(''httpAddr'', VString '':80''), (''httpsAddr'', VString '':443''), (''tunnelAddr'', VString '':5223''),
      (''sniAddr'', VString []), (''tlsCrt'', VString ''server.crt''), (''tlsKey'', VString ''server.key''),
      (''rootCA'', VString []), (''clients'', VString []), (''log-level'', VInt 1), (''version'', VBool False)]"

definition server_parseArgs :: "string list \<Rightarrow> server_options args_result" where
  "server_parseArgs argv =
     (case flag_parse server_flags argv of
        Exits n \<Rightarrow> Args_exit n
      | Parsed fs args \<Rightarrow>
          Options \<lparr>so_httpAddr = string_flag fs ''httpAddr'', so_httpsAddr = string_flag fs ''httpsAddr'',
            so_tunnelAddr = string_flag fs ''tunnelAddr'', so_sniAddr = string_flag fs ''sniAddr'',
            so_tlsCrt = string_flag fs ''tlsCrt'', so_tlsKey = string_flag fs ''tlsKey'',
            so_rootCA = string_flag fs ''rootCA'', so_clients = string_flag fs ''clients'',
            so_logLevel = int_flag fs ''log-level'', so_version = bool_flag fs ''version''\<rparr>)"


section \<open>TLS\<close>

datatype client_auth = RequireAnyClientCert | RequireAndVerifyClientCert

text \<open>The versions and cipher suites are their numbers in the TLS registry.\<close>

record tls_server_config =
  ts_Certificates :: "byte list list"
  ts_ClientAuth :: client_auth
  ts_ClientCAs :: "string option"
  ts_SessionTicketsDisabled :: bool
  ts_MinVersion :: nat
  ts_CipherSuites :: "nat list"
  ts_PreferServerCipherSuites :: bool
  ts_NextProtos :: "string list"

text \<open>As for the client, \<open>Inr None\<close> is \<open>nil, nil\<close>, for a root file without a certificate.\<close>

definition server_tlsConfig :: "cmd_env \<Rightarrow> server_options \<Rightarrow> go_error + tls_server_config option" where
  "server_tlsConfig env opts =
     (case cm_LoadX509KeyPair env (so_tlsCrt opts) (so_tlsKey opts) of
        Inl err \<Rightarrow> Inl err
      | Inr cert \<Rightarrow>
          let finish = (\<lambda>clientAuth roots. Inr (Some
                \<lparr>ts_Certificates = cert, ts_ClientAuth = clientAuth, ts_ClientCAs = roots,
                 ts_SessionTicketsDisabled = True, ts_MinVersion = 0x0303, ts_CipherSuites = [0xC02B, 0xC02F],
                 ts_PreferServerCipherSuites = True, ts_NextProtos = [''h2'']\<rparr>))
          in if so_rootCA opts \<noteq> [] then
               (case cm_ReadFile env (so_rootCA opts) of
                  Inl err \<Rightarrow> Inl err
                | Inr rootPEM \<Rightarrow>
                    if \<not> cm_AppendCertsFromPEM env rootPEM then Inr None
                    else finish RequireAndVerifyClientCert (Some rootPEM))
             else finish RequireAnyClientCert None)"


section \<open>main\<close>

text \<open>The loop over the identifiers of the command line.\<close>

fun subscribe_clients :: "string list \<Rightarrow> 'l registry \<Rightarrow> string + 'l registry" where
  "subscribe_clients [] r = Inr r"
| "subscribe_clients (c # cs) r =
     (if c = [] then Inl ''empty client id''
      else case UnmarshalText emptyID c of
        Inl err \<Rightarrow> Inl (''invalid identifier '' @ go_quote c @ '': '' @ error_text err)
      | Inr identifier \<Rightarrow> subscribe_clients cs (Subscribe identifier r))"

text \<open>
  \<open>Server_starts\<close> has the TLS and server configurations, the control listener, the state of the server
  when its accept loop starts, and the addresses of the public HTTP and HTTPS servers, if any.
\<close>

datatype server_result =
    Server_exits int
  | Server_fatal string
  | Server_prints "string list"
  | Server_starts "tls_server_config option" server_config nat srv "string option" "string option"

definition server_main ::
  "cmd_env \<Rightarrow> (string \<Rightarrow> string \<Rightarrow> go_error + nat) \<Rightarrow> nat \<Rightarrow> string list \<Rightarrow> server_result" where
  "server_main env net_listen next_handle argv =
     (case server_parseArgs argv of
        Args_exit n \<Rightarrow> Server_exits n
      | Args_error err \<Rightarrow> Server_fatal (error_text err)
      | Options opts \<Rightarrow>
          if so_version opts then Server_prints [''snapshot'']
          else case server_tlsConfig env opts of
            Inl err \<Rightarrow> Server_fatal (''failed to configure tls: '' @ error_text err)
          | Inr tlsconf \<Rightarrow>
              let autoSubscribe = (so_clients opts = []);
                  cfg = \<lparr>cfg_Addr = so_tunnelAddr opts, cfg_AutoSubscribe = autoSubscribe,
                    cfg_TLSConfig = (tlsconf \<noteq> None), cfg_Listener = None, cfg_SNIAddr = so_sniAddr opts,
                    cfg_CanSubscribe = None\<rparr>
              in case NewServer cfg net_listen next_handle of
                   Inl err \<Rightarrow> Server_fatal (''failed to create server: '' @ error_text err)
                 | Inr (l, p, w) \<Rightarrow>
                     (case (if autoSubscribe then Inr (w_reg w)
                            else subscribe_clients (split_byte CHR '','' (so_clients opts)) (w_reg w)) of
                        Inl msg \<Rightarrow> Server_fatal msg
                      | Inr r \<Rightarrow>
                          Server_starts tlsconf cfg l (p, w\<lparr>w_reg := r\<rparr>)
                            (if so_httpAddr opts \<noteq> [] then Some (so_httpAddr opts) else None)
                            (if so_httpsAddr opts \<noteq> [] then Some (so_httpsAddr opts) else None)))"


section \<open>Who may connect\<close>

lemma subscribe_clients_items:
  "subscribe_clients cs r = Inr r' \<Longrightarrow>
   (\<forall>k. IsSubscribed k r' \<longleftrightarrow> IsSubscribed k r \<or> (\<exists>c \<in> set cs. UnmarshalText emptyID c = Inr k)) \<and> hosts r' = hosts r"
proof (induction cs r arbitrary: r' rule: subscribe_clients.induct)
  case (1 r)
  then show ?case by simp
next
  case (2 c cs r)
  from "2.prems" obtain i where c: "c \<noteq> []" and i: "UnmarshalText emptyID c = Inr i"
    and rest: "subscribe_clients cs (Subscribe i r) = Inr r'"
    by (auto split: if_splits sum.splits)
  have sub: "IsSubscribed k (Subscribe i r) \<longleftrightarrow> IsSubscribed k r \<or> k = i" for k
    by (auto simp: IsSubscribed_def Subscribe_def)
  from "2.IH" [OF c i rest] i show ?case by (auto simp: sub)
qed

lemma server_tlsConfig_auth:
  assumes "server_tlsConfig env opts = Inr (Some tls)"
  shows "ts_MinVersion tls = 0x0303 \<and> ts_NextProtos tls = [''h2''] \<and> ts_SessionTicketsDisabled tls \<and>
    (if so_rootCA opts = [] then ts_ClientAuth tls = RequireAnyClientCert
     else ts_ClientAuth tls = RequireAndVerifyClientCert \<and>
       (\<exists>pem. cm_ReadFile env (so_rootCA opts) = Inr pem \<and> cm_AppendCertsFromPEM env pem \<and> ts_ClientCAs tls = Some pem))"
  using assms by (auto simp: server_tlsConfig_def Let_def split: sum.splits if_splits)

lemma NewServer_InrD:
  assumes "NewServer cfg net_listen n = Inr (l, p, w)" and "cfg_Listener cfg = None"
  shows "w_reg w = newRegistry \<and> cfg_TLSConfig cfg \<and> cfg_Addr cfg \<noteq> []"
  using assms
  by (auto simp: NewServer_def control_listener_def Let_def split: sum.splits if_splits)

lemma server_main_cfg:
  "server_main env net_listen n argv = Server_starts tlsconf cfg l s http https \<Longrightarrow> cfg_CanSubscribe cfg = None"
  by (auto simp: server_main_def Let_def split: args_result.splits sum.splits prod.splits if_splits)

lemma server_main_state:
  assumes "server_main env net_listen n argv = Server_starts tlsconf cfg l (p, w) http https"
  shows "\<exists>opts tls. server_parseArgs argv = Options opts \<and> tlsconf = Some tls \<and>
    ts_ClientAuth tls = (if so_rootCA opts = [] then RequireAnyClientCert else RequireAndVerifyClientCert) \<and>
    cfg_AutoSubscribe cfg = (so_clients opts = []) \<and> hosts (w_reg w) = (\<lambda>_. None) \<and>
    (\<forall>k. IsSubscribed k (w_reg w) \<longleftrightarrow>
       so_clients opts \<noteq> [] \<and> (\<exists>c \<in> set (split_byte CHR '','' (so_clients opts)). UnmarshalText emptyID c = Inr k))"
proof -
  from assms obtain opts tc w0 where opts: "server_parseArgs argv = Options opts"
    and tls: "server_tlsConfig env opts = Inr tc"
    and cfg: "cfg = \<lparr>cfg_Addr = so_tunnelAddr opts, cfg_AutoSubscribe = (so_clients opts = []),
      cfg_TLSConfig = (tc \<noteq> None), cfg_Listener = None, cfg_SNIAddr = so_sniAddr opts, cfg_CanSubscribe = None\<rparr>"
    and new: "NewServer cfg net_listen n = Inr (l, p, w0)" and tc: "tlsconf = tc"
    and reg: "(if so_clients opts = [] then Inr (w_reg w0)
       else subscribe_clients (split_byte CHR '','' (so_clients opts)) (w_reg w0)) = Inr (w_reg w)"
    unfolding server_main_def
    by (auto simp: Let_def split: args_result.splits sum.splits prod.splits if_splits)
  from NewServer_InrD [OF new] cfg have w0: "w_reg w0 = newRegistry" and "tc \<noteq> None" by simp_all
  then obtain t where t: "tc = Some t" by auto
  have empty: "\<not> IsSubscribed k (newRegistry :: listener registry)" "hosts (newRegistry :: listener registry) = (\<lambda>_. None)" for k
    by (simp_all add: IsSubscribed_def newRegistry_def)
  have "hosts (w_reg w) = (\<lambda>_. None) \<and> (\<forall>k. IsSubscribed k (w_reg w) \<longleftrightarrow>
      so_clients opts \<noteq> [] \<and> (\<exists>c \<in> set (split_byte CHR '','' (so_clients opts)). UnmarshalText emptyID c = Inr k))"
  proof (cases "so_clients opts = []")
    case True
    with reg w0 have "w_reg w = newRegistry" by simp
    with True empty show ?thesis by simp
  next
    case False
    with reg w0 have "subscribe_clients (split_byte CHR '','' (so_clients opts)) newRegistry = Inr (w_reg w)" by simp
    from subscribe_clients_items [OF this] False empty show ?thesis by simp
  qed
  with server_tlsConfig_auth [of env opts t] tls t tc opts cfg show ?thesis
    by (intro exI [of _ opts] exI [of _ t]) (auto split: if_splits)
qed


text \<open>
  The server of the command line admits whom its flags say: when it starts with a list of clients,
  the subscribed clients are exactly the ones listed and new ones are not subscribed by connecting;
  with an empty list the registry starts empty and whoever connects is subscribed. It always starts with a
  TLS configuration that asks for a client certificate, and verifies it when a root file is given.
\<close>

theorem server_main_admits:
  assumes "server_main env net_listen n argv = Server_starts tlsconf cfg l (p, w) http https"
  shows "\<exists>opts tls. server_parseArgs argv = Options opts \<and> tlsconf = Some tls \<and>
    ts_ClientAuth tls = (if so_rootCA opts = [] then RequireAnyClientCert else RequireAndVerifyClientCert) \<and>
    cfg_AutoSubscribe cfg = (so_clients opts = []) \<and> hosts (w_reg w) = (\<lambda>_. None) \<and>
    (\<forall>k. IsSubscribed k (w_reg w) \<longleftrightarrow>
       so_clients opts \<noteq> [] \<and> (\<exists>c \<in> set (split_byte CHR '','' (so_clients opts)). UnmarshalText emptyID c = Inr k))"
  using assms by (rule server_main_state)

lemma ident_text_no_comma: "CHR '','' \<notin> set (ident_text i)"
proof -
  have "set (ident_checked i) \<subseteq> set base32_alphabet" by (rule set_ident_checked)
  then show ?thesis using set_chunkify [of "ident_checked i"] by (auto simp: ident_text_eq base32_alphabet_def)
qed

lemma ident_text_nonempty: "ident_text i \<noteq> []"
proof
  assume "ident_text i = []"
  then have "length (canonical []) = 56" using UnmarshalText_InrD [OF UnmarshalText_ident_text [of emptyID i]] by simp
  moreover have "canonical [] = []" by code_simp
  ultimately show False by simp
qed

text \<open>
  The identifiers that clients print are what the server's list takes: for any non-empty list of
  identifiers, joining their texts with commas and splitting that again as the command line does
  subscribes exactly those clients and never fails.
\<close>

theorem client_list_roundtrip:
  assumes "ks \<noteq> []"
  shows "\<exists>r. subscribe_clients (split_byte CHR '','' (join '','' (map ident_text ks))) (newRegistry :: listener registry) = Inr r \<and>
    (\<forall>k. IsSubscribed k r \<longleftrightarrow> k \<in> set ks) \<and> hosts r = (\<lambda>_. None)"
proof -
  have split: "split_byte CHR '','' (join '','' (map ident_text ks)) = map ident_text ks"
    using assms ident_text_no_comma by (intro split_byte_join) auto
  have total: "\<exists>r'. subscribe_clients (map ident_text ks) r = Inr r'" for ks and r :: "listener registry"
    by (induction ks arbitrary: r) (simp_all add: UnmarshalText_ident_text ident_text_nonempty)
  obtain r where r: "subscribe_clients (map ident_text ks) (newRegistry :: listener registry) = Inr r" using total by blast
  have "\<not> IsSubscribed k (newRegistry :: listener registry)" "hosts (newRegistry :: listener registry) = (\<lambda>_. None)" for k
    by (simp_all add: IsSubscribed_def newRegistry_def)
  with subscribe_clients_items [OF r] split r show ?thesis
    by (auto simp: UnmarshalText_ident_text)
qed


lemma client_list_roundtrip_witness:
  "\<exists>r. subscribe_clients (split_byte CHR '','' (join '','' [ident_text zero_ident])) (newRegistry :: listener registry) = Inr r \<and>
    IsSubscribed zero_ident r"
  using client_list_roundtrip [of "[zero_ident]"] by auto

definition demo_listen :: "string \<Rightarrow> string \<Rightarrow> go_error + nat" where
  "demo_listen network address = Inr (length address)"

lemma demo_server_args:
  "server_parseArgs [''-rootCA'', ''ca.crt''] =
     Options \<lparr>so_httpAddr = '':80'', so_httpsAddr = '':443'', so_tunnelAddr = '':5223'', so_sniAddr = [],
       so_tlsCrt = ''server.crt'', so_tlsKey = ''server.key'', so_rootCA = ''ca.crt'', so_clients = [],
       so_logLevel = 1, so_version = False\<rparr>"
  by code_simp

lemma server_main_admits_witness:
  "\<exists>tls cfg l p w http https. server_main demo_cmd_env demo_listen 10 [''-rootCA'', ''ca.crt''] =
       Server_starts (Some tls) cfg l (p, w) http https \<and>
     ts_ClientAuth tls = RequireAndVerifyClientCert \<and> cfg_AutoSubscribe cfg"
proof -
  have "\<exists>tlsconf cfg l p w http https. server_main demo_cmd_env demo_listen 10 [''-rootCA'', ''ca.crt''] =
      Server_starts tlsconf cfg l (p, w) http https"
    unfolding server_main_def demo_server_args
    by (simp add: server_tlsConfig_def demo_cmd_env_def NewServer_def control_listener_def demo_listen_def Let_def)
  then obtain tlsconf cfg l p w http https where
    s: "server_main demo_cmd_env demo_listen 10 [''-rootCA'', ''ca.crt''] = Server_starts tlsconf cfg l (p, w) http https"
    by blast
  from server_main_admits [OF s] s show ?thesis by (auto simp: demo_server_args)
qed

end
