(* ===== verification/Server_Listed.thy ===== *)
theory Server_Listed
  imports Server_Peers Cmd_Tunneld
begin

text \<open>
  The server of the command line with a list of clients (\<open>cmd/tunneld/tunneld.go\<close>), running: its goroutines
  interleaved as in \<open>Server_Steps\<close>, from the state in which \<open>main\<close> starts it. Nobody who is not on the list gets
  anything from it.
\<close>

section \<open>The invariant\<close>

text \<open>\<open>L\<close> says who is listed. The stages before the handshake hold the identifier of a listed client.\<close>

fun aim_listed :: "(ident \<Rightarrow> bool) \<Rightarrow> aim \<Rightarrow> bool" where
  "aim_listed L (To_add env i) = L i"
| "aim_listed L _ = True"

fun phase_listed :: "(ident \<Rightarrow> bool) \<Rightarrow> phase \<Rightarrow> bool" where
  "phase_listed L (Admitted env i) = L i"
| "phase_listed L (Adding env i) = L i"
| "phase_listed L (Deleting i aim) = aim_listed L aim"
| "phase_listed L (Freeing i aim) = aim_listed L aim"
| "phase_listed L (Closing ls aim) = aim_listed L aim"
| "phase_listed L _ = True"

lemma phase_listed_resume [simp]: "phase_listed L (resume aim) = aim_listed L aim"
  by (cases aim) simp_all

definition pool_listed :: "(ident \<Rightarrow> bool) \<Rightarrow> pool \<Rightarrow> bool" where
  "pool_listed L p \<longleftrightarrow> (\<forall>i. conns p (pool_addr i) \<noteq> None \<longrightarrow> L i)"

definition registry_listed :: "(ident \<Rightarrow> bool) \<Rightarrow> listener registry \<Rightarrow> bool" where
  "registry_listed L r \<longleftrightarrow>
     (\<forall>i. IsSubscribed i r \<longrightarrow> L i) \<and> (\<forall>k hi. hosts r k = Some hi \<longrightarrow> L (hi_identifier hi))"

text \<open>A peer whose certificate is not that of a listed client, or that has no proper one.\<close>

definition stranger :: "(ident \<Rightarrow> bool) \<Rightarrow> conn_env \<Rightarrow> bool" where
  "stranger L env \<longleftrightarrow> (\<forall>i. peer env = Inr i \<longrightarrow> \<not> L i)"

definition turned_away :: "conn_env \<Rightarrow> phase \<Rightarrow> bool" where
  "turned_away env ph \<longleftrightarrow> ph = Starting env \<or> ph = Rejecting \<or> ph = Finished Rejected"

definition listed_server :: "(ident \<Rightarrow> bool) \<Rightarrow> event set \<Rightarrow> system \<Rightarrow> bool" where
  "listed_server L E s \<longleftrightarrow> (\<forall>c. phase_listed L (sy_pc s c)) \<and> pool_listed L (sy_pool s) \<and>
     registry_listed L (w_reg (sy_world s)) \<and>
     (\<forall>c env. Accepted c env \<in> E \<longrightarrow> stranger L env \<longrightarrow> turned_away env (sy_pc s c)) \<and>
     (\<forall>c. sy_pc s c = Finished Rejected \<longrightarrow> c \<notin> w_conns (sy_world s))"


section \<open>Steps keep it\<close>

text \<open>A server that neither subscribes clients by itself nor has somebody else decide.\<close>

definition closed_server :: "server_config \<Rightarrow> bool" where
  "closed_server cfg \<longleftrightarrow> \<not> cfg_AutoSubscribe cfg \<and> cfg_CanSubscribe cfg = None"

lemma admit_closed: "closed_server cfg \<Longrightarrow> admit cfg env i w = (IsSubscribed i (w_reg w), w)"
  by (simp add: admit_def closed_server_def)

lemma registry_listed_shrink:
  assumes "registry_listed L r" and "\<And>i. IsSubscribed i r' \<Longrightarrow> IsSubscribed i r" and "hosts r' \<subseteq>\<^sub>m hosts r"
  shows "registry_listed L r'"
  using assms unfolding registry_listed_def map_le_def by (metis domI)

lemma registry_listed_removed:
  assumes "registry_listed L r"
  shows "registry_listed L (snd (clear i r))" and "registry_listed L (snd (Unsubscribe i r))"
proof -
  have sub: "IsSubscribed j r" if "IsSubscribed j (snd (clear i r)) \<or> IsSubscribed j (snd (Unsubscribe i r))" for j
    using that by (auto simp: IsSubscribed_def clear_def Unsubscribe_def split: option.splits item_ref.splits if_splits)
  show "registry_listed L (snd (clear i r))" and "registry_listed L (snd (Unsubscribe i r))"
    by (rule registry_listed_shrink [OF assms]; use sub removed_hosts_le in blast)+
qed

lemma registry_listed_set_item:
  assumes "registry_listed L r" and "set_item it i r = (res, r')"
  shows "registry_listed L r'"
proof (cases res)
  case (Some e)
  with set_item_error assms show ?thesis by blast
next
  case None
  note stored = set_item_NoneD [OF assms(2) [unfolded None]]
  have i: "L i" using assms(1) stored(1) by (simp add: registry_listed_def IsSubscribed_def)
  have "L (hi_identifier hi)" if "hosts r' k = Some hi" for k hi
  proof (cases "k \<in> host_keys (Hosts it)")
    case True
    from assign_hosts_some [OF this, of i "hosts r"] that stored(3) i show ?thesis by auto
  next
    case False
    with that stored(3) assms(1) show ?thesis by (simp add: registry_listed_def assign_hosts_other)
  qed
  with assms(1) i stored(3) show ?thesis by (auto simp: registry_listed_def IsSubscribed_def)
qed

lemma open_tunnel_conns:
  "open_tunnel env name t it w = (res, it', w') \<Longrightarrow> w_conns w' = w_conns w"
  by (erule open_tunnel_cases)
    (auto dest!: same_rest_net_Listen same_rest_vhost_Listen simp: same_rest_def)

text \<open>What a step of a goroutine does to everything but its own phase.\<close>

definition step_listed :: "(ident \<Rightarrow> bool) \<Rightarrow> nat \<Rightarrow> world \<Rightarrow> local \<Rightarrow> bool" where
  "step_listed L c w l \<longleftrightarrow> (case l of (ph, p, w', lk) \<Rightarrow>
     phase_listed L ph \<and> pool_listed L p \<and> registry_listed L (w_reg w') \<and> w_conns w' \<subseteq> w_conns w \<and>
     (ph = Finished Rejected \<longrightarrow> c \<notin> w_conns w'))"

lemma add_conn_listed:
  "L i \<Longrightarrow> pool_listed L p \<Longrightarrow> registry_listed L (w_reg w) \<Longrightarrow> step_listed L c w (add_conn c env i p w)"
  by (auto simp: step_listed_def add_conn_def pool_listed_def split: sum.split)

lemma drop_conn_listed:
  "aim_listed L aim \<Longrightarrow> pool_listed L p \<Longrightarrow> registry_listed L (w_reg w) \<Longrightarrow>
   step_listed L c w (drop_conn c cp addr aim p w)"
  by (auto simp: step_listed_def drop_conn_def pool_listed_def)

lemma notifyError_conns [simp]: "w_conns (notifyError env e i w) = w_conns w"
  by (simp add: notifyError_def split: option.split)

lemma opening_listed:
  assumes "advance cfg c (Opening env i ts it) p w lk = Some l" and "pool_listed L p" and "registry_listed L (w_reg w)"
  shows "step_listed L c w l"
proof (cases ts)
  case Nil
  obtain res r where "set_item it i (w_reg w) = (res, r)" by fastforce
  with registry_listed_set_item [OF assms(3) this] Nil assms show ?thesis
    by (auto simp: step_listed_def split: option.splits)
next
  case (Cons e ts')
  with assms obtain name t where e: "e = (name, Some t)" by (cases e; cases "snd e") auto
  obtain res it1 w1 where one: "open_tunnel env name t it w = (res, it1, w1)" by (metis prod_cases3)
  with open_tunnel_reg [OF one] open_tunnel_conns [OF one] Cons e assms show ?thesis
    by (auto simp: step_listed_def split: option.splits)
qed

lemma advance_listed:
  assumes "closed_server cfg" and "advance cfg c ph p w lk = Some l"
    and "phase_listed L ph" and "pool_listed L p" and "registry_listed L (w_reg w)"
  shows "step_listed L c w l"
proof (cases ph)
  case (Starting env)
  with assms show ?thesis
    by (auto simp: step_listed_def admit_closed registry_listed_def split: if_splits sum.splits bool.splits)
next
  case (Admitted env i)
  with assms show ?thesis
    by (auto split: if_splits option.splits intro: add_conn_listed drop_conn_listed) (simp add: step_listed_def)
next
  case (Adding env i)
  with assms show ?thesis by (auto intro: add_conn_listed)
next
  case (Pooled env i)
  with assms show ?thesis by (auto simp: step_listed_def split: sum.splits)
next
  case (Opening env i ts it)
  with opening_listed assms show ?thesis by blast
next
  case (Rolling env i err ls)
  with assms show ?thesis by (cases ls) (auto simp: step_listed_def)
next
  case (Deleting i aim)
  with assms show ?thesis
    by (auto split: if_splits option.splits intro: drop_conn_listed) (simp add: step_listed_def)
next
  case (Freeing i aim)
  with assms registry_listed_removed(1) [OF assms(5), of i] show ?thesis
    by (auto simp: step_listed_def split: prod.splits)
next
  case (Closing ls aim)
  with assms show ?thesis by (cases ls; cases aim) (auto simp: step_listed_def)
next
  case (Removing i)
  with assms registry_listed_removed(2) [OF assms(5), of i] show ?thesis
    by (auto simp: step_listed_def split: prod.splits)
qed (use assms in \<open>auto simp: step_listed_def\<close>)

text \<open>
  A goroutine that turns a peer away has one step left after another, which changes nothing but its
  phase and, in the end, the connection.
\<close>

lemma turned_away_advance:
  assumes "closed_server cfg" and "stranger L env" and "turned_away env ph" and "registry_listed L (w_reg w)"
  shows "ph = Finished Rejected \<or> ph = Rejecting \<and> advance cfg c ph p w lk = Some (Finished Rejected, p, close_conn c w, lk) \<or>
    ph = Starting env \<and> advance cfg c ph p w lk = Some (Rejecting, p, w, lk)"
proof (cases "ph = Starting env")
  case True
  have "\<not> IsSubscribed i (w_reg w)" if "peer env = Inr i" for i
    using assms(2,4) that by (auto simp: stranger_def registry_listed_def)
  with True assms(1) show ?thesis by (auto simp: peer_def admit_closed split: sum.split)
next
  case False
  with assms(3) show ?thesis by (auto simp: turned_away_def)
qed

lemma listed_server_put:
  assumes "listed_server L E s" and "step_listed L c (sy_world s) (ph, p, w, lk)"
    and "\<And>env. Accepted c env \<in> E \<Longrightarrow> stranger L env \<Longrightarrow> turned_away env ph"
  shows "listed_server L E (put s c (ph, p, w, lk))"
  using assms unfolding listed_server_def step_listed_def put_def by auto

lemma listed_server_event: "listed_server L E s \<Longrightarrow> (\<And>c env. e \<noteq> Accepted c env) \<Longrightarrow> listed_server L (insert e E) s"
  by (auto simp: listed_server_def)

lemma listed_idle: "listed_server L E s \<Longrightarrow> sy_pc s c = Idle \<Longrightarrow> Accepted c env \<in> E \<Longrightarrow> \<not> stranger L env"
  unfolding listed_server_def turned_away_def by fastforce

lemma listed_server_step:
  assumes "closed_server cfg" and "listed_server L E s" and "sys_step cfg s e t"
  shows "listed_server L (insert e E) t"
  using assms(3)
proof cases
  case (accepted c env)
  from assms(2) accepted(3) listed_idle [OF assms(2) accepted(3)] show ?thesis
    unfolding accepted(1,2) listed_server_def put_def turned_away_def by auto
next
  case (dead c i cp d)
  obtain ph p w lk where l: "drop_conn c cp (pool_addr i) To_end (sy_pool s) (sy_world s) = (ph, p, w, lk)"
    by (metis prod_cases4)
  have "step_listed L c (sy_world s) (drop_conn c cp (pool_addr i) To_end (sy_pool s) (sy_world s))"
    using assms(2) by (intro drop_conn_listed) (simp_all add: listed_server_def)
  from listed_server_put [OF assms(2) this [unfolded l]] listed_idle [OF assms(2) dead(3)] show ?thesis
    unfolding dead(1,2) l by (intro listed_server_event) auto
next
  case (unsubscribing c i)
  let ?w = "case cfg_CanSubscribe cfg of
      None \<Rightarrow> sy_world s
    | Some f \<Rightarrow> (sy_world s)\<lparr>w_notified := Unsubscribed i # w_notified (sy_world s)\<rparr>"
  have "step_listed L c (sy_world s) (Deleting i (To_remove i), sy_pool s, ?w, sy_lock s)"
    using assms(2) by (simp add: step_listed_def listed_server_def split: option.split)
  from listed_server_put [OF assms(2) this] listed_idle [OF assms(2) unsubscribing(3)] show ?thesis
    unfolding unsubscribing(1,2) by (intro listed_server_event) auto
next
  case (step c l)
  obtain ph p w lk where l: "l = (ph, p, w, lk)" by (cases l)
  have ok: "step_listed L c (sy_world s) l"
    using assms(2) by (intro advance_listed [OF assms(1) step(3)]) (simp_all add: listed_server_def)
  have "turned_away env ph" if "Accepted c env \<in> E" "stranger L env" for env
  proof -
    from assms(2) that have "turned_away env (sy_pc s c)" "registry_listed L (w_reg (sy_world s))"
      by (auto simp: listed_server_def)
    from turned_away_advance [OF assms(1) that(2) this, of c "sy_pool s" "sy_lock s"] step(3) l
    show ?thesis by (auto simp: turned_away_def)
  qed
  with listed_server_put [OF assms(2) ok [unfolded l]] show ?thesis
    unfolding step(1,2) l by (intro listed_server_event) auto
qed

definition listed_start :: "(ident \<Rightarrow> bool) \<Rightarrow> system \<Rightarrow> bool" where
  "listed_start L s \<longleftrightarrow> fresh_server s \<and> (\<forall>i. IsSubscribed i (w_reg (sy_world s)) \<longrightarrow> L i)"

lemma listed_start_server: "listed_start L s \<Longrightarrow> listed_server L {} s"
  by (simp add: listed_start_def fresh_server_def listed_server_def pool_listed_def registry_listed_def)

interpretation listing: history_machine "listed_start L" "sys_step cfg"
  "\<lambda>E s. closed_server cfg \<longrightarrow> listed_server L E s"
  by (rule history_machine.intro) (auto intro: listed_start_server listed_server_step)


section \<open>The server of the command line\<close>

text \<open>The identifiers that the option \<open>clients\<close> lists.\<close>

definition listed_in :: "server_options \<Rightarrow> ident \<Rightarrow> bool" where
  "listed_in opts i \<longleftrightarrow> (\<exists>c \<in> set (split_byte CHR '','' (so_clients opts)). UnmarshalText emptyID c = Inr i)"

lemma server_main_pool:
  "server_main env net_listen n argv = Server_starts tlsconf cfg l (p, w) http https \<Longrightarrow> conns p = (\<lambda>_. None)"
  by (auto simp: server_main_def NewServer_def newConnPool_def Let_def
      split: args_result.splits sum.splits prod.splits if_splits)

lemma server_main_closed:
  assumes "server_main env net_listen n argv = Server_starts tlsconf cfg l (p, w) http https"
    and "server_parseArgs argv = Options opts" and "so_clients opts \<noteq> []"
    and "sy_pool s = p" and "sy_world s = w" and "\<forall>c. sy_pc s c = Idle"
  shows "closed_server cfg" and "listed_start (listed_in opts) s"
  using server_main_state [OF assms(1)] server_main_cfg [OF assms(1)] server_main_pool [OF assms(1)] assms(2-6)
  by (auto simp: closed_server_def listed_start_def fresh_server_def listed_in_def)

text \<open>
  C13. A server started with a list of clients serves nobody else. However its goroutines interleave, a
  connection of a peer whose identifier is not on the list, or that has no proper certificate, either has been
  closed or is about to be: the goroutine that handles it always has a next step, and its steps change nothing but
  this connection. At no moment is there a connection in the pool or a route for a client that is not listed.
\<close>

theorem unlisted_client_refused:
  assumes "server_main env net_listen n argv = Server_starts tlsconf cfg l (p, w) http https"
    and "server_parseArgs argv = Options opts" and "so_clients opts \<noteq> []"
    and "sy_pool s = p" and "sy_world s = w" and "\<forall>c. sy_pc s c = Idle" and "run (sys_step cfg) s es t"
  shows "(\<forall>i. \<not> listed_in opts i \<longrightarrow>
      session_conn i (sy_pool t) = None \<and> (\<forall>host auth. Subscriber host (w_reg (sy_world t)) \<noteq> Some (i, auth))) \<and>
    (\<forall>c cenv. Accepted c cenv \<in> set es \<longrightarrow>
      (\<forall>i. PeerID (ce_sha256 cenv) (ce_Handshake cenv) (ce_PeerCertificates cenv) = Inr i \<longrightarrow> \<not> listed_in opts i) \<longrightarrow>
      sy_pc t c = Finished Rejected \<and> c \<notin> w_conns (sy_world t) \<or>
      sy_pc t c = Rejecting \<and> advance cfg c (sy_pc t c) (sy_pool t) (sy_world t) (sy_lock t) =
        Some (Finished Rejected, sy_pool t, close_conn c (sy_world t), sy_lock t) \<or>
      sy_pc t c = Starting cenv \<and> advance cfg c (sy_pc t c) (sy_pool t) (sy_world t) (sy_lock t) =
        Some (Rejecting, sy_pool t, sy_world t, sy_lock t))"
proof (intro conjI allI impI)
  note start = server_main_closed [OF assms(1-6)]
  have ok: "listed_server (listed_in opts) (set es) t"
    using listing.history_reachable [OF start(2) assms(7)] start(1) by blast
  { fix i assume "\<not> listed_in opts i"
    with ok show "session_conn i (sy_pool t) = None" and "Subscriber host (w_reg (sy_world t)) \<noteq> Some (i, auth)" for host auth
      by (auto simp: listed_server_def pool_listed_def registry_listed_def session_conn_def Subscriber_def
          split: option.splits)
  next
    fix c cenv assume acc: "Accepted c cenv \<in> set es"
      and "\<forall>i. PeerID (ce_sha256 cenv) (ce_Handshake cenv) (ce_PeerCertificates cenv) = Inr i \<longrightarrow> \<not> listed_in opts i"
    then have str: "stranger (listed_in opts) cenv" by (simp add: stranger_def peer_def)
    from ok acc str have "turned_away cenv (sy_pc t c)" "registry_listed (listed_in opts) (w_reg (sy_world t))"
      "sy_pc t c = Finished Rejected \<longrightarrow> c \<notin> w_conns (sy_world t)"
      by (auto simp: listed_server_def)
    with turned_away_advance [OF start(1) str this(1,2), of c "sy_pool t" "sy_lock t"]
    show "sy_pc t c = Finished Rejected \<and> c \<notin> w_conns (sy_world t) \<or>
      sy_pc t c = Rejecting \<and> advance cfg c (sy_pc t c) (sy_pool t) (sy_world t) (sy_lock t) =
        Some (Finished Rejected, sy_pool t, close_conn c (sy_world t), sy_lock t) \<or>
      sy_pc t c = Starting cenv \<and> advance cfg c (sy_pc t c) (sy_pool t) (sy_world t) (sy_lock t) =
        Some (Rejecting, sy_pool t, sy_world t, sy_lock t)"
      by blast }
qed


section \<open>Examples\<close>

lemma demo_list_args:
  assumes "s \<noteq> []"
  shows "server_parseArgs [''-clients'', s] =
     Options \<lparr>so_httpAddr = '':80'', so_httpsAddr = '':443'', so_tunnelAddr = '':5223'', so_sniAddr = [],
       so_tlsCrt = ''server.crt'', so_tlsKey = ''server.key'', so_rootCA = [], so_clients = s,
       so_logLevel = 1, so_version = False\<rparr>"
  by (simp add: server_parseArgs_def flag_parse.simps(2) server_flags_def set_flag_def update_flag_def string_flag_def
      int_flag_def bool_flag_def Let_def)

definition demo_stranger :: conn_env where
  "demo_stranger = (demo_env [])\<lparr>ce_sha256 := (\<lambda>cert. replicate 32 1)\<rparr>"

lemma demo_stranger_peer:
  "PeerID (ce_sha256 demo_stranger) (ce_Handshake demo_stranger) (ce_PeerCertificates demo_stranger) =
     Inr (New (\<lambda>cert. replicate 32 1) [1])"
  "New (\<lambda>cert. replicate 32 1) [1] \<noteq> zero_ident"
  by (simp_all add: PeerID_def demo_stranger_def demo_env_def New_def ident_eq_iff bytes_of_copy)

definition started :: "srv \<Rightarrow> system" where
  "started s = \<lparr>sy_pool = fst s, sy_world = snd s, sy_lock = None, sy_pc = (\<lambda>c. Idle)\<rparr>"

lemma unlisted_client_refused_witness:
  "\<exists>tls cfg l p w http https t. server_main demo_cmd_env demo_listen 10 [''-clients'', ident_text zero_ident] =
       Server_starts tls cfg l (p, w) http https \<and>
     run (sys_step cfg) (started (p, w)) [Accepted 7 demo_stranger] t \<and>
     advance cfg 7 (sy_pc t 7) (sy_pool t) (sy_world t) (sy_lock t) = Some (Rejecting, sy_pool t, sy_world t, sy_lock t)"
proof -
  let ?opts = "\<lparr>so_httpAddr = '':80'', so_httpsAddr = '':443'', so_tunnelAddr = '':5223'', so_sniAddr = [],
       so_tlsCrt = ''server.crt'', so_tlsKey = ''server.key'', so_rootCA = [], so_clients = ident_text zero_ident,
       so_logLevel = 1, so_version = False\<rparr>"
  note args = demo_list_args [OF ident_text_nonempty [of zero_ident]]
  have split: "split_byte CHR '','' (ident_text zero_ident) = [ident_text zero_ident]"
    using ident_text_no_comma by (rule split_byte_one)
  have "\<exists>tls cfg l p w http https. server_main demo_cmd_env demo_listen 10 [''-clients'', ident_text zero_ident] =
      Server_starts tls cfg l (p, w) http https"
    unfolding server_main_def args
    by (simp add: server_tlsConfig_def demo_cmd_env_def NewServer_def control_listener_def demo_listen_def Let_def split
        ident_text_nonempty UnmarshalText_ident_text)
  then obtain tls cfg l p w http https where
    s: "server_main demo_cmd_env demo_listen 10 [''-clients'', ident_text zero_ident] = Server_starts tls cfg l (p, w) http https"
    by blast
  let ?t = "put (started (p, w)) 7 (Starting demo_stranger, p, w\<lparr>w_conns := insert 7 (w_conns w)\<rparr>, None)"
  have run: "run (sys_step cfg) (started (p, w)) [Accepted 7 demo_stranger] ?t"
    using sys_step.accepted [of "started (p, w)" 7 cfg demo_stranger] by (simp add: started_def run_Cons_iff)
  have "\<forall>i. PeerID (ce_sha256 demo_stranger) (ce_Handshake demo_stranger) (ce_PeerCertificates demo_stranger) = Inr i \<longrightarrow>
      \<not> listed_in ?opts i"
    using demo_stranger_peer by (auto simp: listed_in_def split UnmarshalText_ident_text)
  with unlisted_client_refused [OF s args _ _ _ _ run]
  have "advance cfg 7 (sy_pc ?t 7) (sy_pool ?t) (sy_world ?t) (sy_lock ?t) = Some (Rejecting, sy_pool ?t, sy_world ?t, sy_lock ?t)"
    by (simp add: ident_text_nonempty put_def started_def del: advance.simps)
  with s run show ?thesis by blast
qed

end
