(* ===== verification/Duration64.thy ===== *)
theory Duration64
  imports Backoff
begin

text \<open>
  The exponential policy of \<open>cenkalti/backoff\<close> at the width of \<open>time.Duration\<close>, a signed 64-bit integer
  of nanoseconds, and the bounds under which it is the policy of \<open>Backoff\<close>. The difference of two times saturates;
  a float that does not fit is converted to a number that depends on the machine, so the conversion is a
  parameter.
\<close>

section \<open>Durations\<close>

declare of_int_sint [simp del]

type_synonym duration = "64 word"

definition max_duration :: int where "max_duration = 2 ^ 63 - 1"
definition min_duration :: int where "min_duration = - (2 ^ 63)"

definition in_range :: "int \<Rightarrow> bool" where
  "in_range d \<longleftrightarrow> min_duration \<le> d \<and> d \<le> max_duration"

lemma sint_in_range: "in_range (sint (d :: duration))"
  using sint_range_size [of d] by (simp add: in_range_def min_duration_def max_duration_def word_size)

lemma sint_of_int: "in_range d \<Longrightarrow> sint (word_of_int d :: duration) = d"
  by (simp add: in_range_def min_duration_def max_duration_def sint_sbintrunc' signed_take_bit_int_eq_self)

lemma sint_eq_0: "sint (d :: duration) = 0 \<longleftrightarrow> d = 0"
  by (metis signed_0 word_eq_iff_signed)

text \<open>\<open>Time.Sub\<close>.\<close>

definition time_Sub :: "int \<Rightarrow> int \<Rightarrow> duration" where
  "time_Sub t u = word_of_int (max min_duration (min max_duration (t - u)))"

lemma sint_time_Sub: "sint (time_Sub t u) = max min_duration (min max_duration (t - u))"
  unfolding time_Sub_def
  by (rule sint_of_int) (simp add: in_range_def min_duration_def max_duration_def)

text \<open>
  What the language promises of \<open>time.Duration(q)\<close>: the fraction is dropped when the value fits. On
  amd64 every other value becomes the smallest duration.
\<close>

definition converts :: "(rat \<Rightarrow> duration) \<Rightarrow> bool" where
  "converts conv \<longleftrightarrow> (\<forall>q. in_range (trunc q) \<longrightarrow> sint (conv q) = trunc q)"

definition convert_amd64 :: "rat \<Rightarrow> duration" where
  "convert_amd64 q = word_of_int (if in_range (trunc q) then trunc q else min_duration)"

lemma convert_amd64_converts: "converts convert_amd64"
  by (simp add: converts_def convert_amd64_def sint_of_int)


section \<open>The policy\<close>

record exp_backoff64 =
  InitialInterval64 :: duration
  RandomizationFactor64 :: rat
  Multiplier64 :: rat
  MaxInterval64 :: duration
  MaxElapsedTime64 :: duration
  currentInterval64 :: duration
  startTime64 :: int

definition Reset64 :: "int \<Rightarrow> exp_backoff64 \<Rightarrow> exp_backoff64" where
  "Reset64 now b = b\<lparr>currentInterval64 := InitialInterval64 b, startTime64 := now\<rparr>"

definition GetElapsedTime64 :: "int \<Rightarrow> exp_backoff64 \<Rightarrow> duration" where
  "GetElapsedTime64 now b = time_Sub now (startTime64 b)"

definition incrementCurrentInterval64 :: "(rat \<Rightarrow> duration) \<Rightarrow> exp_backoff64 \<Rightarrow> exp_backoff64" where
  "incrementCurrentInterval64 conv b =
     (if ge_quotient (of_int (sint (currentInterval64 b))) (of_int (sint (MaxInterval64 b))) (Multiplier64 b)
      then b\<lparr>currentInterval64 := MaxInterval64 b\<rparr>
      else b\<lparr>currentInterval64 := conv (of_int (sint (currentInterval64 b)) * Multiplier64 b)\<rparr>)"

definition getRandomValueFromInterval64 :: "(rat \<Rightarrow> duration) \<Rightarrow> rat \<Rightarrow> rat \<Rightarrow> duration \<Rightarrow> duration" where
  "getRandomValueFromInterval64 conv factor random interval =
     (let delta = factor * of_int (sint interval);
          minInterval = of_int (sint interval) - delta;
          maxInterval = of_int (sint interval) + delta
      in conv (minInterval + random * (maxInterval - minInterval + 1)))"

definition NextBackOff64 :: "(rat \<Rightarrow> duration) \<Rightarrow> int \<Rightarrow> rat \<Rightarrow> exp_backoff64 \<Rightarrow> duration \<times> exp_backoff64" where
  "NextBackOff64 conv now random b =
     (if MaxElapsedTime64 b \<noteq> 0 \<and> MaxElapsedTime64 b <s GetElapsedTime64 now b then (-1, b)
      else (getRandomValueFromInterval64 conv (RandomizationFactor64 b) random (currentInterval64 b),
            incrementCurrentInterval64 conv b))"

fun pauses64 :: "(rat \<Rightarrow> duration) \<Rightarrow> (int \<times> rat) list \<Rightarrow> exp_backoff64 \<Rightarrow> duration list" where
  "pauses64 conv [] b = []"
| "pauses64 conv ((t, r) # calls) b = (let (d, b) = NextBackOff64 conv t r b in d # pauses64 conv calls b)"


section \<open>It is the unbounded one\<close>

definition policy_of :: "exp_backoff64 \<Rightarrow> exp_backoff" where
  "policy_of b =
     \<lparr>InitialInterval = sint (InitialInterval64 b), RandomizationFactor = RandomizationFactor64 b,
      Multiplier = Multiplier64 b, MaxInterval = sint (MaxInterval64 b), MaxElapsedTime = sint (MaxElapsedTime64 b),
      currentInterval = sint (currentInterval64 b), startTime = startTime64 b\<rparr>"

lemma policy_of_simps [simp]:
  "InitialInterval (policy_of b) = sint (InitialInterval64 b)"
  "RandomizationFactor (policy_of b) = RandomizationFactor64 b" "Multiplier (policy_of b) = Multiplier64 b"
  "MaxInterval (policy_of b) = sint (MaxInterval64 b)" "MaxElapsedTime (policy_of b) = sint (MaxElapsedTime64 b)"
  "currentInterval (policy_of b) = sint (currentInterval64 b)" "startTime (policy_of b) = startTime64 b"
  by (simp_all add: policy_of_def)

lemma Reset64_policy: "policy_of (Reset64 t b) = Reset t (policy_of b)"
  by (simp add: policy_of_def Reset_def Reset64_def)

text \<open>The largest pause the policy can ask for fits, and a time too large to be measured is not a limit.\<close>

definition fits :: "exp_backoff64 \<Rightarrow> bool" where
  "fits b \<longleftrightarrow> sint (currentInterval64 b) \<le> sint (MaxInterval64 b) \<and>
     \<lfloor>(1 + RandomizationFactor64 b) * of_int (sint (MaxInterval64 b))\<rfloor> + 1 \<le> max_duration \<and>
     sint (MaxElapsedTime64 b) < max_duration"

lemmas eb_sound_policy = eb_sound_pos [of "policy_of b" for b, simplified policy_of_simps]

lemma increment64_policy:
  assumes "converts conv" and "eb_sound (policy_of b)" and "fits b"
  shows "policy_of (incrementCurrentInterval64 conv b) = incrementCurrentInterval (policy_of b)"
    and "fits (incrementCurrentInterval64 conv b)"
proof -
  let ?c = "sint (currentInterval64 b)" and ?m = "sint (MaxInterval64 b)"
  note good = eb_sound_policy [OF assms(2)]
  have "in_range (trunc (of_int ?c * Multiplier64 b)) \<and> trunc (of_int ?c * Multiplier64 b) \<le> ?m"
    if below: "\<not> ge_quotient (of_int ?c) (of_int ?m) (Multiplier64 b)"
  proof -
    have "of_int ?c * Multiplier64 b < of_int ?m"
      using below good by (simp add: ge_quotient_def not_le pos_less_divide_eq)
    moreover have nn: "0 \<le> of_int ?c * Multiplier64 b" using good by simp
    ultimately have "trunc (of_int ?c * Multiplier64 b) \<le> ?m" by (simp add: trunc_nonneg floor_le_iff)
    moreover have "0 \<le> trunc (of_int ?c * Multiplier64 b)" using nn by (simp add: trunc_nonneg)
    ultimately show ?thesis using sint_in_range [of "MaxInterval64 b"] by (simp add: in_range_def min_duration_def)
  qed
  with assms(1) have c: "sint (conv (of_int ?c * Multiplier64 b)) = trunc (of_int ?c * Multiplier64 b) \<and>
      trunc (of_int ?c * Multiplier64 b) \<le> ?m"
    if "\<not> ge_quotient (of_int ?c) (of_int ?m) (Multiplier64 b)"
    using that by (simp add: converts_def)
  then show "policy_of (incrementCurrentInterval64 conv b) = incrementCurrentInterval (policy_of b)"
    by (simp add: incrementCurrentInterval64_def incrementCurrentInterval_def policy_of_def)
  from c assms(3) show "fits (incrementCurrentInterval64 conv b)"
    by (simp add: incrementCurrentInterval64_def fits_def)
qed

lemma random64_policy:
  assumes "converts conv" and "eb_sound (policy_of b)" and "fits b" and "0 \<le> r" and "r < 1"
  shows "sint (getRandomValueFromInterval64 conv (RandomizationFactor64 b) r (currentInterval64 b)) =
    getRandomValueFromInterval (RandomizationFactor64 b) r (sint (currentInterval64 b))"
proof -
  let ?f = "RandomizationFactor64 b" and ?c = "sint (currentInterval64 b)" and ?m = "sint (MaxInterval64 b)"
  note good = eb_sound_policy [OF assms(2)]
  have range: "\<lfloor>(1 - ?f) * of_int ?c\<rfloor> \<le> getRandomValueFromInterval ?f r ?c"
    "getRandomValueFromInterval ?f r ?c \<le> \<lfloor>(1 + ?f) * of_int ?c\<rfloor> + 1"
    using getRandomValue_range [OF good(1,2,4) assms(4,5)] by simp_all
  have "0 \<le> \<lfloor>(1 - ?f) * of_int ?c\<rfloor>" using good by simp
  with range(1) have "0 \<le> getRandomValueFromInterval ?f r ?c" by linarith
  moreover have "(1 + ?f) * of_int ?c \<le> (1 + ?f) * of_int ?m"
    using assms(3) good by (intro mult_left_mono) (simp_all add: fits_def)
  then have "\<lfloor>(1 + ?f) * of_int ?c\<rfloor> \<le> \<lfloor>(1 + ?f) * of_int ?m\<rfloor>" by (rule floor_mono)
  ultimately have "in_range (getRandomValueFromInterval ?f r ?c)"
    using range(2) assms(3) by (simp add: in_range_def fits_def min_duration_def)
  with assms(1) show ?thesis
    by (simp add: converts_def getRandomValueFromInterval64_def getRandomValueFromInterval_def Let_def)
qed

lemma NextBackOff64_policy:
  assumes "converts conv" and "eb_sound (policy_of b)" and "fits b" and "0 \<le> r" and "r < 1"
    and "NextBackOff64 conv t r b = (d, b')"
  shows "NextBackOff t r (policy_of b) = (sint d, policy_of b')" and "fits b'"
proof -
  have "MaxElapsedTime64 b <s GetElapsedTime64 t b \<longleftrightarrow> sint (MaxElapsedTime64 b) < t - startTime64 b"
    using assms(3) sint_in_range [of "MaxElapsedTime64 b"]
    by (auto simp: word_sless_alt GetElapsedTime64_def sint_time_Sub fits_def in_range_def)
  moreover have "MaxElapsedTime64 b \<noteq> 0 \<longleftrightarrow> sint (MaxElapsedTime64 b) \<noteq> 0" by (simp add: sint_eq_0)
  ultimately show "NextBackOff t r (policy_of b) = (sint d, policy_of b')" "fits b'"
    using assms(6) increment64_policy [OF assms(1-3)] random64_policy [OF assms(1-5)] assms(3)
    by (auto simp: NextBackOff64_def NextBackOff_def split: if_splits)
qed


lemma pauses64_policy:
  assumes "converts conv" and "eb_sound (policy_of b)" and "fits b" and "\<forall>(t, r) \<in> set calls. 0 \<le> r \<and> r < 1"
  shows "map sint (pauses64 conv calls b) = pauses calls (policy_of b)"
  using assms(2-4)
proof (induction calls arbitrary: b)
  case (Cons call calls)
  obtain t r where call: "call = (t, r)" by (cases call)
  with Cons.prems(3) have r: "0 \<le> r" "r < 1" by auto
  obtain d b' where n: "NextBackOff64 conv t r b = (d, b')" by fastforce
  note next64 = NextBackOff64_policy [OF assms(1) Cons.prems(1,2) r n]
  from Cons.prems(1) r next64(1) have "eb_sound (policy_of b')"
    by (cases rule: NextBackOff_cases) (use Cons.prems(1) in simp_all)
  from Cons.IH [OF this next64(2)] Cons.prems(3) next64(1) show ?case by (simp add: call n)
qed simp

text \<open>
  C28. The pauses of the 64-bit policy are those of the unbounded one, and stay within the configured bounds. The policy
  is in good order (\<open>eb_sound\<close>: a randomization factor below 1, a multiplier of at least 1, and intervals that leave a
  nanosecond when the randomization is taken off), its current interval is not above the maximal one, the longest pause
  fits into a duration, and the maximal elapsed time is below the largest duration (\<open>fits\<close>). Then each call stops, or
  asks for a pause that is at least the policy's smallest one and at most its maximal interval plus the
  randomization, and one nanosecond for rounding, whatever the times, the random numbers and the machine's
  conversions are; with a maximal elapsed time of 0 no call stops.
\<close>

theorem pauses_int64:
  assumes "converts conv" and "eb_sound (policy_of b)" and "fits b" and "\<forall>(t, r) \<in> set calls. 0 \<le> r \<and> r < 1"
  shows "map sint (pauses64 conv calls b) = pauses calls (policy_of b) \<and>
    (\<forall>d \<in> set (pauses64 conv calls b). sint d = -1 \<and> MaxElapsedTime64 b \<noteq> 0 \<or>
      eb_pause (policy_of b) \<le> sint d \<and>
      sint d \<le> \<lfloor>(1 + RandomizationFactor64 b) * of_int (sint (MaxInterval64 b))\<rfloor> + 1)"
proof
  show eq: "map sint (pauses64 conv calls b) = pauses calls (policy_of b)" using assms by (rule pauses64_policy)
  have "currentInterval (policy_of b) \<le> MaxInterval (policy_of b)" using assms(3) by (simp add: fits_def)
  from pauses_bounded [OF assms(2) this assms(4)]
  show "\<forall>d \<in> set (pauses64 conv calls b). sint d = -1 \<and> MaxElapsedTime64 b \<noteq> 0 \<or>
      eb_pause (policy_of b) \<le> sint d \<and>
      sint d \<le> \<lfloor>(1 + RandomizationFactor64 b) * of_int (sint (MaxInterval64 b))\<rfloor> + 1"
    unfolding eq [symmetric] by (simp add: sint_eq_0)
qed

text \<open>
  Where the bound fails, a pause becomes a refusal to try again: on amd64 a random value that does not fit
  is negative, which the client takes for the end of the policy.
\<close>

theorem long_pause_stops:
  assumes "\<not> in_range (getRandomValueFromInterval (RandomizationFactor64 b) r (sint (currentInterval64 b)))"
    and "MaxElapsedTime64 b = 0"
  shows "sint (fst (NextBackOff64 convert_amd64 t r b)) = min_duration"
proof -
  have "in_range min_duration" by (simp add: in_range_def min_duration_def max_duration_def)
  with assms show ?thesis
    by (simp add: NextBackOff64_def getRandomValueFromInterval64_def getRandomValueFromInterval_def convert_amd64_def Let_def
        sint_of_int)
qed

text \<open>The policy of the command line client with its default values.\<close>

definition demo_policy64 :: exp_backoff64 where
  "demo_policy64 =
     \<lparr>InitialInterval64 = 5 * 10 ^ 8, RandomizationFactor64 = 1 / 2, Multiplier64 = 3 / 2, MaxInterval64 = 60 * 10 ^ 9,
      MaxElapsedTime64 = 900 * 10 ^ 9, currentInterval64 = 5 * 10 ^ 8, startTime64 = 0\<rparr>"

lemma demo_policy64_ok: "eb_sound (policy_of demo_policy64) \<and> fits demo_policy64"
  by (simp add: demo_policy64_def eb_sound_def fits_def max_duration_def)

lemma pauses_int64_witness:
  "map sint (pauses64 convert_amd64 demo_calls demo_policy64) = pauses demo_calls (policy_of demo_policy64) \<and>
   list_all (\<lambda>d. sint d = -1 \<or> 25 * 10 ^ 7 \<le> sint d \<and> sint d \<le> 90 * 10 ^ 9 + 1)
     (pauses64 convert_amd64 demo_calls demo_policy64) \<and>
   length (pauses64 convert_amd64 demo_calls demo_policy64) = 4"
proof -
  have "eb_pause (policy_of demo_policy64) = 25 * 10 ^ 7"
    "\<lfloor>(1 + RandomizationFactor64 demo_policy64) * of_int (sint (MaxInterval64 demo_policy64))\<rfloor> = 90 * 10 ^ 9"
    by (simp_all add: demo_policy64_def eb_pause_def)
  moreover have "\<forall>(t, r) \<in> set demo_calls. 0 \<le> r \<and> r < 1" by (simp add: demo_calls_def)
  moreover have "length (pauses64 convert_amd64 demo_calls demo_policy64) = 4"
    by (simp add: demo_calls_def split: prod.split)
  ultimately show ?thesis
    using pauses_int64 [OF convert_amd64_converts, of demo_policy64 demo_calls] demo_policy64_ok by (auto simp: list_all_iff)
qed

end
