(* ===== verification/Session_Path.thy ===== *)
theory Session_Path
  imports Cmd_Tunnel Server_Client Server_Http
begin

text \<open>
  The handshake between a client of the command line and the server: the client answers the server's
  request with its tunnels as JSON (\<open>client.go\<close>, \<open>handleHandshake\<close>), the server decodes them and adds them
  (\<open>server.go\<close>, \<open>handleClient\<close> and \<open>addTunnels\<close>). What the server then holds for the client are the
  tunnels of its configuration.
\<close>

section \<open>What the server reads\<close>

text \<open>
  What \<open>encoding/json\<close> promises of the two sides: the entries of an encoded map come back in some order,
  and a text that stops before the end of an object does not decode. This is so for strings of valid UTF-8;
  bytes that are not are replaced by U+FFFD, so of tunnels with such bytes nothing is said.
\<close>

definition utf8_tunnel :: "string \<times> tunnel \<Rightarrow> bool" where
  "utf8_tunnel e \<longleftrightarrow> valid_utf8 (fst e) \<and> valid_utf8 (Protocol (snd e)) \<and> valid_utf8 (tunnel_Host (snd e)) \<and>
     valid_utf8 (tunnel_Auth (snd e)) \<and> valid_utf8 (tunnel_Addr (snd e))"

definition json_law ::
  "((string \<times> tunnel) list \<Rightarrow> go_error + string) \<Rightarrow> (string \<Rightarrow> go_error + (string \<times> tunnel option) list) \<Rightarrow> bool" where
  "json_law marshal decode \<longleftrightarrow>
     (\<forall>ts b n es. marshal ts = Inr b \<longrightarrow> distinct (map fst ts) \<longrightarrow> list_all utf8_tunnel ts \<longrightarrow>
        decode (take n b) = Inr es \<longrightarrow>
        mset es = mset (map (map_prod id Some) ts))"

lemma handshake_InrD:
  assumes "handshake env i = Inr ts"
  obtains resp where "ce_Do env = Inr resp" "resp_StatusCode resp = 200" "resp_ContentLength resp \<noteq> 0"
    "ce_Decode env (take 126976 (resp_Body resp)) = Inr ts" "ts \<noteq> []"
  using assms by (auto simp: handshake_def split: option.splits sum.splits if_splits)

lemma Handshake_answerD:
  assumes "serveHTTP marshal r client = (Handshake_answer body, client')"
  shows "body = [] \<or> marshal (cc_Tunnels (c_config client)) = Inr body"
  using assms
  by (auto simp: serveHTTP_def handleHandshakeError_def handleHandshake_def Let_def split: if_splits sum.splits)

text \<open>
  The handshake hands the tunnels of the client to the server: if the server takes the answer that the
  client's handler writes, it has decoded exactly the client's tunnels, in some order. The transport
  gives an empty body the length 0.
\<close>

lemma handshake_decodes:
  assumes "serveHTTP marshal r client = (Handshake_answer body, client')"
    and "ce_Do env = Inr resp" and "resp_Body resp = body" and "body = [] \<Longrightarrow> resp_ContentLength resp = 0"
    and "json_law marshal (ce_Decode env)" and "distinct (map fst (cc_Tunnels (c_config client)))"
    and "list_all utf8_tunnel (cc_Tunnels (c_config client))" and "handshake env i = Inr ts"
  shows "mset ts = mset (map (map_prod id Some) (cc_Tunnels (c_config client)))"
  using assms(8)
proof (rule handshake_InrD)
  fix resp' assume "ce_Do env = Inr resp'" "resp_ContentLength resp' \<noteq> 0"
    "ce_Decode env (take 126976 (resp_Body resp')) = Inr ts"
  with assms(2-4) Handshake_answerD [OF assms(1)] have "marshal (cc_Tunnels (c_config client)) = Inr body"
    "ce_Decode env (take 126976 body) = Inr ts" by auto
  with assms(5-7) show ?thesis unfolding json_law_def by blast
qed

section \<open>What the server holds\<close>

text \<open>The host of an HTTP tunnel as the registry stores it, with its credential.\<close>

definition http_host :: "tunnel_config \<Rightarrow> host_auth" where
  "http_host t = \<lparr>ha_Host = ct_Host t, ha_Auth = NewAuth (ct_Auth t)\<rparr>"

definition http_tunnels :: "tunnel_map \<Rightarrow> tunnel_config list" where
  "http_tunnels m = filter (\<lambda>t. ct_Protocol t = HTTP) (map (the \<circ> snd) m)"

definition other_tunnels :: "tunnel_map \<Rightarrow> tunnel_config list" where
  "other_tunnels m = filter (\<lambda>t. ct_Protocol t \<noteq> HTTP) (map (the \<circ> snd) m)"

lemma hosts_of_tunnels:
  "tunnel_hosts (map (map_prod id Some) (tunnels m)) = map http_host (http_tunnels m)"
  "length (listening_tunnels (map (map_prod id Some) (tunnels m))) = length (other_tunnels m)"
  by (induction m) (auto simp: tunnel_hosts_def tunnels_def http_tunnels_def http_host_def listening_tunnels_def
      other_tunnels_def)

lemma mset_tunnel_hosts:
  assumes "mset ts = mset ts'"
  shows "mset (tunnel_hosts ts) = mset (tunnel_hosts ts')"
    and "length (listening_tunnels ts) = length (listening_tunnels ts')"
proof -
  have "mset (concat (map f xs)) = \<Sum>\<^sub># (image_mset (\<lambda>x. mset (f x)) (mset xs))"
    for f :: "string \<times> tunnel option \<Rightarrow> host_auth list" and xs
    by (induction xs) simp_all
  with assms show "mset (tunnel_hosts ts) = mset (tunnel_hosts ts')" by (simp add: tunnel_hosts_def)
  show "length (listening_tunnels ts) = length (listening_tunnels ts')"
    using assms unfolding listening_tunnels_def by (intro mset_eq_length) simp
qed

lemma distinct_tunnels: "distinct (map fst (tunnels m)) = distinct (map fst m)"
  by (simp add: tunnels_def comp_def case_prod_beta)

text \<open>Where a host leads after \<open>set\<close>: to the client, with the credential of its tunnel.\<close>

lemma set_item_routes:
  assumes "set_item \<lparr>Hosts = hs, Listeners = ls\<rparr> k r = (None, r')" and "h \<in> set hs"
    and "\<forall>g \<in> set hs. trimPort (ha_Host g) = trimPort (ha_Host h) \<longrightarrow> ha_Auth g = ha_Auth h"
  shows "Subscriber (ha_Host h) r' = Some (k, ha_Auth h)"
proof -
  have "trimPort (ha_Host h) \<in> host_keys hs" using assms(2) by (auto simp: host_keys_def)
  from assign_hosts_some [OF this, of k "hosts r"] assms(3) set_item_NoneD(3) [OF assms(1)]
  show ?thesis by (auto simp: Subscriber_def)
qed

lemma http_tunnel_routed:
  assumes "set_item \<lparr>Hosts = hs, Listeners = ls\<rparr> i r = (None, r')" and "mset hs = mset (map http_host (http_tunnels m))"
    and "t \<in> set (http_tunnels m)"
    and "\<forall>u \<in> set (http_tunnels m). trimPort (ct_Host u) = trimPort (ct_Host t) \<longrightarrow> u = t"
  shows "Subscriber (ct_Host t) r' = Some (i, NewAuth (ct_Auth t))"
proof -
  have set_hs: "set hs = http_host ` set (http_tunnels m)" using mset_eq_setD [OF assms(2)] by simp
  have "Subscriber (ha_Host (http_host t)) r' = Some (i, ha_Auth (http_host t))"
  proof (rule set_item_routes [OF assms(1)])
    show "http_host t \<in> set hs" using assms(3) by (simp add: set_hs)
    show "\<forall>g \<in> set hs. trimPort (ha_Host g) = trimPort (ha_Host (http_host t)) \<longrightarrow> ha_Auth g = ha_Auth (http_host t)"
      unfolding set_hs ball_simps
    proof (intro ballI impI)
      fix u assume "u \<in> set (http_tunnels m)" "trimPort (ha_Host (http_host u)) = trimPort (ha_Host (http_host t))"
      with assms(4) have "u = t" by (simp add: http_host_def)
      then show "ha_Auth (http_host u) = ha_Auth (http_host t)" by simp
    qed
  qed
  then show ?thesis by (simp add: http_host_def)
qed

lemma connected_client:
  assumes "srv_ok base held s" and "held c = []" and "cc_Tunnels (c_config client) = tunnels m"
    and "distinct (map fst m)" and "serveHTTP marshal r client = (Handshake_answer body, client')"
    and "ce_Do env = Inr resp" and "resp_Body resp = body" and "body = [] \<Longrightarrow> resp_ContentLength resp = 0"
    and "json_law marshal (ce_Decode env)" and "handleClient cfg env conn s = (Connected, p', w')"
    and "list_all utf8_tunnel (tunnels m)"
  obtains i hs ls r where
    "PeerID (ce_sha256 env) (ce_Handshake env) (ce_PeerCertificates env) = Inr i" "session_of (p', w') i = Some conn"
    "items (w_reg w') i = Some (Item \<lparr>Hosts = hs, Listeners = ls\<rparr>)" "mset hs = mset (map http_host (http_tunnels m))"
    "length ls = length (other_tunnels m)" "set_item \<lparr>Hosts = hs, Listeners = ls\<rparr> i r = (None, w_reg w')"
proof -
  obtain p w where s: "s = (p, w)" by fastforce
  note ok = assms(1) [unfolded s]
  show ?thesis
  proof (cases rule: handleClient_cases [of cfg env conn p w c])
    case (connected i ts p1 w1 w2)
    have acc: "accounted base held w1" using connected(6) [OF ok assms(2)] by (simp add: srv_ok_def)
    have ts: "mset ts = mset (map (map_prod id Some) (tunnels m))"
      using handshake_decodes [OF assms(5-9) _ _ connected(3)] assms(3,4,11) by (simp add: distinct_tunnels)
    have out: "p' = p1" "w' = w2" using connected(1) assms(10) by (simp_all add: s)
    obtain ls where ls: "items (w_reg w') i = Some (Item \<lparr>Hosts = tunnel_hosts ts, Listeners = ls\<rparr>)"
      "length ls = length (listening_tunnels ts)"
      "set_item \<lparr>Hosts = tunnel_hosts ts, Listeners = ls\<rparr> i (w_reg w1) = (None, w_reg w')"
      using addTunnels_ok(1) [OF connected(4) acc assms(2)] unfolding out by blast
    from addTunnels_ok(2) [OF connected(4) acc assms(2)] connected(5)
    have "session_of (p', w') i = Some conn" by (simp add: out)
    with that [OF connected(2) _ ls(1) _ _ ls(3)] ls(2) mset_tunnel_hosts [OF ts] show ?thesis
      by (simp add: hosts_of_tunnels)
  next
    case (late i e p1 w1)
    with assms(10) show ?thesis by (simp add: s reject_pooled_def reject_def split: prod.splits)
  qed (use assms(10) in \<open>simp_all add: s\<close>)
qed

text \<open>
  C18. A client that the server accepts gets what its configuration asks for: its item holds the host of every
  HTTP tunnel with that tunnel's credential, and one listener for each other tunnel, its connection is
  in the pool, and each host that no other tunnel of the configuration names leads to it. The strings of the
  configuration are valid UTF-8, as in JSON.
\<close>

theorem configured_tunnels_opened:
  assumes "srv_ok base held s" and "held c = []" and "cc_Tunnels (c_config client) = tunnels m"
    and "distinct (map fst m)" and "serveHTTP marshal r client = (Handshake_answer body, client')"
    and "ce_Do env = Inr resp" and "resp_Body resp = body" and "body = [] \<Longrightarrow> resp_ContentLength resp = 0"
    and "json_law marshal (ce_Decode env)" and "handleClient cfg env conn s = (Connected, p', w')"
    and "list_all utf8_tunnel (tunnels m)"
  shows "\<exists>i hs ls. PeerID (ce_sha256 env) (ce_Handshake env) (ce_PeerCertificates env) = Inr i \<and>
    session_of (p', w') i = Some conn \<and> items (w_reg w') i = Some (Item \<lparr>Hosts = hs, Listeners = ls\<rparr>) \<and>
    mset hs = mset (map http_host (http_tunnels m)) \<and> length ls = length (other_tunnels m) \<and>
    (\<forall>t \<in> set (http_tunnels m).
       (\<forall>u \<in> set (http_tunnels m). trimPort (ct_Host u) = trimPort (ct_Host t) \<longrightarrow> u = t) \<longrightarrow>
       Subscriber (ct_Host t) (w_reg w') = Some (i, NewAuth (ct_Auth t)))"
proof (rule connected_client [OF assms])
  fix i hs ls r0 assume i: "PeerID (ce_sha256 env) (ce_Handshake env) (ce_PeerCertificates env) = Inr i"
    "session_of (p', w') i = Some conn" "items (w_reg w') i = Some (Item \<lparr>Hosts = hs, Listeners = ls\<rparr>)"
    and hs: "mset hs = mset (map http_host (http_tunnels m))" and ls: "length ls = length (other_tunnels m)"
    and stored: "set_item \<lparr>Hosts = hs, Listeners = ls\<rparr> i r0 = (None, w_reg w')"
  from i hs ls http_tunnel_routed [OF stored hs] show ?thesis by blast
qed


text \<open>An entry of the configuration is the only tunnel for its host when no other entry names the host.\<close>

lemma http_tunnels_unique:
  assumes "distinct (map fst m)" and "\<forall>e \<in> set m. \<exists>t. snd e = Some t \<and> valid_tunnel t" and "map_of m name = Some (Some t)"
    and "\<forall>e \<in> set m. fst e \<noteq> name \<and> ct_Protocol (the (snd e)) = HTTP \<longrightarrow>
      trimPort (ct_Host (the (snd e))) \<noteq> trimPort (ct_Host t)"
    and "u \<in> set (http_tunnels m)" and "trimPort (ct_Host u) = trimPort (ct_Host t)"
  shows "u = t"
proof -
  obtain e where e: "e \<in> set m" "u = the (snd e)" "ct_Protocol u = HTTP" using assms(5) by (auto simp: http_tunnels_def)
  with assms(4,6) have "fst e = name" by blast
  with assms(1,3) e(1) have "snd e = Some t" by (metis map_of_is_SomeI option.inject prod.collapse)
  with e(2) show ?thesis by simp
qed

lemma route_request_credential:
  assumes "Subscriber (req_Host q) reg = Some (i, auth)"
    and "case auth of None \<Rightarrow> True | Some a \<Rightarrow> BasicAuth (req_Header q) = (User a, Password a, True)"
  shows "\<exists>outr msg. route_request reg q = Inr (i, outr, msg)"
  using assms by (auto simp: route_request_def Let_def split: option.splits prod.split)


section \<open>Examples\<close>

definition demo_web_tunnel :: tunnel_config where
  "demo_web_tunnel = \<lparr>ct_Protocol = ''http'', ct_Addr = ''http://localhost:8080'', ct_Auth = [], ct_Host = ''a.b'',
     ct_RemoteAddr = []\<rparr>"

definition demo_backend :: url where
  "demo_backend = \<lparr>u_Scheme = ''http'', u_Opaque = [], u_Host = ''localhost:8080'', u_Path = [], u_RawQuery = []\<rparr>"

lemma demo_backend: "url_Parse ''http://localhost:8080'' = Inr demo_backend"
  by code_simp

lemma demo_web_tunnel_valid: "valid_tunnel demo_web_tunnel"
  using demo_backend by (simp add: valid_tunnel_def demo_web_tunnel_def backend_url_def demo_backend_def)

definition demo_web_client :: client where
  "demo_web_client = demo_client\<lparr>c_config := demo_client_config\<lparr>cc_Tunnels := tunnels [(''web'', Some demo_web_tunnel)]\<rparr>\<rparr>"

definition demo_marshal :: "(string \<times> tunnel) list \<Rightarrow> go_error + string" where
  "demo_marshal ts = (if ts = [(''web'', demo_http)] then Inr ''{}'' else Inl (Extern []))"

lemma demo_web_tunnels: "tunnels [(''web'', Some demo_web_tunnel)] = [(''web'', demo_http)]"
  by (simp add: tunnels_def demo_web_tunnel_def demo_http_def protocol_names)

lemma demo_web_utf8: "list_all utf8_tunnel (tunnels [(''web'', Some demo_web_tunnel)])"
  by (simp add: demo_web_tunnels utf8_tunnel_def demo_http_def protocol_names rune_bytes_def byte_in_def char_code_def)

lemma demo_json: "json_law demo_marshal (ce_Decode (demo_env [(''web'', Some demo_http)]))"
  by (auto simp: json_law_def demo_marshal_def demo_env_def split: if_splits)

lemma demo_web_answer:
  "serveHTTP demo_marshal (empty_request\<lparr>req_Method := ''CONNECT''\<rparr>) demo_web_client =
     (Handshake_answer ''{}'', demo_web_client)"
  by (simp add: serveHTTP_def handleHandshake_def demo_web_client_def demo_client_def demo_web_tunnels demo_marshal_def
      empty_request_def header_get_def)

lemma demo_web_response:
  "\<exists>resp. ce_Do (demo_env ts) = Inr resp \<and> resp_Body resp = ''{}''"
  by (simp add: demo_env_def)

lemma configured_tunnels_opened_witness:
  "\<exists>p w i. handleClient (demo_cfg True) (demo_env [(''web'', Some demo_http)]) 7 demo_server = (Connected, p, w) \<and>
     Subscriber ''a.b'' (w_reg w) = Some (i, None)"
proof -
  obtain p w where h: "handleClient (demo_cfg True) (demo_env [(''web'', Some demo_http)]) 7 demo_server = (Connected, p, w)"
    using demo_connected by (metis prod.collapse)
  obtain resp where resp: "ce_Do (demo_env [(''web'', Some demo_http)]) = Inr resp" "resp_Body resp = ''{}''"
    using demo_web_response by blast
  have ts: "cc_Tunnels (c_config demo_web_client) = tunnels [(''web'', Some demo_web_tunnel)]"
    by (simp add: demo_web_client_def)
  have "http_tunnels [(''web'', Some demo_web_tunnel)] = [demo_web_tunnel]" "NewAuth (ct_Auth demo_web_tunnel) = None"
    "ct_Host demo_web_tunnel = ''a.b''"
    by (simp_all add: http_tunnels_def demo_web_tunnel_def protocol_names NewAuth_def)
  with configured_tunnels_opened [OF demo_ok no_batch_apply ts _ demo_web_answer resp _ demo_json h] h demo_web_utf8
  show ?thesis by auto
qed

end
