(* ===== verification/Vhost_Mux.thy ===== *)
theory Vhost_Mux
  imports Server_Core
begin

text \<open>
  The TLS muxer behind the SNI address (\<open>go-vhost/mux.go\<close> and the loop over its errors in \<open>NewServer\<close>):
  how a connection finds the listener of a virtual host, and the accept loop. Binding and closing of
  names are \<open>vhost_Listen\<close> and \<open>close_listener\<close> of \<open>Server_Core\<close>; reading the name out of the TLS
  greeting is a parameter.
\<close>

section \<open>Looking up a name\<close>

text \<open>
  \<open>get\<close> under the read lock: the name itself, then the name with its first labels replaced by one
  star, the fewest first; the last label is never replaced.
\<close>

fun wildcard_get :: "(string \<rightharpoonup> 'l) \<Rightarrow> string list \<Rightarrow> 'l option" where
  "wildcard_get m (p # q # parts) =
     (case m (join ''.'' (''*'' # q # parts)) of
        Some l \<Rightarrow> Some l
      | None \<Rightarrow> wildcard_get m (q # parts))"
| "wildcard_get m _ = None"

definition mux_get :: "(string \<rightharpoonup> 'l) \<Rightarrow> string \<Rightarrow> 'l option" where
  "mux_get m name =
     (case m name of
        Some l \<Rightarrow> Some l
      | None \<Rightarrow> wildcard_get m (split_byte CHR ''.'' name))"


section \<open>Handling a connection\<close>

text \<open>
  What \<open>handle\<close> sees: the answers of \<open>SetDeadline\<close> before and after, and of the function that extracts
  the host name. All errors go to the loop in \<open>NewServer\<close>, which closes the connection. Sending on
  the channel of a listener that was closed in between panics; \<open>handle\<close> recovers and reports that as
  well.
\<close>

record mux_env =
  me_SetDeadline :: "go_error option"
  me_vhost :: "go_error + string"
  me_ClearDeadline :: "go_error option"

datatype mux_error =
    Deadline_failed go_error
  | Bad_vhost go_error
  | Not_found string
  | Clear_failed go_error
  | Recovered

datatype muxed = Mux_closed mux_error | Mux_delivered nat

text \<open>\<open>opened\<close> are the listeners that are open when the connection is sent.\<close>

definition mux_handle :: "mux_env \<Rightarrow> (string \<rightharpoonup> nat) \<Rightarrow> nat set \<Rightarrow> muxed" where
  "mux_handle env m opened =
     (case me_SetDeadline env of
        Some err \<Rightarrow> Mux_closed (Deadline_failed err)
      | None \<Rightarrow>
          (case me_vhost env of
             Inl err \<Rightarrow> Mux_closed (Bad_vhost err)
           | Inr name \<Rightarrow>
               let host = map lower_byte name in
               (case mux_get m host of
                  None \<Rightarrow> Mux_closed (Not_found host)
                | Some l \<Rightarrow>
                    (case me_ClearDeadline env of
                       Some err \<Rightarrow> Mux_closed (Clear_failed err)
                     | None \<Rightarrow> if l \<in> opened then Mux_delivered l else Mux_closed Recovered))))"

text \<open>
  \<open>run\<close>: the connections handed to \<open>handle\<close> and whether the loop has returned. An error comes with
  the answer of its \<open>Temporary\<close> method, if it is a \<open>net.Error\<close>; \<open>isClosed\<close> takes a temporary error for
  the end of the listener.
\<close>

definition isClosed :: "go_error \<times> bool option \<Rightarrow> bool" where
  "isClosed err = (case snd err of Some temporary \<Rightarrow> temporary | None \<Rightarrow> False)"

fun mux_run :: "(go_error \<times> bool option + nat) list \<Rightarrow> nat list \<times> bool" where
  "mux_run [] = ([], False)"
| "mux_run (Inl err # rs) = (if isClosed err then ([], True) else mux_run rs)"
| "mux_run (Inr conn # rs) = (let (cs, returned) = mux_run rs in (conn # cs, returned))"


section \<open>Which listener gets a connection\<close>

text \<open>The names that are tried, from the most specific one.\<close>

definition vhost_candidates :: "string \<Rightarrow> string list" where
  "vhost_candidates name =
     (let parts = split_byte CHR ''.'' name in
      name # map (\<lambda>i. join ''.'' (''*'' # drop (Suc i) parts)) [0 ..< length parts - 1])"

definition first_bound :: "(string \<rightharpoonup> 'l) \<Rightarrow> string list \<Rightarrow> 'l option" where
  "first_bound m names = (case List.find (\<lambda>n. m n \<noteq> None) names of None \<Rightarrow> None | Some n \<Rightarrow> m n)"

lemma first_bound_simps [simp]:
  "first_bound m [] = None"
  "first_bound m (n # ns) = (case m n of Some l \<Rightarrow> Some l | None \<Rightarrow> first_bound m ns)"
  by (simp_all add: first_bound_def split: option.split)

lemma wildcard_get_candidates:
  "wildcard_get m parts = first_bound m (map (\<lambda>i. join ''.'' (''*'' # drop (Suc i) parts)) [0 ..< length parts - 1])"
proof (induction m parts rule: wildcard_get.induct)
  case (1 m p q parts)
  have "[0 ..< length (p # q # parts) - 1] = 0 # map Suc [0 ..< length (q # parts) - 1]"
    by (simp add: map_Suc_upt upt_conv_Cons del: upt_Suc)
  with 1 show ?case by (simp add: comp_def del: upt_Suc split: option.split)
qed simp_all

text \<open>
  C31. The muxer gives a connection to the most specific binding of its name: the name itself, or else the
  wildcard that keeps most of its labels.
\<close>

theorem mux_get_most_specific: "mux_get m name = first_bound m (vhost_candidates name)"
  by (simp add: mux_get_def vhost_candidates_def Let_def wildcard_get_candidates split: option.split)

text \<open>A name that is bound keeps its listener whatever else gets bound, also by wildcards.\<close>

lemma mux_get_bound: "m name = Some l \<Longrightarrow> mux_get m name = Some l"
  by (simp add: mux_get_def)

lemma wildcard_get_bound: "wildcard_get m parts = Some l \<Longrightarrow> \<exists>n. m n = Some l"
  by (induction m parts rule: wildcard_get.induct) (auto split: option.splits)

lemma mux_get_some: "mux_get m name = Some l \<Longrightarrow> \<exists>n. m n = Some l"
  by (auto simp: mux_get_def split: option.splits dest: wildcard_get_bound)

text \<open>
  A temporary error of \<open>Accept\<close>, such as running out of file descriptors, ends the muxer for good:
  no connection after it is ever handled. The error of a listener that was closed does not end it.
\<close>

theorem mux_ends_on_temporary_error:
  "mux_run (pre @ Inl (err, Some True) # rs) = (fst (mux_run pre), True) \<and>
   mux_run (Inl (err, Some False) # rs) = mux_run rs"
  by (induction pre rule: mux_run.induct) (auto simp: isClosed_def split: prod.split)

end
