(* ===== verification/Sni_Path.thy ===== *)
theory Sni_Path
  imports Vhost_Mux Cmd_Tunneld Server_Conn
begin

text \<open>
  The path of a public TLS connection for an SNI tunnel: the client's tunnel binds its host at the
  muxer of the server, the muxer hands the connection to the tunnel's listener, the accept loop
  announces the name the connection asked for, and the client's proxy looks that name up. At the end, the
  names and addresses that it does not find.
\<close>

section \<open>Binding\<close>

lemma plain_vhost_name: "plain host \<Longrightarrow> vhost_name host = map lower_byte host"
  by (simp add: vhost_name_def split_host_port_no_colon plain_def)

lemma open_sni_tunnel:
  assumes "open_tunnel cenv name tun it w = (None, it', w')" and "Protocol tun = SNI"
  shows "\<exists>m l. w_vhosts w' = Some m \<and> last (Listeners it') = l \<and> m (vhost_name (tunnel_Host tun)) = Some (handle l) \<and>
    handle l \<in> w_listeners w' \<and> (\<exists>m0. w_vhosts w = Some m0 \<and> m = m0(vhost_name (tunnel_Host tun) \<mapsto> handle l))"
  using assms
  by (auto simp: open_tunnel_def protocol_names vhost_Listen_def Let_def add_listener_def split: option.splits if_splits prod.splits)

lemma tunnels_entry:
  "map_of m name = Some (Some t) \<Longrightarrow>
   map_of (tunnels m) name = Some \<lparr>Protocol = ct_Protocol t, tunnel_Host = ct_Host t,
     tunnel_Auth = ct_Auth t, tunnel_Addr = ct_RemoteAddr t\<rparr>"
  by (induction m) (auto simp: tunnels_def)

lemma mux_handle_delivers:
  assumes "me_SetDeadline env = None" and "me_vhost env = Inr name" and "me_ClearDeadline env = None"
    and "mux_get m (map lower_byte name) = Some l" and "l \<in> opened"
  shows "mux_handle env m opened = Mux_delivered l"
  using assms by (simp add: mux_handle_def Let_def)


section \<open>From the TLS greeting to the local service\<close>

text \<open>
  C12. A public TLS connection for the host of a configured SNI tunnel ends at the tunnel's local address:
  once the server has opened the tunnel, the muxer hands the connection to the tunnel's listener, whatever
  other names and wildcards are bound, and the control message of the connection makes the client's
  proxy dial the configured address.
\<close>

theorem sni_connection_reaches_service:
  assumes "\<forall>e \<in> set m. \<exists>t. snd e = Some t \<and> valid_tunnel t" and "distinct (map fst m)"
    and "map_of m name = Some (Some t)" and "ct_Protocol t = SNI" and "plain (ct_Host t)"
    and "\<forall>e \<in> set m. fst e \<noteq> name \<longrightarrow> tcp_key (the (snd e)) \<noteq> Some (ct_Host t)"
    and "map_of (tunnels m) name = Some tun" and "open_tunnel cenv name tun it w = (None, it', w')"
    and "me_SetDeadline env = None" and "me_vhost env = Inr (ct_Host t)" and "me_ClearDeadline env = None"
    and "in_vhost conn = Some (ct_Host t)"
  shows "\<exists>vhosts hp tp. w_vhosts w' = Some vhosts \<and>
    mux_handle env vhosts (w_listeners w') = Mux_delivered (handle (last (Listeners it'))) \<and>
    proxy m = Inr (hp, tp) \<and>
    localAddrFor tp (ForwardedHost (listen_message ''tcp'' address conn)) = ct_Addr t"
proof -
  have tun: "Protocol tun = SNI" "tunnel_Host tun = ct_Host t"
    using tunnels_entry [OF assms(3)] assms(4,7) by auto
  obtain vhosts where v: "w_vhosts w' = Some vhosts" "vhosts (map lower_byte (ct_Host t)) = Some (handle (last (Listeners it')))"
    "handle (last (Listeners it')) \<in> w_listeners w'"
    using open_sni_tunnel [OF assms(8) tun(1)] assms(5) by (auto simp: tun(2) plain_vhost_name)
  have "mux_handle env vhosts (w_listeners w') = Mux_delivered (handle (last (Listeners it')))"
    using mux_get_bound [of vhosts, OF v(2)] v(3) by (rule mux_handle_delivers [OF assms(9-11)])
  moreover have "http_key t = None" "tcp_key t = Some (ct_Host t)"
    using assms(4) by (simp_all add: http_key_def tcp_key_def protocol_names)
  then obtain hp tp where "proxy m = Inr (hp, tp)" "localAddrFor tp (ct_Host t) = ct_Addr t"
    using routes_built [OF assms(1-3)] assms(4,6) by auto
  ultimately show ?thesis using v(1) assms(12) by (auto simp: listen_message_def)
qed


section \<open>Wildcard tunnels\<close>

lemma mux_get_wildcard:
  assumes "CHR ''.'' \<notin> set sub" and "m (sub @ ''.'' @ d) = None" and "m (''*.'' @ d) = Some l"
  shows "mux_get m (sub @ ''.'' @ d) = Some l"
proof -
  obtain p ps where d: "split_byte CHR ''.'' d = p # ps" by (cases "split_byte CHR ''.'' d") simp_all
  have "split_byte CHR ''.'' (sub @ ''.'' @ d) = sub # p # ps"
    using split_byte_append [of "CHR ''.''" sub d] assms(1) d by (simp add: split_byte_one)
  moreover have "join ''.'' (p # ps) = d" using join_split_byte [of "CHR ''.''" d] d by simp
  then have "join ''.'' (''*'' # p # ps) = ''*.'' @ d" by simp
  ultimately show ?thesis using assms(2,3) by (simp add: mux_get_def)
qed

lemma localAddrFor_unknown:
  assumes "proxy m = Inr (hp, tp)" and "\<forall>e \<in> set m. snd e \<noteq> None" and "plain host"
    and "\<forall>e \<in> set m. tcp_key (the (snd e)) \<notin> {Some host, Some [], Some ''0.0.0.0:''}"
  shows "localAddrFor tp host = []"
proof -
  obtain hs ts where fill: "proxy_fill m ([], []) = Inr (hs, ts)" and tp: "tp = NewMultiTCPProxy ts"
    using assms(1) by (auto simp: proxy_def dest: map_sum_InrD)
  have "map_of ts k = None" if "k \<in> {host, [], ''0.0.0.0:''}" for k
    using proxy_fill_other [OF fill assms(2)] assms(4) that by auto
  then have none: "addr_at ts host = []" "addr_at ts [] = []" "addr_at ts ''0.0.0.0:'' = []"
    by (simp_all add: addr_at_def)
  have "host_part host = []" "port_part host = []"
    using assms(3) by (simp_all add: host_part_def port_part_def split_host_port_no_colon plain_def)
  with none show ?thesis by (simp add: tp localAddrFor_def NewMultiTCPProxy_def Let_def)
qed

text \<open>
  C30. A wildcard tunnel does not work, although every part accepts it: the loader takes the host
  \<open>*.domain\<close>, the server binds it, and the muxer hands connections for its subdomains to the tunnel;
  but they are announced under the name they asked for, which the client's proxy does not know, so that
  it drops them.
\<close>

theorem wildcard_sni_dropped:
  assumes "\<forall>e \<in> set m. \<exists>t. snd e = Some t \<and> valid_tunnel t"
    and "map_of m name = Some (Some t)" and "ct_Protocol t = SNI" and "ct_Host t = ''*.'' @ domain"
    and "plain domain" and "map lower_byte domain = domain" and "plain sub" and "map lower_byte sub = sub"
    and "CHR ''.'' \<notin> set sub" and "sub \<noteq> ''*''"
    and "map_of (tunnels m) name = Some tun" and "open_tunnel cenv name tun it w = (None, it', w')"
    and "w_vhosts w = Some vhosts0" and "vhosts0 (sub @ ''.'' @ domain) = None"
    and "me_SetDeadline env = None" and "me_vhost env = Inr (sub @ ''.'' @ domain)" and "me_ClearDeadline env = None"
    and "proxy m = Inr (hp, tp)" and "in_vhost conn = Some (sub @ ''.'' @ domain)"
    and "\<forall>e \<in> set m. tcp_key (the (snd e)) \<notin> {Some (sub @ ''.'' @ domain), Some [], Some ''0.0.0.0:''}"
  shows "\<exists>vhosts. w_vhosts w' = Some vhosts \<and>
    mux_handle env vhosts (w_listeners w') = Mux_delivered (handle (last (Listeners it'))) \<and>
    TCPProxy_Proxy tp logger dialer r (listen_message ''tcp'' address conn) = Tcp_dropped"
proof -
  let ?name = "sub @ ''.'' @ domain"
  have tun: "Protocol tun = SNI" "tunnel_Host tun = ''*.'' @ domain"
    using tunnels_entry [OF assms(2)] assms(3,4,11) by auto
  have "plain (''*.'' @ domain)" "map lower_byte (''*.'' @ domain) = ''*.'' @ domain"
    using assms(5,6) by (simp_all add: plain_def lower_byte_def char_code_def)
  then have "vhost_name (tunnel_Host tun) = ''*.'' @ domain" by (simp only: tun plain_vhost_name)
  then obtain vhosts where v: "w_vhosts w' = Some vhosts" "vhosts (''*.'' @ domain) = Some (handle (last (Listeners it')))"
    "handle (last (Listeners it')) \<in> w_listeners w'" "\<forall>n. n \<noteq> ''*.'' @ domain \<longrightarrow> vhosts n = vhosts0 n"
    using open_sni_tunnel [OF assms(12) tun(1)] assms(13) by auto
  have "?name \<noteq> ''*.'' @ domain" using assms(10) by auto
  then have "vhosts ?name = None" using v(4) assms(14) by auto
  then have "mux_get vhosts (map lower_byte ?name) = Some (handle (last (Listeners it')))"
    using mux_get_wildcard [of sub vhosts domain, OF assms(9) _ v(2)] assms(6,8) by (simp add: lower_byte_def char_code_def)
  from mux_handle_delivers [OF assms(15-17) this v(3)]
  have "mux_handle env vhosts (w_listeners w') = Mux_delivered (handle (last (Listeners it')))" .
  moreover have "plain ?name" using assms(5,7) by (simp add: plain_def)
  then have "localAddrFor tp ?name = []"
    using assms(1,20) by (intro localAddrFor_unknown [OF assms(18)]) fastforce+
  then have "TCPProxy_Proxy tp logger dialer r (listen_message ''tcp'' address conn) = Tcp_dropped"
    using assms(19) by (simp add: TCPProxy_Proxy_def listen_message_def)
  ultimately show ?thesis using v(1) by blast
qed


section \<open>Addresses that the client does not know\<close>




section \<open>Examples\<close>

definition demo_mux_world :: world where
  "demo_mux_world = (snd demo_server)\<lparr>w_vhosts := Some (\<lambda>_. None)\<rparr>"

definition demo_greeting :: "string \<Rightarrow> mux_env" where
  "demo_greeting name = \<lparr>me_SetDeadline = None, me_vhost = Inr name, me_ClearDeadline = None\<rparr>"

definition demo_tls_conn :: "string \<Rightarrow> incoming" where
  "demo_tls_conn name = \<lparr>in_conn = 9, in_vhost = Some name, in_keepAlive = None\<rparr>"

definition empty_item :: "listener registry_item" where
  "empty_item = \<lparr>Hosts = [], Listeners = []\<rparr>"

lemma demo_sni_opened:
  assumes "plain host"
  shows "\<exists>it' w'. open_tunnel (demo_env []) name \<lparr>Protocol = SNI, tunnel_Host = host, tunnel_Auth = [], tunnel_Addr = []\<rparr>
    empty_item demo_mux_world = (None, it', w')"
  by (simp add: open_tunnel_def protocol_names vhost_Listen_def demo_mux_world_def Let_def)

lemma sni_connection_reaches_service_witness:
  "\<exists>hp tp. proxy [(''tls'', Some demo_tls)] = Inr (hp, tp) \<and>
     localAddrFor tp (ForwardedHost (listen_message ''tcp'' ''[::]:443'' (demo_tls_conn ''a.b''))) = ''127.0.0.1:443''"
proof -
  let ?tun = "\<lparr>Protocol = SNI, tunnel_Host = ''a.b'', tunnel_Auth = [], tunnel_Addr = []\<rparr>"
  have p: "plain ''a.b''" by (simp add: plain_def)
  obtain it' w' where o: "open_tunnel (demo_env []) ''tls'' ?tun empty_item demo_mux_world = (None, it', w')"
    using demo_sni_opened [OF p] by blast
  show ?thesis
    using sni_connection_reaches_service [OF _ _ _ _ _ _ _ o, of "[(''tls'', Some demo_tls)]" demo_tls "demo_greeting ''a.b''"
        "demo_tls_conn ''a.b''" "''[::]:443''"] demo_valid(2) p
    by (auto simp: demo_tls_def demo_greeting_def demo_tls_conn_def protocol_names tunnels_def)
qed

definition demo_wild :: tunnel_config where
  "demo_wild = demo_tls\<lparr>ct_Host := ''*.a.b''\<rparr>"

lemma demo_wild_valid: "valid_tunnel demo_wild"
  using demo_valid(2) by (simp add: valid_tunnel_def demo_wild_def demo_tls_def)

lemma wildcard_sni_dropped_witness:
  "\<exists>hp tp. proxy [(''tls'', Some demo_wild)] = Inr (hp, tp) \<and>
     TCPProxy_Proxy tp NewStdLogger (\<lambda>target. Inr ([], None)) ([], None)
       (listen_message ''tcp'' ''[::]:443'' (demo_tls_conn ''c.a.b'')) = Tcp_dropped"
proof -
  let ?tun = "\<lparr>Protocol = SNI, tunnel_Host = ''*.a.b'', tunnel_Auth = [], tunnel_Addr = []\<rparr>"
  let ?m = "[(''tls'', Some demo_wild)]"
  have p: "plain ''*.a.b''" "plain ''a.b''" "plain ''c''" by (simp_all add: plain_def)
  have low: "map lower_byte ''a.b'' = ''a.b''" "map lower_byte ''c'' = ''c''"
    by (simp_all add: lower_byte_def char_code_def)
  obtain it' w' where o: "open_tunnel (demo_env []) ''tls'' ?tun empty_item demo_mux_world = (None, it', w')"
    using demo_sni_opened [OF p(1)] by blast
  have valid: "\<forall>e \<in> set ?m. \<exists>t. snd e = Some t \<and> valid_tunnel t" using demo_wild_valid by simp
  obtain hp tp where px: "proxy ?m = Inr (hp, tp)"
    using routes_built [OF valid, of "''tls''" demo_wild] by auto
  have "TCPProxy_Proxy tp NewStdLogger (\<lambda>target. Inr ([], None)) ([], None)
      (listen_message ''tcp'' ''[::]:443'' (demo_tls_conn ''c.a.b'')) = Tcp_dropped"
    using wildcard_sni_dropped [OF valid _ _ _ p(2) low(1) p(3) low(2) _ _ _ o _ _ _ _ _ px, of demo_wild "\<lambda>_. None"
        "demo_greeting ''c.a.b''" "demo_tls_conn ''c.a.b''" NewStdLogger "\<lambda>target. Inr ([], None)" "([], None)" "''[::]:443''"]
    by (auto simp: demo_wild_def demo_tls_def demo_greeting_def demo_tls_conn_def protocol_names tunnels_def
        demo_mux_world_def tcp_key_def)
  with px show ?thesis by blast
qed




end
