(* ===== verification/Keep_Alive.thy ===== *)
theory Keep_Alive
  imports Backoff
begin

text \<open>
  TCP keepalive of the tunnel's connections: \<open>keepalive.go\<close> with the package \<open>tcpkeepalive\<close> it calls, and
  \<open>keepalive_windows.go\<close>. The options of a socket are the state; what the system calls answer is a
  parameter. Durations are nanoseconds.
\<close>

section \<open>Sockets\<close>

text \<open>A connection is a TCP connection or has another dynamic type, known by its name.\<close>

datatype net_conn = TCPConn | Other_conn string

record sock_opts =
  so_KeepAlive :: bool
  so_Idle :: int
  so_Count :: int
  so_Interval :: int
  so_Nonblock :: bool

record sock_env =
  sk_SetKeepAlive :: "go_error option"
  sk_File :: "go_error option"
  sk_setIdle :: "int \<Rightarrow> go_error option"
  sk_setCount :: "int \<Rightarrow> go_error option"
  sk_setInterval :: "int \<Rightarrow> go_error option"
  sk_setNonblock :: "go_error option"

text \<open>A call that sets an option when it answers no error.\<close>

definition sock_call :: "go_error option \<Rightarrow> (sock_opts \<Rightarrow> sock_opts) \<Rightarrow> sock_opts \<Rightarrow> go_error option \<times> sock_opts" where
  "sock_call res change s = (case res of Some err \<Rightarrow> (Some err, s) | None \<Rightarrow> (None, change s))"

text \<open>Calls one after the other, up to the first error.\<close>

fun sock_calls ::
  "(go_error option \<times> (sock_opts \<Rightarrow> sock_opts)) list \<Rightarrow> sock_opts \<Rightarrow> go_error option \<times> sock_opts" where
  "sock_calls [] s = (None, s)"
| "sock_calls ((res, change) # calls) s =
     (case sock_call res change s of
        (Some err, s) \<Rightarrow> (Some err, s)
      | (None, s) \<Rightarrow> sock_calls calls s)"

text \<open>Whole seconds, rounded up.\<close>

definition secs :: "int \<Rightarrow> int" where
  "secs d = trunc (of_int (d + (second - 1)) / of_int second)"

definition SetKeepAlive ::
  "sock_env \<Rightarrow> net_conn \<Rightarrow> int \<Rightarrow> int \<Rightarrow> int \<Rightarrow> sock_opts \<Rightarrow> go_error option \<times> sock_opts" where
  "SetKeepAlive env c idleTime count interval s =
     (case c of
        Other_conn T \<Rightarrow> (Some (Errorf (''Bad connection type: '' @ T)), s)
      | TCPConn \<Rightarrow>
          sock_calls
            [(sk_SetKeepAlive env, \<lambda>s. s\<lparr>so_KeepAlive := True\<rparr>),
             (sk_File env, \<lambda>s. s),
             (sk_setIdle env (secs idleTime), \<lambda>s. s\<lparr>so_Idle := secs idleTime\<rparr>),
             (sk_setCount env count, \<lambda>s. s\<lparr>so_Count := count\<rparr>),
             (sk_setInterval env (secs interval), \<lambda>s. s\<lparr>so_Interval := secs interval\<rparr>),
             (sk_setNonblock env, \<lambda>s. s\<lparr>so_Nonblock := True\<rparr>)] s)"

definition DefaultKeepAliveIdleTime :: int where "DefaultKeepAliveIdleTime = 15 * 60 * second"
definition DefaultKeepAliveCount :: int where "DefaultKeepAliveCount = 8"
definition DefaultKeepAliveInterval :: int where "DefaultKeepAliveInterval = 5 * second"

definition keepAlive :: "sock_env \<Rightarrow> net_conn \<Rightarrow> sock_opts \<Rightarrow> go_error option \<times> sock_opts" where
  "keepAlive env conn =
     SetKeepAlive env conn DefaultKeepAliveIdleTime DefaultKeepAliveCount DefaultKeepAliveInterval"

text \<open>The variant for Windows, which prints the type of its own variable.\<close>

definition keepAlive_windows :: "sock_env \<Rightarrow> net_conn \<Rightarrow> sock_opts \<Rightarrow> go_error option \<times> sock_opts" where
  "keepAlive_windows env conn s =
     (case conn of
        Other_conn T \<Rightarrow> (Some (Errorf ''Bad connection type: *net.TCPConn''), s)
      | TCPConn \<Rightarrow> sock_call (sk_SetKeepAlive env) (\<lambda>s. s\<lparr>so_KeepAlive := True\<rparr>) s)"


section \<open>Properties\<close>

lemma secs_ceiling:
  assumes "0 \<le> d"
  shows "secs d = \<lceil>of_int d / (of_int second :: rat)\<rceil>"
proof -
  have "(0 :: rat) \<le> of_int (d + (second - 1)) / of_int second"
    using assms by (simp add: second_def)
  then have "secs d = (d + (second - 1)) div second"
    by (simp add: secs_def trunc_def floor_divide_of_int_eq del: of_int_add of_int_diff)
  also have "\<dots> = - ((- d) div second)" by (simp add: second_def)
  also have "\<dots> = \<lceil>of_int d / (of_int second :: rat)\<rceil>"
    using floor_divide_of_int_eq [of "- d" second, where 'a = rat] by (simp add: ceiling_def)
  finally show ?thesis .
qed

lemma sock_calls_Cons [simp]:
  "sock_calls ((Some err, change) # calls) s = (Some err, s)"
  "sock_calls ((None, change) # calls) s = sock_calls calls (change s)"
  by (simp_all add: sock_call_def)

lemma default_secs [simp]:
  "secs DefaultKeepAliveIdleTime = 900" "secs DefaultKeepAliveInterval = 5"
  by (simp_all add: DefaultKeepAliveIdleTime_def DefaultKeepAliveInterval_def secs_def second_def trunc_def floor_eq_iff)

text \<open>
  When \<open>keepAlive\<close> (the variant for other systems than Windows) succeeds, the connection is a TCP connection with all
  four options set: on, 900 seconds of silence before the first probe, 8 probes, 5 seconds apart, and the
  file in non-blocking mode. On another kind of connection it fails and nothing has changed.
\<close>

theorem keepAlive_outcomes:
  "(case keepAlive env conn s of
      (None, s') \<Rightarrow>
        conn = TCPConn \<and>
        s' = s\<lparr>so_KeepAlive := True, so_Idle := 900, so_Count := 8, so_Interval := 5, so_Nonblock := True\<rparr>
    | (Some err, s') \<Rightarrow> conn = TCPConn \<or> err = Errorf (''Bad connection type: '' @ (case conn of Other_conn T \<Rightarrow> T)) \<and> s' = s)"
proof (cases conn)
  case (Other_conn T)
  then show ?thesis by (simp add: keepAlive_def SetKeepAlive_def)
next
  case TCPConn
  then show ?thesis
    by (simp add: keepAlive_def SetKeepAlive_def DefaultKeepAliveCount_def sock_call_def split: option.split)
qed

end
