(* ===== verification/Documented.thy ===== *)
theory Documented
  imports Cmd_Tunneld
begin

text \<open>
  The examples in the usage texts of the two commands (\<open>cmd/tunnel/options.go\<close>,
  \<open>cmd/tunneld/options.go\<close>), run through the model: what the command lines parse to, what the
  configuration file loads to, and the identifier that is refused.
\<close>

section \<open>The client\<close>

lemma documented_client_commands:
  "parseArgs [''start'', ''www'', ''ssh''] =
     Options \<lparr>o_config = ''tunnel.yml'', o_logLevel = 1, o_version = False, o_command = ''start'', o_args = [''www'', ''ssh'']\<rparr>"
  "parseArgs [''-config'', ''config.yaml'', ''-log-level'', ''2'', ''start'', ''ssh''] =
     Options \<lparr>o_config = ''config.yaml'', o_logLevel = 2, o_version = False, o_command = ''start'', o_args = [''ssh'']\<rparr>"
  "parseArgs [''start-all''] =
     Options \<lparr>o_config = ''tunnel.yml'', o_logLevel = 1, o_version = False, o_command = ''start-all'', o_args = []\<rparr>"
  by code_simp+

text \<open>What the YAML of the example sets; the rest keeps the defaults.\<close>

definition documented_tunnel :: "string \<Rightarrow> string \<Rightarrow> string \<Rightarrow> string \<Rightarrow> string \<Rightarrow> tunnel_config option" where
  "documented_tunnel protocol address authorisation host remote =
     Some \<lparr>ct_Protocol = protocol, ct_Addr = address, ct_Auth = authorisation, ct_Host = host, ct_RemoteAddr = remote\<rparr>"

definition documented_config :: "cmd_config \<Rightarrow> cmd_config" where
  "documented_config c = c\<lparr>cfg_ServerAddr := ''SERVER_IP:5223'', cfg_Tunnels :=
     [(''webui'', documented_tunnel ''http'' ''localhost:8080'' ''user:password'' ''webui.my-tunnel-host.com'' []),
      (''ssh'', documented_tunnel ''tcp'' ''192.168.0.5:22'' [] [] ''0.0.0.0:22''),
      (''tls'', documented_tunnel ''sni'' ''localhost:443'' [] ''tls.my-tunnel-host.com'' [])]\<rparr>"

lemma documented_addresses:
  "normalizeAddress ''SERVER_IP:5223'' = Inr ''SERVER_IP:5223''" "normalizeURL ''localhost:8080'' = Inr ''http://localhost:8080''"
  "normalizeAddress ''192.168.0.5:22'' = Inr ''192.168.0.5:22''" "normalizeAddress ''0.0.0.0:22'' = Inr ''0.0.0.0:22''"
  "normalizeAddress ''localhost:443'' = Inr ''localhost:443''"
  by code_simp+

text \<open>
  The documented configuration loads: every address is already in its normal form, except that the HTTP
  backend gets its scheme.
\<close>

theorem documented_config_loads:
  "\<exists>c. loadClientConfigFromFile (\<lambda>f. Inr buf) (\<lambda>b c. Inr (documented_config c)) file = Inr c \<and>
     cfg_ServerAddr c = ''SERVER_IP:5223'' \<and> cfg_Backoff c = DefaultBackoffConfig \<and>
     cfg_Tunnels c =
       [(''webui'', documented_tunnel ''http'' ''http://localhost:8080'' ''user:password'' ''webui.my-tunnel-host.com'' []),
        (''ssh'', documented_tunnel ''tcp'' ''192.168.0.5:22'' [] [] ''0.0.0.0:22''),
        (''tls'', documented_tunnel ''sni'' ''localhost:443'' [] ''tls.my-tunnel-host.com'' [])]"
  by (simp add: loadClientConfigFromFile_def documented_config_def documented_tunnel_def Let_def validate_tunnel_def
      validateHTTP_def validateTCP_def validateSNI_def protocol_names documented_addresses)


section \<open>The server\<close>

lemma documented_server_commands:
  "server_parseArgs [] =
     Options \<lparr>so_httpAddr = '':80'', so_httpsAddr = '':443'', so_tunnelAddr = '':5223'', so_sniAddr = [],
       so_tlsCrt = ''server.crt'', so_tlsKey = ''server.key'', so_rootCA = [], so_clients = [],
       so_logLevel = 1, so_version = False\<rparr>"
  "server_parseArgs [''-httpAddr'', '':8080'', ''-httpsAddr'', []] =
     Options \<lparr>so_httpAddr = '':8080'', so_httpsAddr = [], so_tunnelAddr = '':5223'', so_sniAddr = [],
       so_tlsCrt = ''server.crt'', so_tlsKey = ''server.key'', so_rootCA = [], so_clients = [],
       so_logLevel = 1, so_version = False\<rparr>"
  "server_parseArgs [''-httpsAddr'', [], ''-sniAddr'', '':443'', ''-rootCA'', ''client_root.crt'',
       ''-tlsCrt'', ''server.crt'', ''-tlsKey'', ''server.key''] =
     Options \<lparr>so_httpAddr = '':80'', so_httpsAddr = [], so_tunnelAddr = '':5223'', so_sniAddr = '':443'',
       so_tlsCrt = ''server.crt'', so_tlsKey = ''server.key'', so_rootCA = ''client_root.crt'', so_clients = [],
       so_logLevel = 1, so_version = False\<rparr>"
  by code_simp+

text \<open>The identifier in the usage text of \<open>tunneld\<close>.\<close>

definition documented_client :: string where
  "documented_client = ''YMBKT3V-ESUTZ2Z-7MRILIJ-T35FHGO-D2DHO7D-FXMGSSR-V4LBSZX-BNDONQ4''"

lemma documented_client_digits:
  "length (canonical documented_client) = 56" "unluhnify (canonical documented_client) = Inl (Errorf ''check digit incorrect'')"
  by code_simp+

text \<open>
  The identifier that the usage text gives as an example is refused: its check digits were made with the
  factor starting at one, and the vendored \<open>Generate\<close> starts with two on the thirteen characters of a
  chunk. A server started as the example says ends with an error.
\<close>

theorem documented_client_refused:
  "UnmarshalText i documented_client = Inl (Errorf ''check digit incorrect'') \<and>
   subscribe_clients (split_byte CHR '','' documented_client) r =
     Inl (''invalid identifier '' @ go_quote documented_client @ '': check digit incorrect'')"
proof -
  have "UnmarshalText j documented_client = Inl (Errorf ''check digit incorrect'')" for j
    by (simp add: UnmarshalText_def Let_def documented_client_digits)
  moreover have "split_byte CHR '','' documented_client = [documented_client]" "documented_client \<noteq> []"
    by (rule split_byte_one) (simp_all add: documented_client_def)
  ultimately show ?thesis by simp
qed

end
