(* ===== verification/Spec2Isabelle.thy ===== *)
theory Spec2Isabelle
  imports Server_Routes Server_Requests Server_Listed Duration64 Session_Path Sni_Path Keep_Alive Documented
begin

text \<open>
  The reverse HTTP/2 tunnel \<open>go-http-tunnel\<close>: a public server and clients behind a firewall. A client
  dials the server over mutual TLS and turns the connection around: the server speaks HTTP/2 to it as a
  client does. In a handshake the server asks for the client's tunnels, then opens a route (a host, a
  listening address or a TLS virtual host) for each and carries what the public sends there to the
  client, which hands it to a local service.

  \<^bold>\<open>Theories and sources\<close>, in the order of their imports (paths under \<open>src/\<close>):

  \<^item> \<open>Prelude\<close>: errors as values (\<open>errors.go\<close>), runs of a transition system, the locale
    \<open>invariant_machine\<close> that every transition system here interprets, its extension \<open>simulation\<close> for a
    machine that implements a simpler one, \<open>history_machine\<close> for invariants that speak of past events, generic lemmas.
  \<^item> \<open>GoStd\<close>, \<open>Base_Codec\<close>, \<open>Go_Url\<close>, \<open>Go_Flag\<close>: what the sources use of Go's library (strings, strconv, net,
    path, textproto; base32 and base64; \<open>url.Parse\<close>; \<open>flag\<close>).
  \<^item> \<open>Luhn\<close>, \<open>Ident\<close>: client identifiers and their text with check digits (\<open>id/id.go\<close>, \<open>id/ptls.go\<close>,
    \<open>calmh/luhn\<close>). \<open>Credentials\<close>: \<open>auth.go\<close>. \<open>Control_Msg\<close>: \<open>proto\<close>.
  \<^item> \<open>Logging\<close>, \<open>Http_Data\<close>: \<open>log\<close> and \<open>utils.go\<close>, requests and the copying of bodies.
  \<^item> \<open>Registry\<close>: \<open>registry.go\<close>, two maps from clients to items and from hosts to clients. \<open>Conn_Pool\<close>:
    \<open>pool.go\<close>, the connections of clients and the callback \<open>free\<close>.
  \<^item> \<open>Server_Core\<close>, \<open>Server_Inv\<close>, \<open>Server_Client\<close>: the life of a client connection in \<open>server.go\<close>
    (\<open>NewServer\<close>, \<open>handleClient\<close>, \<open>notifyError\<close>, \<open>addTunnels\<close>, \<open>disconnected\<close>, \<open>Unsubscribe\<close>), the ownership
    of listeners, and what a handler does when nothing interferes.
  \<^item> \<open>Server_Steps\<close>, \<open>Server_Solo\<close>: the same handlers interleaved, with dead connections and
    unsubscriptions in between; a handler that runs alone computes \<open>handleClient\<close>. \<open>Server_Routes\<close>: public
    requests at any moment of that machine. \<open>Server_Peers\<close>: what routes and
    connections go back to. \<open>Server_Listed\<close>: the server of \<open>cmd/tunneld\<close> with a list of clients, running.
    \<open>Server_Listen\<close>: the accept loops of the tunnels as goroutines of it, from the moment their batch is stored.
  \<^item> \<open>Server_Http\<close>: \<open>ServeHTTP\<close>, \<open>RoundTrip\<close>, \<open>proxyHTTP\<close>, \<open>connectRequest\<close>; \<open>Server_Upload\<close>: the two goroutines
    of \<open>proxyHTTP\<close>. \<open>Server_Conn\<close>: \<open>Start\<close>, \<open>listen\<close>,
    \<open>Upgrade\<close>, \<open>proxyConn\<close>, \<open>proxyConnUpgraded\<close>, \<open>Ping\<close>, \<open>Addr\<close>, \<open>Stop\<close>. \<open>Vhost_Mux\<close>: the TLS muxer of
    \<open>go-vhost\<close>, its lookup and its loop. \<open>Keep_Alive\<close>: \<open>keepalive.go\<close>, \<open>keepalive_windows.go\<close>, \<open>tcpkeepalive\<close>.
  \<^item> \<open>Backoff\<close>: \<open>backoff.go\<close> as a locale and \<open>cenkalti/backoff\<close> on unbounded integers; \<open>Duration64\<close>: the same at
    the width of \<open>time.Duration\<close>. \<open>Client_Core\<close>: \<open>client.go\<close>, one
    goroutine at a time; \<open>Client_Steps\<close>: its goroutines interleaved over \<open>connMu\<close>. \<open>Proxies\<close>:
    \<open>proxy.go\<close>, \<open>httpproxy.go\<close>, \<open>tcpproxy.go\<close>. \<open>Client_Relay\<close>: the two goroutines of \<open>TCPProxy.Proxy\<close>.
    \<open>Tunnel_Stream\<close>: the abstract pipe, and how the goroutines on both sides implement it. \<open>Server_Links\<close>: the
    goroutines of all public connections beside those of the server. \<open>Server_Requests\<close>: the goroutines of all
    public requests beside those.
  \<^item> \<open>Cmd_Config\<close>, \<open>Cmd_Tunnel\<close>: the command \<open>cmd/tunnel\<close> from its arguments and file to the started
    client. \<open>Cmd_Tunneld\<close>: the command \<open>cmd/tunneld\<close>. \<open>Documented\<close>: the examples of their usage texts.
  \<^item> \<open>Session_Path\<close>: the handshake from the client's configuration to the server's registry. \<open>Sni_Path\<close>: a
    public TLS connection from its greeting to the local service.
  \<^item> This theory: statements that span server, client and commands.

  \<^bold>\<open>How state and operations correspond.\<close> The server's state is a pair: the pool, and a record \<open>world\<close>
  with the registry, the virtual hosts of the TLS muxer, the open sockets (numbers), the calls of the
  subscription listener and the errors sent. An operation returns its result and the new state; an error
  is a value of \<open>go_error\<close>; a panic is the constructor \<open>Panic\<close>, a flag of the world, or the absence of a
  step. Identifiers are words of the width the source has. What the outside answers is a record of
  functions passed to the operation (\<open>conn_env\<close>, \<open>http2_env\<close>, \<open>http_env\<close>, \<open>cmd_env\<close>, \<open>mux_env\<close>, \<open>sock_env\<close>), the iteration order
  of a Go map is the order of a list, over which the properties quantify.

  \<^bold>\<open>What the lemmas show.\<close> Identifiers: the text form is total, round trips in every tolerated
  spelling, and one wrong character is always detected. Registry: its two maps agree after any
  operations, clients do not interfere, and \<open>set\<close> is all or nothing. Pool: a live connection is never
  replaced. Server: \<open>accounted\<close>, every open listener is owned by exactly one item or goroutine and none is
  closed twice, for handlers alone and in every interleaving; refused clients leave no trace; some
  goroutine can always go on; a route leads to a client that has proved its identity and asked for the host; an accept
  loop serves only the client its listener belongs to, and does what \<open>listen\<close> computes. Data path: authorisation, headers; a connection through the tunnel is a pair of pipes
  from the user to the service and back, in every interleaving of the goroutines on either side, and
  goes over a connection of the one client whose listener accepted it. A public request is sent on only to the
  client that asked for its host, with the credential set for it; its answer is what \<open>ServeHTTP\<close> computes at one
  moment, and while the pool's mutex is free at most four steps of its own answer it or put it on a connection of its
  client, where it waits for the network.
  Handshake: what the server holds for a client is the client's configuration, and a public request for a
  configured host ends at the configured backend, for strings of valid UTF-8. Client: dialling ends if its time is
  limited, pauses are bounded and do not overflow if the longest one fits, a refused client reports why, \<open>Stop\<close>
  closes the connection in every interleaving with one \<open>Start\<close>. Commands: a
  configuration that loads is valid, a tunnel is routed to its service under the address or name it is configured
  with, the server's certificate is verified when roots are given, a server with a list of clients serves no
  others. The theorems about defects of the code (a nil tunnel, stale hosts, a
  disconnect during the handshake, a leaked goroutine, requests cut short by an early answer, a second
  \<open>Start\<close>, IPv6 addresses, the ignored interval, wildcard SNI tunnels, addresses that
  the server announces under another name, a muxer that ends, a relay that waits, the
  documented identifier) state exactly when they appear.

  \<^bold>\<open>Bounds and fuel.\<close> Only \<open>format_fuel\<close> has fuel, the length of the text; every round takes a character.
  Loops over accepted connections, dial attempts and sessions recurse over the list of what the
  outside answers, and return \<open>None\<close>, or a flag that says the loop still runs, when it is used up;
  \<open>dial_terminates\<close> says how many attempts are enough. The handshake reads at most 126976 bytes, which is
  part of the model.

  \<^bold>\<open>Not modelled.\<close> JSON, YAML, X.509, TLS, SHA-256, HTTP/2 framing, sockets, files and
  \<open>httputil.ReverseProxy\<close> are parameters, since their sources are not part of the repository's own
  code; so is the reading of the name in a TLS greeting by \<open>go-vhost\<close>. Of JSON only \<open>json_law\<close> is used:
  tunnels whose strings are valid UTF-8 come back as they were sent (\<open>encoding/json\<close> replaces other bytes by U+FFFD, so
  nothing is said of them), of an HTTP/2 stream that it delivers a beginning of what was written. Floats are rationals: rounding
  is not modelled, and a float that does not fit into a duration is converted as the machine likes.
  \<open>Client_Core\<close> dials with the policy on unbounded integers, which by \<open>pauses_int64\<close> is the 64-bit one
  unless a pause can exceed 292 years. Names of virtual hosts and the bytes of URLs are ASCII. In the
  interleaved server \<open>MarkDead\<close>'s scan of the pool and the admission of a client are one step each;
  a public request reads the registry in one step, asks the pool in one step, which waits for the pool's mutex, and may
  wait for the network forever, since \<open>httpClient\<close> has no timeout; its answer is copied to the user in one step. The server's log messages are left out,
  the logger itself is modelled. The mocks, banner, version and usage texts have no behaviour; the
  examples of the latter are checked against the model.
\<close>

section \<open>From the public request to the local service\<close>

lemma request_reaches_backend:
  assumes "\<forall>e \<in> set m. \<exists>t. snd e = Some t \<and> valid_tunnel t" and "distinct (map fst m)"
    and "map_of m name = Some (Some t)" and "ct_Protocol t = HTTP"
    and "\<forall>e \<in> set m. fst e \<noteq> name \<longrightarrow> http_key (the (snd e)) \<noteq> Some (ct_Host t)"
    and "route_request reg r = Inr (k, outr, msg)" and "connectRequest env k msg body = Inr carrier"
    and "req_Host r = ct_Host t" and "req_Scheme r \<in> {[], ''http'', ''https''}"
  shows "\<exists>hp tp u msg' served. proxy m = Inr (hp, tp) \<and> url_Parse (ct_Addr t) = Inr u \<and>
    ReadControlMessage (carrier\<lparr>req_RemoteAddr := addr\<rparr>) = Inr msg' \<and>
    Proxy \<lparr>pf_HTTP = Some (HTTPProxy_Proxy hp True (Inr inner)), pf_TCP = tcp\<rparr> msg' = Some (Http_served served) \<and>
    req_URLHost (Director hp served) = u_Host u \<and> req_Scheme (Director hp served) = u_Scheme u \<and>
    req_Host (Director hp served) = u_Host u \<and> req_Body (Director hp served) = req_Body inner"
proof -
  have "valid_tunnel t" using map_of_SomeD [OF assms(3)] assms(1) by fastforce
  then have host: "ct_Host t \<noteq> []" using assms(4) by (auto simp: valid_tunnel_def protocol_names)
  have keys: "http_key t = Some (ct_Host t)" "tcp_key t = None"
    using assms(4) by (simp_all add: http_key_def tcp_key_def protocol_names)
  obtain hp tp u where p: "proxy m = Inr (hp, tp)" and u: "url_Parse (ct_Addr t) = Inr u"
    and route: "localURLFor hp (ct_Host t) = Some u"
    using routes_built [OF assms(1-3)] assms(4,5) keys by auto
  let ?msg = "\<lparr>Action = ''proxy'', ForwardedHost = req_Host r, ForwardedProto = request_scheme r, RemoteAddr = addr\<rparr>"
  have msg: "ReadControlMessage (carrier\<lparr>req_RemoteAddr := addr\<rparr>) = Inr ?msg"
    using routed_message [OF assms(6,7)] assms(8) host by simp
  have scheme: "request_scheme r \<in> set [HTTP, HTTPS]"
    using assms(9) by (auto simp: request_scheme_def protocol_names)
  let ?served = "inner\<lparr>req_Header := setXForwardedFor (req_Header inner) addr, req_URLHost := ct_Host t\<rparr>"
  have "Proxy \<lparr>pf_HTTP = Some (HTTPProxy_Proxy hp True (Inr inner)), pf_TCP = tcp\<rparr> ?msg = Some (Http_served ?served)"
    using scheme assms(8) by (simp add: Proxy_def HTTPProxy_Proxy_def Let_def)
  moreover have "Director hp ?served = (let req = ?served in Director hp req)" by simp
  moreover have "req_URLHost (Director hp ?served) = u_Host u \<and> req_Scheme (Director hp ?served) = u_Scheme u \<and>
      req_Host (Director hp ?served) = u_Host u \<and> req_Body (Director hp ?served) = req_Body inner"
    using route by (simp add: Director_def Let_def)
  ultimately show ?thesis using p u msg by blast
qed

text \<open>
  A public request for a host of a configured HTTP tunnel ends at that tunnel's backend: the message
  that the server sends with it, as the client reads it, makes the client's proxy pick the URL
  configured for the host, and the director sends the request there.
\<close>

theorem public_request_reaches_backend:
  assumes "\<forall>e \<in> set m. \<exists>t. snd e = Some t \<and> valid_tunnel t" and "distinct (map fst m)"
    and "map_of m name = Some (Some t)" and "ct_Protocol t = HTTP"
    and "\<forall>e \<in> set m. fst e \<noteq> name \<longrightarrow> http_key (the (snd e)) \<noteq> Some (ct_Host t)"
    and "route_request reg r = Inr (k, outr, msg)" and "connectRequest env k msg body = Inr carrier"
    and "req_Host r = ct_Host t" and "req_Scheme r \<in> {[], ''http'', ''https''}"
  shows "\<exists>hp tp u msg' served. proxy m = Inr (hp, tp) \<and> url_Parse (ct_Addr t) = Inr u \<and>
    ReadControlMessage (carrier\<lparr>req_RemoteAddr := addr\<rparr>) = Inr msg' \<and>
    Proxy \<lparr>pf_HTTP = Some (HTTPProxy_Proxy hp True (Inr inner)), pf_TCP = tcp\<rparr> msg' = Some (Http_served served) \<and>
    req_URLHost (Director hp served) = u_Host u \<and> req_Scheme (Director hp served) = u_Scheme u \<and>
    req_Host (Director hp served) = u_Host u \<and> req_Body (Director hp served) = req_Body inner"
  by (rule request_reaches_backend [OF assms])

text \<open>
  C5. From the configuration to the backend: when the server has accepted a client with a valid
  configuration, a public request for the host of one of its HTTP tunnels, with the tunnel's credential if
  it has one, is routed to that client's connection, and every request the server then sends over it
  ends at the backend configured for the tunnel. No other HTTP tunnel of the configuration may name the
  same host, and its strings are valid UTF-8, as in JSON.
\<close>

theorem configured_tunnel_served:
  assumes "srv_ok base held s" and "held c = []" and "cc_Tunnels (c_config client) = tunnels m"
    and "distinct (map fst m)" and "serveHTTP marshal r client = (Handshake_answer answer, client')"
    and "ce_Do env = Inr resp" and "resp_Body resp = answer" and "answer = [] \<Longrightarrow> resp_ContentLength resp = 0"
    and "json_law marshal (ce_Decode env)" and "handleClient cfg env conn s = (Connected, p', w')"
    and "list_all utf8_tunnel (tunnels m)"
    and "\<forall>e \<in> set m. \<exists>t. snd e = Some t \<and> valid_tunnel t" and "map_of m name = Some (Some t)"
    and "ct_Protocol t = HTTP"
    and "\<forall>e \<in> set m. fst e \<noteq> name \<and> ct_Protocol (the (snd e)) = HTTP \<longrightarrow>
      trimPort (ct_Host (the (snd e))) \<noteq> trimPort (ct_Host t)"
    and "req_Host q = ct_Host t" and "req_Scheme q \<in> {[], ''http'', ''https''}"
    and "case NewAuth (ct_Auth t) of None \<Rightarrow> True | Some a \<Rightarrow> BasicAuth (req_Header q) = (User a, Password a, True)"
  shows "\<exists>i outr msg hp tp u. route_request (w_reg w') q = Inr (i, outr, msg) \<and> session_of (p', w') i = Some conn \<and>
    proxy m = Inr (hp, tp) \<and> url_Parse (ct_Addr t) = Inr u \<and>
    (\<forall>carrier. connectRequest henv i msg body = Inr carrier \<longrightarrow>
      (\<exists>msg' served. ReadControlMessage (carrier\<lparr>req_RemoteAddr := addr\<rparr>) = Inr msg' \<and>
        Proxy \<lparr>pf_HTTP = Some (HTTPProxy_Proxy hp True (Inr inner)), pf_TCP = tcp\<rparr> msg' = Some (Http_served served) \<and>
        req_URLHost (Director hp served) = u_Host u \<and> req_Body (Director hp served) = req_Body inner))"
proof (rule connected_client [OF assms(1-11)])
  fix i hs ls r0 assume i: "session_of (p', w') i = Some conn"
    and hs: "mset hs = mset (map http_host (http_tunnels m))"
    and stored: "set_item \<lparr>Hosts = hs, Listeners = ls\<rparr> i r0 = (None, w_reg w')"
  have "t \<in> set (http_tunnels m)" using map_of_SomeD [OF assms(13)] assms(14) by (force simp: http_tunnels_def)
  moreover have "u = t" if "u \<in> set (http_tunnels m)" "trimPort (ct_Host u) = trimPort (ct_Host t)" for u
    using http_tunnels_unique [OF assms(4,12,13,15)] that by blast
  ultimately have "Subscriber (req_Host q) (w_reg w') = Some (i, NewAuth (ct_Auth t))"
    using http_tunnel_routed [OF stored hs] assms(16) by simp
  then obtain outr msg where route: "route_request (w_reg w') q = Inr (i, outr, msg)"
    using route_request_credential assms(18) by blast
  have other: "\<forall>e \<in> set m. fst e \<noteq> name \<longrightarrow> http_key (the (snd e)) \<noteq> Some (ct_Host t)"
    using assms(15) by (auto simp: http_key_def)
  note backend = request_reaches_backend [OF assms(12,4,13,14) other route _ assms(16,17)]
  have "http_key t = Some (ct_Host t)" "tcp_key t = None"
    using assms(14) by (simp_all add: http_key_def tcp_key_def protocol_names)
  with routes_built [OF assms(12,4,13)] other assms(14) obtain hp tp u where p: "proxy m = Inr (hp, tp)"
    and u: "url_Parse (ct_Addr t) = Inr u" by auto
  have "\<exists>msg' served. ReadControlMessage (carrier\<lparr>req_RemoteAddr := addr\<rparr>) = Inr msg' \<and>
      Proxy \<lparr>pf_HTTP = Some (HTTPProxy_Proxy hp True (Inr inner)), pf_TCP = tcp\<rparr> msg' = Some (Http_served served) \<and>
      req_URLHost (Director hp served) = u_Host u \<and> req_Body (Director hp served) = req_Body inner"
    if "connectRequest henv i msg body = Inr carrier" for carrier
    using backend [OF that, of addr inner tcp] p u by fastforce
  with route i p u show ?thesis by blast
qed

lemma wildcard_tunnel_route:
  assumes "\<forall>e \<in> set m. \<exists>t. snd e = Some t \<and> valid_tunnel t" and "distinct (map fst m)"
    and "map_of m name = Some (Some t)" and "ct_Protocol t \<in> {TCP, TCP4, TCP6}"
    and "\<forall>e \<in> set m. fst e \<noteq> name \<longrightarrow>
      tcp_key (the (snd e)) \<notin> {Some (ct_RemoteAddr t), Some (''[::]:'' @ port), Some port}"
    and "ct_RemoteAddr t = ''0.0.0.0:'' @ port" and "plain port" and "proxy m = Inr (hp, tp)"
  shows "localAddrFor tp (''[::]:'' @ port) = ct_Addr t"
proof -
  have key: "tcp_key t = Some (''0.0.0.0:'' @ port)"
    using assms(4,6) by (auto simp: tcp_key_def protocol_names)
  obtain hs ts where fill: "proxy_fill m ([], []) = Inr (hs, ts)" and tp: "tp = NewMultiTCPProxy ts"
    using assms(8) by (auto simp: proxy_def dest: map_sum_InrD)
  obtain pre post where split: "m = pre @ (name, Some t) # post" and others: "\<forall>e \<in> set (pre @ post). fst e \<noteq> name"
    using map_of_fill_entry [OF assms(3,2)] by blast
  have some: "\<forall>e \<in> set m. snd e \<noteq> None" using assms(1) by fastforce
  have rest: "\<forall>e \<in> set (pre @ post). tcp_key (the (snd e)) \<notin> {Some (''0.0.0.0:'' @ port), Some (''[::]:'' @ port), Some port}"
    using assms(5,6) others split by auto
  have own: "map_of ts (''0.0.0.0:'' @ port) = Some (ct_Addr t)"
    using proxy_fill_last [OF fill some split, of "''0.0.0.0:'' @ port"] key rest by auto
  have "length (''0.0.0.0:'' @ port) \<noteq> length port" by simp
  then have "''0.0.0.0:'' @ port \<noteq> port" by metis
  then have "\<forall>e \<in> set m. tcp_key (the (snd e)) \<notin> {Some (''[::]:'' @ port), Some port}"
    using rest key split by auto
  then have none: "map_of ts k = None" if "k \<in> {''[::]:'' @ port, port}" for k
    using proxy_fill_other [OF fill some] that by auto
  have "valid_tunnel t" using assms(1) split by auto
  then have "ct_Addr t \<noteq> []"
    using assms(4) by (auto simp: valid_tunnel_def net_address_def host_colon_port_def protocol_names)
  moreover have "addr_at ts (''0.0.0.0:'' @ port) = ct_Addr t" "addr_at ts (''[::]:'' @ port) = []" "addr_at ts port = []"
    using own none [of "''[::]:'' @ port"] none [of port] by (simp_all only: addr_at_def option.case insertI1 insertI2)
  ultimately show ?thesis
    using assms(7) by (intro wildcard_route) (simp_all only: tp NewMultiTCPProxy_def tcp_proxy.simps not_False_eq_True)
qed

text \<open>
  C11. A public TCP connection ends at its tunnel's local address: the client asks the server to listen on
  the remote address, the server announces each connection with the address of the listener, and the
  client's proxy dials the configured local address. This is so when the listener's address is the configured one,
  letter by letter, or when the configured one is all IPv4 interfaces, which Go announces as \<open>[::]\<close>, and no other tunnel
  of the configuration has one of these addresses. Under another address, such as that of \<open>localhost\<close>, the connection is
  dropped (\<open>resolved_address_dropped\<close>).
\<close>

theorem public_connection_reaches_service:
  assumes "\<forall>e \<in> set m. \<exists>t. snd e = Some t \<and> valid_tunnel t" and "distinct (map fst m)"
    and "map_of m name = Some (Some t)" and "ct_Protocol t \<in> {TCP, TCP4, TCP6}"
    and "\<forall>e \<in> set m. fst e \<noteq> name \<longrightarrow>
      tcp_key (the (snd e)) \<notin> {Some (ct_RemoteAddr t), Some (''[::]:'' @ port), Some port}"
    and "listening = ct_RemoteAddr t \<or> ct_RemoteAddr t = ''0.0.0.0:'' @ port \<and> listening = ''[::]:'' @ port \<and> plain port"
    and "in_vhost conn = None"
  shows "\<exists>hp tp. proxy m = Inr (hp, tp) \<and>
    (\<exists>tun. map_of (tunnels m) name = Some tun \<and> Protocol tun = ct_Protocol t \<and> tunnel_Addr tun = ct_RemoteAddr t) \<and>
    localAddrFor tp (ForwardedHost (listen_message network listening conn)) = ct_Addr t"
proof -
  have keys: "http_key t = None" "tcp_key t = Some (ct_RemoteAddr t)"
    using assms(4) by (auto simp: http_key_def tcp_key_def protocol_names)
  obtain hp tp where p: "proxy m = Inr (hp, tp)" and route: "localAddrFor tp (ct_RemoteAddr t) = ct_Addr t"
    using routes_built [OF assms(1-3)] assms(4,5) keys by auto
  have fh: "ForwardedHost (listen_message network listening conn) = listening"
    using assms(7) by (simp add: listen_message_def)
  have "localAddrFor tp listening = ct_Addr t"
  proof (cases "listening = ct_RemoteAddr t")
    case True
    with route show ?thesis by simp
  next
    case False
    with assms(6) have wild: "ct_RemoteAddr t = ''0.0.0.0:'' @ port" "listening = ''[::]:'' @ port" "plain port" by auto
    from wildcard_tunnel_route [OF assms(1-5) wild(1,3) p] wild(2) show ?thesis by simp
  qed
  moreover have "\<exists>tun. map_of (tunnels m) name = Some tun \<and> Protocol tun = ct_Protocol t \<and> tunnel_Addr tun = ct_RemoteAddr t"
    using assms(3) by (induction m) (auto simp: tunnels_def)
  ultimately show ?thesis using p fh by auto
qed

section \<open>Examples of the compositions\<close>

definition demo_public :: request where
  "demo_public = empty_request\<lparr>req_Method := ''GET'', req_Host := ''a.b''\<rparr>"

definition demo_web_registry :: "nat registry" where
  "demo_web_registry = snd (set_item \<lparr>Hosts = [\<lparr>ha_Host = ''a.b'', ha_Auth = None\<rparr>], Listeners = []\<rparr> zero_ident
     (Subscribe zero_ident newRegistry))"

lemma demo_public_routed:
  "\<exists>outr msg. route_request demo_web_registry demo_public = Inr (zero_ident, outr, msg)"
proof -
  have "trimPort ''a.b'' = ''a.b''" by (rule trimPort_plain) (simp add: plain_def)
  then have "Subscriber (req_Host demo_public) demo_web_registry = Some (zero_ident, None)"
    by (simp add: demo_public_def demo_web_registry_def Subscriber_def set_item_def Subscribe_def newRegistry_def)
  then show ?thesis by (auto simp: route_request_def Let_def split: prod.split)
qed

lemma public_request_reaches_backend_witness:
  "\<exists>hp tp served. proxy [(''web'', Some demo_web_tunnel)] = Inr (hp, tp) \<and>
     req_URLHost (Director hp served) = ''localhost:8080''"
proof -
  obtain outr msg where r: "route_request demo_web_registry demo_public = Inr (zero_ident, outr, msg)"
    using demo_public_routed by blast
  obtain carrier where c: "connectRequest demo_http_env zero_ident msg [] = Inr carrier"
    by (auto simp: connectRequest_def demo_http_env_def Let_def)
  have "req_Host demo_public = ct_Host demo_web_tunnel" "req_Scheme demo_public \<in> {[], ''http'', ''https''}"
    "ct_Protocol demo_web_tunnel = HTTP"
    by (simp_all add: demo_public_def demo_web_tunnel_def empty_request_def protocol_names)
  with public_request_reaches_backend [OF _ _ _ _ _ r c, of "[(''web'', Some demo_web_tunnel)]" "''web''" demo_web_tunnel "[]" empty_request None]
    demo_web_tunnel_valid demo_backend
  show ?thesis by (auto simp: demo_web_tunnel_def demo_backend_def)
qed

lemma configured_tunnel_served_witness:
  "\<exists>p w i outr msg. handleClient (demo_cfg True) (demo_env [(''web'', Some demo_http)]) 7 demo_server = (Connected, p, w) \<and>
     route_request (w_reg w) demo_public = Inr (i, outr, msg) \<and> session_of (p, w) i = Some 7"
proof -
  let ?m = "[(''web'', Some demo_web_tunnel)]"
  obtain p w where h: "handleClient (demo_cfg True) (demo_env [(''web'', Some demo_http)]) 7 demo_server = (Connected, p, w)"
    using demo_connected by (metis prod.collapse)
  obtain resp where resp: "ce_Do (demo_env [(''web'', Some demo_http)]) = Inr resp" "resp_Body resp = ''{}''"
    using demo_web_response by blast
  have ts: "cc_Tunnels (c_config demo_web_client) = tunnels ?m" by (simp add: demo_web_client_def)
  have t: "ct_Protocol demo_web_tunnel = HTTP" "req_Host demo_public = ct_Host demo_web_tunnel"
    "req_Scheme demo_public \<in> {[], ''http'', ''https''}" "NewAuth (ct_Auth demo_web_tunnel) = None"
    by (simp_all add: demo_web_tunnel_def protocol_names demo_public_def empty_request_def NewAuth_def)
  from configured_tunnel_served [OF demo_ok no_batch_apply ts _ demo_web_answer resp _ demo_json h demo_web_utf8, of "''web''" demo_web_tunnel demo_public]
    t demo_web_tunnel_valid
  have "\<exists>i outr msg. route_request (w_reg w) demo_public = Inr (i, outr, msg) \<and> session_of (p, w) i = Some 7"
    by (simp del: session_of_simps) blast
  with h show ?thesis by blast
qed

lemma public_connection_reaches_service_witness:
  "\<exists>hp tp. proxy [(''ssh'', Some demo_ssh)] = Inr (hp, tp) \<and>
     localAddrFor tp (ForwardedHost (listen_message ''tcp'' ''[::]:22'' \<lparr>in_conn = 9, in_vhost = None, in_keepAlive = None\<rparr>)) =
       ''127.0.0.1:22''"
  using public_connection_reaches_service [of "[(''ssh'', Some demo_ssh)]" "''ssh''" demo_ssh "''22''" "''[::]:22''"
      "\<lparr>in_conn = 9, in_vhost = None, in_keepAlive = None\<rparr>" "''tcp''"] demo_valid(1)
  by (auto simp: demo_ssh_def protocol_names plain_def)

end
